(* ===== verification/CMem.thy ===== *)
theory CMem
  imports Prelude "HOL-Library.Multiset"
begin

text \<open>
  The part of the C abstract machine the EpiphanyDB sources use: objects with an address, the
  allocator (\<open>malloc\<close>, \<open>strdup\<close>, \<open>free\<close>), loads and stores. A call whose behaviour C leaves
  undefined (a null or dangling access, a second \<open>free\<close>, a \<open>free\<close> of an object that
  \<open>malloc\<close> did not return) is the value \<open>None\<close>; everything else is \<open>Some\<close> of the new state.
  Whether an allocation succeeds is decided by the environment: \<open>fails n\<close> says that the
  \<open>n\<close>-th call of the run returns a null pointer. Addresses are never reused, since C makes
  every pointer to a freed object indeterminate.
\<close>

section \<open>State\<close>

type_synonym addr = nat

abbreviation (input) NULL :: addr where "NULL \<equiv> 0"

record 'o cmem =
  objs :: "addr \<rightharpoonup> 'o"
  dyn :: "addr \<Rightarrow> bool"
  brk :: addr
  fails :: "nat \<Rightarrow> bool"
  ncalls :: nat

definition wf_mem :: "'o cmem \<Rightarrow> bool" where
  "wf_mem m \<longleftrightarrow> 0 < brk m \<and> objs m 0 = None \<and> (\<forall>a. brk m \<le> a \<longrightarrow> objs m a = None)
     \<and> (\<forall>a. dyn m a \<longrightarrow> objs m a \<noteq> None)"

text \<open>The heap as a program sees it: which objects there are and which of them are allocated.\<close>

definition same_heap :: "'o cmem \<Rightarrow> 'o cmem \<Rightarrow> bool" where
  "same_heap m m' \<longleftrightarrow> objs m' = objs m \<and> dyn m' = dyn m"

section \<open>Operations\<close>

definition c_malloc :: "'o \<Rightarrow> 'o cmem \<Rightarrow> addr \<times> 'o cmem" where
  "c_malloc v m =
     (if fails m (ncalls m) then (NULL, m\<lparr>ncalls := Suc (ncalls m)\<rparr>)
      else (brk m, m\<lparr>objs := (objs m)(brk m \<mapsto> v), dyn := (dyn m)(brk m := True),
                     brk := Suc (brk m), ncalls := Suc (ncalls m)\<rparr>))"

definition c_free :: "addr \<Rightarrow> 'o cmem \<Rightarrow> 'o cmem option" where
  "c_free a m =
     (if a = NULL then Some m
      else if dyn m a then Some (m\<lparr>objs := (objs m)(a := None), dyn := (dyn m)(a := False)\<rparr>)
      else None)"

definition c_load :: "addr \<Rightarrow> 'o cmem \<Rightarrow> 'o option" where
  "c_load a m = objs m a"

definition c_store :: "addr \<Rightarrow> 'o \<Rightarrow> 'o cmem \<Rightarrow> 'o cmem option" where
  "c_store a v m = (if objs m a = None then None else Some (m\<lparr>objs := (objs m)(a \<mapsto> v)\<rparr>))"

section \<open>The contract of the allocator\<close>

text \<open>
  What the clients rely on: \<open>ok\<close> is the well-formedness of the state, \<open>obj\<close> and \<open>live\<close> its
  observations. The lemmas proved from the contract are the ones the lifecycle theorems of the
  core library use.
\<close>

locale c_heap =
  fixes malloc :: "'o \<Rightarrow> 'm \<Rightarrow> addr \<times> 'm"
    and free :: "addr \<Rightarrow> 'm \<Rightarrow> 'm option"
    and store :: "addr \<Rightarrow> 'o \<Rightarrow> 'm \<Rightarrow> 'm option"
    and obj :: "'m \<Rightarrow> addr \<rightharpoonup> 'o"
    and live :: "'m \<Rightarrow> addr \<Rightarrow> bool"
    and ok :: "'m \<Rightarrow> bool"
  assumes malloc_null: "ok m \<Longrightarrow> malloc v m = (NULL, m') \<Longrightarrow> ok m' \<and> obj m' = obj m \<and> live m' = live m"
    and malloc_fresh: "ok m \<Longrightarrow> malloc v m = (a, m') \<Longrightarrow> a \<noteq> NULL \<Longrightarrow>
        ok m' \<and> obj m a = None \<and> \<not> live m a \<and> obj m' = (obj m)(a \<mapsto> v) \<and> live m' = (live m)(a := True)"
    and free_null: "free NULL m = Some m"
    and free_live: "ok m \<Longrightarrow> live m a \<Longrightarrow>
        \<exists>m'. free a m = Some m' \<and> ok m' \<and> obj m' = (obj m)(a := None) \<and> live m' = (live m)(a := False)"
    and free_dead: "ok m \<Longrightarrow> a \<noteq> NULL \<Longrightarrow> \<not> live m a \<Longrightarrow> free a m = None"
    and store_ok: "ok m \<Longrightarrow> obj m a \<noteq> None \<Longrightarrow>
        \<exists>m'. store a v m = Some m' \<and> ok m' \<and> obj m' = (obj m)(a \<mapsto> v) \<and> live m' = live m"
    and live_obj: "ok m \<Longrightarrow> live m a \<Longrightarrow> obj m a \<noteq> None"
begin

text \<open>An allocation that is freed leaves the heap as it was.\<close>

lemma malloc_free_restores:
  assumes "ok m" "malloc v m = (a, m')"
  shows "\<exists>m''. free a m' = Some m'' \<and> ok m'' \<and> obj m'' = obj m \<and> live m'' = live m"
proof (cases "a = NULL")
  case True
  then show ?thesis using malloc_null [of m v m'] assms free_null by auto
next
  case False
  with malloc_fresh [OF assms] have f: "ok m'" "obj m a = None" "\<not> live m a"
    "obj m' = (obj m)(a \<mapsto> v)" "live m' = (live m)(a := True)" by auto
  then obtain m'' where "free a m' = Some m''" "ok m''" "obj m'' = (obj m')(a := None)"
    "live m'' = (live m')(a := False)" using free_live [of m' a] by auto
  moreover from f have "(obj m')(a := None) = obj m" "(live m')(a := False) = live m"
    by (auto simp: fun_upd_idem)
  ultimately show ?thesis by auto
qed

text \<open>Freeing twice is undefined, whatever the object was.\<close>

lemma double_free_undefined:
  assumes "ok m" "a \<noteq> NULL" "free a m = Some m'"
  shows "free a m' = None"
proof -
  have "live m a" using free_dead [of m a] assms by auto
  then have "ok m' \<and> \<not> live m' a" using free_live [of m a] assms by auto
  then show ?thesis using free_dead assms(2) by blast
qed

end

interpretation ch: c_heap c_malloc c_free c_store objs dyn wf_mem
proof (unfold_locales, goal_cases)
  case 1
  then show ?case by (auto simp: c_malloc_def wf_mem_def split: if_splits)
next
  case 2
  then show ?case by (auto simp: c_malloc_def wf_mem_def split: if_splits)
next
  case 3
  then show ?case by (simp add: c_free_def)
next
  case (4 m a)
  then have "a \<noteq> NULL" by (metis wf_mem_def)
  with 4 show ?case by (auto simp: c_free_def wf_mem_def)
next
  case 5
  then show ?case by (simp add: c_free_def)
next
  case (6 m a v)
  then have "a \<noteq> NULL" by (metis wf_mem_def)
  with 6 show ?case by (auto simp: c_store_def wf_mem_def)
next
  case 7
  then show ?case by (auto simp: wf_mem_def)
qed

section \<open>Rewriting rules\<close>

lemma same_heap_refl [simp]: "same_heap m m"
  by (simp add: same_heap_def)

lemma same_heap_trans: "same_heap a b \<Longrightarrow> same_heap b c \<Longrightarrow> same_heap a c"
  by (simp add: same_heap_def)

lemma wf_mem_same_heap: "wf_mem m \<Longrightarrow> same_heap m m' \<Longrightarrow> brk m \<le> brk m' \<Longrightarrow> wf_mem m'"
  by (auto simp: wf_mem_def same_heap_def)

lemma c_malloc_cases [consumes 1, case_names null fresh]:
  assumes "wf_mem m"
  obtains m' where "c_malloc v m = (NULL, m')" "wf_mem m'" "same_heap m m'"
  | a m' where "c_malloc v m = (a, m')" "a \<noteq> NULL" "wf_mem m'" "objs m a = None" "\<not> dyn m a"
      "objs m' = (objs m)(a \<mapsto> v)" "dyn m' = (dyn m)(a := True)"
proof (cases "c_malloc v m")
  case (Pair a m')
  show ?thesis
  proof (cases "a = NULL")
    case True
    then show ?thesis
      using that(1) [of m'] ch.malloc_null [OF assms, of v m'] Pair by (auto simp: same_heap_def)
  next
    case False
    then show ?thesis using that(2) [of a m'] ch.malloc_fresh [OF assms Pair] Pair by auto
  qed
qed

lemma c_free_NULL [simp]: "c_free NULL m = Some m"
  by (simp add: c_free_def)

lemma wf_memD:
  assumes "wf_mem m"
  shows wf_brk: "brk m \<noteq> 0" and wf_objs_lt: "\<And>a v. objs m a = Some v \<Longrightarrow> a < brk m \<and> a \<noteq> 0"
    and wf_dyn_obj: "\<And>a. dyn m a \<Longrightarrow> objs m a \<noteq> None"
proof -
  show "brk m \<noteq> 0" using assms by (simp add: wf_mem_def)
  show "a < brk m \<and> a \<noteq> 0" if "objs m a = Some v" for a v
    using assms that unfolding wf_mem_def by (metis not_le option.distinct(1))
  show "objs m a \<noteq> None" if "dyn m a" for a
    using assms that by (simp add: wf_mem_def)
qed

text \<open>
  \<open>grow d v m m'\<close>: the step from \<open>m\<close> to \<open>m'\<close> allocated \<open>d\<close> with contents \<open>v\<close>, or nothing when
  \<open>d\<close> is the null pointer. \<open>put\<close> and \<open>del\<close> are the effects of a store and a \<open>free\<close> that are
  defined.
\<close>

definition grow :: "addr \<Rightarrow> 'o \<Rightarrow> 'o cmem \<Rightarrow> 'o cmem \<Rightarrow> bool" where
  "grow d v m m' \<longleftrightarrow> wf_mem m' \<and>
     (if d = NULL then same_heap m m'
      else objs m d = None \<and> \<not> dyn m d \<and> objs m' = (objs m)(d \<mapsto> v) \<and> dyn m' = (dyn m)(d := True))"

lemma c_malloc_grow:
  assumes "wf_mem m" obtains d m' where "c_malloc v m = (d, m')" "grow d v m m'"
  using assms by (cases rule: c_malloc_cases [where v = v]) (auto simp: grow_def)

definition put :: "addr \<Rightarrow> 'o \<Rightarrow> 'o cmem \<Rightarrow> 'o cmem" where
  "put a v m = m\<lparr>objs := (objs m)(a \<mapsto> v)\<rparr>"

definition del :: "addr \<Rightarrow> 'o cmem \<Rightarrow> 'o cmem" where
  "del a m = (if a = NULL then m else m\<lparr>objs := (objs m)(a := None), dyn := (dyn m)(a := False)\<rparr>)"

lemma put_objs [simp]: "objs (put a v m) = (objs m)(a \<mapsto> v)" "dyn (put a v m) = dyn m"
  by (simp_all add: put_def)

lemma del_objs [simp]:
  "objs (del a m) = (if a = NULL then objs m else (objs m)(a := None))"
  "dyn (del a m) = (if a = NULL then dyn m else (dyn m)(a := False))"
  by (simp_all add: del_def)

lemma c_store_put [simp]: "objs m a \<noteq> None \<Longrightarrow> c_store a v m = Some (put a v m)"
  by (simp add: c_store_def put_def)

lemma c_free_del [simp]: "a = NULL \<or> dyn m a \<Longrightarrow> c_free a m = Some (del a m)"
  by (auto simp: c_free_def del_def)

lemma wf_put: "wf_mem m \<Longrightarrow> objs m a \<noteq> None \<Longrightarrow> wf_mem (put a v m)"
  using ch.store_ok [of m a v] by (auto simp: c_store_put)

lemma wf_del: "wf_mem m \<Longrightarrow> a = NULL \<or> dyn m a \<Longrightarrow> wf_mem (del a m)"
  using ch.free_live [of m a] by (auto simp: del_def c_free_def split: if_splits)

section \<open>Weakest preconditions\<close>

text \<open>\<open>wp f Q\<close>: the computation is defined and its result satisfies \<open>Q\<close>.\<close>

definition wp :: "'a option \<Rightarrow> ('a \<Rightarrow> bool) \<Rightarrow> bool" where
  "wp f Q \<longleftrightarrow> (\<exists>x. f = Some x \<and> Q x)"

lemma wp_Some [wp_simps]: "wp (Some x) Q \<longleftrightarrow> Q x" by (simp add: wp_def)
lemma wp_None [wp_simps]: "wp None Q \<longleftrightarrow> False" by (simp add: wp_def)
lemma wp_bind [wp_simps]: "wp (Option.bind f g) Q \<longleftrightarrow> wp f (\<lambda>x. wp (g x) Q)" by (auto simp: wp_def)
lemma wp_if [wp_simps]: "wp (if b then f else g) Q \<longleftrightarrow> (if b then wp f Q else wp g Q)" by simp
lemma wp_case_prod [wp_simps]: "wp (case p of (a, b) \<Rightarrow> f a b) Q \<longleftrightarrow> (case p of (a, b) \<Rightarrow> wp (f a b) Q)"
  by (simp split: prod.split)
lemma wp_store [wp_simps]: "wp (c_store a v m) Q \<longleftrightarrow> objs m a \<noteq> None \<and> Q (put a v m)"
  by (simp add: wp_def c_store_def put_def)
lemma wp_free [wp_simps]: "wp (c_free a m) Q \<longleftrightarrow> (a = NULL \<or> dyn m a) \<and> Q (del a m)"
  by (simp add: wp_def c_free_def del_def)
lemma wp_load [wp_simps]: "wp (c_load a m) Q \<longleftrightarrow> (\<exists>v. objs m a = Some v \<and> Q v)"
  by (auto simp add: wp_def c_load_def)

lemma wp_malloc:
  assumes "wf_mem m" "\<And>d m'. grow d v m m' \<Longrightarrow> P d m'"
  shows "case c_malloc v m of (d, m') \<Rightarrow> P d m'"
  using c_malloc_grow [OF assms(1), of v] assms(2) by (metis case_prod_conv)

lemma put_put [simp]: "put a v (put a w m) = put a v m" by (simp add: put_def)

section \<open>Acquiring and releasing blocks\<close>

text \<open>
  \<open>acquired bs cells m m'\<close>: from \<open>m\<close> to \<open>m'\<close> exactly the blocks \<open>bs\<close> were allocated (null entries
  stand for blocks that are not there) and no other object changed but the \<open>cells\<close>. Read backwards,
  \<open>acquired bs {} m' m\<close> says that the step from \<open>m\<close> to \<open>m'\<close> released exactly the blocks \<open>bs\<close>. The
  rules \<open>wp_alloc\<close>, \<open>wp_put\<close>, \<open>wp_release\<close> and \<open>wp_unwind\<close> carry the relation through a program.
\<close>

definition nonnull :: "addr list \<Rightarrow> addr list" where
  "nonnull = filter (\<lambda>a. a \<noteq> NULL)"

lemma nonnull_simps [simp]:
  "nonnull [] = []" "nonnull (a # bs) = (if a = NULL then nonnull bs else a # nonnull bs)"
  by (simp_all add: nonnull_def)

definition acquired :: "addr list \<Rightarrow> addr set \<Rightarrow> 'o cmem \<Rightarrow> 'o cmem \<Rightarrow> bool" where
  "acquired bs cells m m' \<longleftrightarrow> wf_mem m \<and> wf_mem m' \<and> distinct (nonnull bs) \<and>
     (\<forall>a \<in> set (nonnull bs). objs m a = None) \<and>
     (\<forall>a. a \<notin> set (nonnull bs) \<longrightarrow> a \<notin> cells \<longrightarrow> objs m' a = objs m a) \<and>
     (\<forall>a. dyn m' a \<longleftrightarrow> dyn m a \<or> a \<in> set (nonnull bs))"

lemma wf_objs_NULL: "wf_mem m \<Longrightarrow> objs m NULL = None" "wf_mem m \<Longrightarrow> \<not> dyn m NULL"
  by (auto simp: wf_mem_def)

lemma acquired_wf: "acquired bs cell m m' \<Longrightarrow> wf_mem m'"
  by (simp add: acquired_def)

lemma acquired_refl: "wf_mem m \<Longrightarrow> acquired [] {} m m"
  by (simp add: acquired_def)

lemma acquired_dyn: "acquired bs cells m m' \<Longrightarrow> a \<in> set (nonnull bs) \<Longrightarrow> dyn m' a"
  by (simp add: acquired_def)

lemma acquired_obj: "acquired bs cells m m' \<Longrightarrow> a \<in> set (nonnull bs) \<Longrightarrow> objs m' a \<noteq> None"
  using ch.live_obj [of m' a] by (simp add: acquired_def)

lemma acquired_old: "acquired bs {} m m' \<Longrightarrow> objs m a = Some v \<Longrightarrow> objs m' a = Some v"
  unfolding acquired_def by (metis empty_iff option.distinct(1))

lemma acquired_fresh:
  assumes "acquired bs cells m m'" "a \<in> set (nonnull bs)"
  shows "objs m a = None" "\<not> dyn m a"
  using assms ch.live_obj [of m a] by (auto simp: acquired_def)

lemma acquired_other:
  "acquired bs cells m m' \<Longrightarrow> a \<notin> set (nonnull bs) \<Longrightarrow> a \<notin> cells \<Longrightarrow> objs m' a = objs m a"
  by (simp add: acquired_def)

lemma acquired_NULL [simp]: "acquired (NULL # bs) cells m m' \<longleftrightarrow> acquired bs cells m m'"
  by (auto simp: acquired_def)

lemma acquired_grow:
  assumes "acquired bs {} m m1" "grow d v m1 m2"
  shows "acquired (d # bs) {} m m2"
proof (cases "d = NULL")
  case True
  then show ?thesis using assms by (auto simp: acquired_def grow_def same_heap_def)
next
  case False
  then have g: "wf_mem m2" "objs m1 d = None" "\<not> dyn m1 d" "objs m2 = (objs m1)(d \<mapsto> v)" "dyn m2 = (dyn m1)(d := True)"
    using assms(2) by (auto simp: grow_def)
  have "d \<notin> set (nonnull bs)" using acquired_dyn [OF assms(1)] g(3) by blast
  moreover have "objs m d = None" using acquired_old [OF assms(1)] g(2) by (cases "objs m d") auto
  ultimately show ?thesis using False assms(1) g by (auto simp: acquired_def)
qed

lemma acquired_put: "acquired bs cells m m' \<Longrightarrow> a \<in> set (nonnull bs) \<Longrightarrow> acquired bs cells m (put a v m')"
  using acquired_obj [of bs cells m m' a] by (auto simp: acquired_def wf_put)

lemma acquired_put_cell: "acquired bs {} m m' \<Longrightarrow> objs m' cell \<noteq> None \<Longrightarrow> acquired bs {cell} m (put cell v m')"
  by (auto simp: acquired_def wf_put)

lemma acquired_del: "acquired (a # bs) {} m m' \<Longrightarrow> acquired bs {} m (del a m')"
proof (cases "a = NULL")
  case False
  assume "acquired (a # bs) {} m m'"
  moreover from this have "wf_mem (del a m')" "\<not> dyn m a"
    using False ch.live_obj [of m a] by (auto simp: acquired_def intro: wf_del)
  ultimately show ?thesis using False by (auto simp: acquired_def)
qed (simp add: del_def)

lemma acquired_Nil: "acquired [] {} m m' \<Longrightarrow> same_heap m m'"
  unfolding acquired_def same_heap_def by auto

lemma wp_alloc:
  assumes "acquired bs {} m0 m" "\<And>d m'. acquired (d # bs) {} m0 m' \<Longrightarrow> wp (g d m') Q"
  shows "wp (case c_malloc v m of (d, m') \<Rightarrow> g d m') Q"
  unfolding wp_case_prod by (rule wp_malloc) (use assms in \<open>auto intro: acquired_wf acquired_grow\<close>)

lemma wp_put:
  assumes "acquired bs {} m0 m" "a \<in> set (nonnull bs)"
    "\<And>m'. acquired bs {} m0 m' \<Longrightarrow> objs m' a = Some v \<Longrightarrow> wp (g m') Q"
  shows "wp (c_store a v m \<bind> g) Q"
  using assms(3) [of "put a v m"] acquired_put [OF assms(1,2)] acquired_obj [OF assms(1,2)]
  by (simp add: wp_simps)

lemma wp_release:
  assumes "acquired (a # bs) {} m0 m" "\<And>m'. acquired bs {} m0 m' \<Longrightarrow> wp (g m') Q"
  shows "wp (c_free a m \<bind> g) Q"
  using assms(2) acquired_del [OF assms(1)] acquired_dyn [OF assms(1)]
  by (cases "a = NULL") (simp_all add: wp_simps del_def)

lemma nonnull_set [simp]: "a \<in> set (nonnull bs) \<longleftrightarrow> a \<in> set bs \<and> a \<noteq> NULL"
  by (auto simp: nonnull_def)

lemma del_put [simp]: "a \<noteq> NULL \<Longrightarrow> del a (put a v m) = del a m"
  by (simp add: del_def put_def)

definition owned :: "addr list \<Rightarrow> 'o cmem \<Rightarrow> bool" where
  "owned bs m \<longleftrightarrow> wf_mem m \<and> distinct (nonnull bs) \<and> (\<forall>a \<in> set (nonnull bs). dyn m a)"

lemma acquired_shrink:
  assumes "acquired done {} m' m" "a \<in> set (nonnull (a # bs))  \<Longrightarrow> dyn m a" "a \<notin> set (nonnull done)" 
  shows "acquired (a # done) {} (del a m') m"
proof (cases "a = NULL")
  case False
  with assms have "dyn m' a" by (auto simp: acquired_def)
  moreover from this assms(1) have "wf_mem (del a m')" by (auto simp: acquired_def intro: wf_del)
  ultimately show ?thesis using False assms(1,3) by (auto simp: acquired_def)
qed (use assms in \<open>simp add: del_def\<close>)

lemma wp_unwind:
  assumes "owned (a # bs) m" "acquired done {} m1 m" "a \<notin> set (nonnull done)"
    "\<And>m'. acquired (a # done) {} m' m \<Longrightarrow> wp (g m') Q"
  shows "wp (c_free a m1 \<bind> g) Q"
proof -
  have *: "acquired (a # done) {} (del a m1) m"
    using assms by (intro acquired_shrink [where bs = bs]) (auto simp: owned_def split: if_splits)
  have "a = NULL \<or> dyn m1 a" using assms(1,2,3) by (auto simp: owned_def acquired_def)
  then show ?thesis using assms(4) [OF *] by (auto simp: wp_simps)
qed

lemma owned_alive:
  assumes "owned [a] m" "acquired done {} m1 m" "a \<notin> set (nonnull done)"
  shows "a = NULL \<or> dyn m1 a" "a = NULL \<or> objs m1 a \<noteq> None"
proof -
  show *: "a = NULL \<or> dyn m1 a" using assms by (auto simp: owned_def acquired_def)
  show "a = NULL \<or> objs m1 a \<noteq> None" using * ch.live_obj [of m1 a] assms(2) by (auto simp: acquired_def)
qed

lemma guarded_free [simp]: "(if a \<noteq> NULL then c_free a m else Some m) = c_free a m"
  by simp

lemma acquired_cong:
  "set (nonnull bs) = set (nonnull bs') \<Longrightarrow> distinct (nonnull bs) = distinct (nonnull bs') \<Longrightarrow>
   acquired bs cells m m' = acquired bs' cells m m'"
  by (simp add: acquired_def)

lemma acquired_mset:
  assumes "mset bs = mset bs'" shows "acquired bs cells m m' = acquired bs' cells m m'"
proof -
  have "mset (nonnull bs) = mset (nonnull bs')" using assms by (simp add: nonnull_def mset_filter)
  then show ?thesis by (intro acquired_cong mset_eq_setD mset_eq_imp_distinct_iff)
qed

lemma acquired_swap: "acquired (a # b # bs) cells m m' \<longleftrightarrow> acquired (b # a # bs) cells m m'"
  by (intro acquired_cong) auto

text \<open>A call that acquires blocks followed by one that releases them leaves only the cells changed.\<close>

lemma acquired_released:
  assumes "acquired bs cells m m1" "acquired bs {} m2 m1"
  shows "dyn m2 = dyn m" "a \<notin> cells \<Longrightarrow> objs m2 a = objs m a"
proof -
  have "dyn m1 x \<longleftrightarrow> dyn m x \<or> x \<in> set (nonnull bs)" "dyn m1 x \<longleftrightarrow> dyn m2 x \<or> x \<in> set (nonnull bs)" for x
    using assms by (simp_all only: acquired_def)
  then show "dyn m2 = dyn m"
    using acquired_fresh [OF assms(1)] acquired_fresh [OF assms(2)] by (intro ext) metis
  show "a \<notin> cells \<Longrightarrow> objs m2 a = objs m a"
    using assms by (cases "a \<in> set (nonnull bs)") (auto simp: acquired_def)
qed

end
