(* ===== verification/EpiCore.thy ===== *)
theory EpiCore
  imports CMem
begin

text \<open>
  The EpiphanyDB core library: the public header \<open>include/epiphanydb.h\<close> and its implementation
  \<open>src/epiphanydb_core.c\<close>. Every entry point is a function on the C state of \<open>CMem\<close>: its
  pointers are addresses, its out-parameters are cells of the caller, \<open>None\<close> is undefined
  behaviour. The implementation returns two error codes that the header does not declare
  (\<open>EPIPHANYDB_ERROR_OUT_OF_MEMORY\<close> and \<open>EPIPHANYDB_ERROR_STORAGE_ENGINE\<close>); their values
  are the parameter \<open>core_codes\<close>.
\<close>

section \<open>Types of the header\<close>

definition EPIPHANYDB_VERSION_STRING :: string where
  "EPIPHANYDB_VERSION_STRING = ''1.0.0''"

text \<open>
  A storage type has no negative enumerator, so it is an unsigned int of the compiler; an error
  code has negative ones, so it is a signed int.
\<close>

type_synonym EpiphanyDBStorageType = uint32

definition EPIPHANYDB_STORAGE_HEAP :: EpiphanyDBStorageType where "EPIPHANYDB_STORAGE_HEAP = 0"
definition EPIPHANYDB_STORAGE_COLUMNAR :: EpiphanyDBStorageType where "EPIPHANYDB_STORAGE_COLUMNAR = 1"
definition EPIPHANYDB_STORAGE_VECTOR :: EpiphanyDBStorageType where "EPIPHANYDB_STORAGE_VECTOR = 2"
definition EPIPHANYDB_STORAGE_TIMESERIES :: EpiphanyDBStorageType where "EPIPHANYDB_STORAGE_TIMESERIES = 3"
definition EPIPHANYDB_STORAGE_GRAPH :: EpiphanyDBStorageType where "EPIPHANYDB_STORAGE_GRAPH = 4"
definition EPIPHANYDB_STORAGE_MAX :: EpiphanyDBStorageType where "EPIPHANYDB_STORAGE_MAX = 5"

type_synonym EpiphanyDBError = int

definition EPIPHANYDB_SUCCESS :: EpiphanyDBError where "EPIPHANYDB_SUCCESS = 0"
definition EPIPHANYDB_ERROR_INVALID_PARAM :: EpiphanyDBError where "EPIPHANYDB_ERROR_INVALID_PARAM = -1"
definition EPIPHANYDB_ERROR_NOT_FOUND :: EpiphanyDBError where "EPIPHANYDB_ERROR_NOT_FOUND = -2"
definition EPIPHANYDB_ERROR_ALREADY_EXISTS :: EpiphanyDBError where "EPIPHANYDB_ERROR_ALREADY_EXISTS = -3"
definition EPIPHANYDB_ERROR_INDEX :: EpiphanyDBError where "EPIPHANYDB_ERROR_INDEX = -4"
definition EPIPHANYDB_ERROR_TRANSACTION :: EpiphanyDBError where "EPIPHANYDB_ERROR_TRANSACTION = -5"
definition EPIPHANYDB_ERROR_STORAGE :: EpiphanyDBError where "EPIPHANYDB_ERROR_STORAGE = -6"
definition EPIPHANYDB_ERROR_MEMORY :: EpiphanyDBError where "EPIPHANYDB_ERROR_MEMORY = -7"
definition EPIPHANYDB_ERROR_IO :: EpiphanyDBError where "EPIPHANYDB_ERROR_IO = -8"
definition EPIPHANYDB_ERROR_UNKNOWN :: EpiphanyDBError where "EPIPHANYDB_ERROR_UNKNOWN = -99"

definition declared_errors :: "EpiphanyDBError list" where
  "declared_errors =
     [EPIPHANYDB_SUCCESS, EPIPHANYDB_ERROR_INVALID_PARAM, EPIPHANYDB_ERROR_NOT_FOUND,
      EPIPHANYDB_ERROR_ALREADY_EXISTS, EPIPHANYDB_ERROR_INDEX, EPIPHANYDB_ERROR_TRANSACTION,
      EPIPHANYDB_ERROR_STORAGE, EPIPHANYDB_ERROR_MEMORY, EPIPHANYDB_ERROR_IO,
      EPIPHANYDB_ERROR_UNKNOWN]"

lemmas storage_type_defs =
  EPIPHANYDB_STORAGE_HEAP_def EPIPHANYDB_STORAGE_COLUMNAR_def EPIPHANYDB_STORAGE_VECTOR_def
  EPIPHANYDB_STORAGE_TIMESERIES_def EPIPHANYDB_STORAGE_GRAPH_def EPIPHANYDB_STORAGE_MAX_def

lemmas error_code_defs =
  EPIPHANYDB_SUCCESS_def EPIPHANYDB_ERROR_INVALID_PARAM_def EPIPHANYDB_ERROR_NOT_FOUND_def
  EPIPHANYDB_ERROR_ALREADY_EXISTS_def EPIPHANYDB_ERROR_INDEX_def EPIPHANYDB_ERROR_TRANSACTION_def
  EPIPHANYDB_ERROR_STORAGE_def EPIPHANYDB_ERROR_MEMORY_def EPIPHANYDB_ERROR_IO_def
  EPIPHANYDB_ERROR_UNKNOWN_def

record core_codes =
  OUT_OF_MEMORY :: EpiphanyDBError
  STORAGE_ENGINE :: EpiphanyDBError

record EpiphanyDBConfig =
  data_directory :: addr
  log_directory :: addr
  cfg_shared_memory_size :: uint64
  max_connections :: uint32
  enable_logging :: bool
  enable_compression :: bool
  default_storage_type :: EpiphanyDBStorageType

section \<open>Internal structures\<close>

record EpiphanyDBContext =
  config :: EpiphanyDBConfig
  initialized :: bool
  shared_memory :: addr
  ctx_shared_memory_size :: uint64
  connection_count :: uint32

record EpiphanyDBTable =
  tab_name :: addr
  storage_type :: EpiphanyDBStorageType
  tab_context :: addr
  storage_handle :: addr
  is_open :: bool

record EpiphanyDBTransaction =
  txn_context :: addr
  transaction_id :: uint64
  is_active :: bool
  transaction_data :: addr

record EpiphanyDBIndex =
  idx_name :: addr
  idx_table :: addr
  column_names :: addr
  num_columns :: uint32
  index_handle :: addr

text \<open>
  The objects the library touches: raw blocks of a size, zeroed blocks, C strings, the caller's
  out-cells (a pointer or a size) and the four structures.
\<close>

datatype core_obj =
    Raw uint64
  | Zeroed uint64
  | Str string
  | PtrCell addr
  | SizeCell uint64
  | ConfigObj EpiphanyDBConfig
  | ContextObj EpiphanyDBContext
  | TableObj EpiphanyDBTable
  | TxnObj EpiphanyDBTransaction
  | IndexObj EpiphanyDBIndex

type_synonym core_mem = "core_obj cmem"

text \<open>The state after \<open>memset(p, 0, sizeof *p)\<close>.\<close>

definition zero_config :: EpiphanyDBConfig where
  "zero_config = \<lparr>data_directory = NULL, log_directory = NULL, cfg_shared_memory_size = 0,
     max_connections = 0, enable_logging = False, enable_compression = False,
     default_storage_type = 0\<rparr>"

definition zero_context :: EpiphanyDBContext where
  "zero_context = \<lparr>config = zero_config, initialized = False, shared_memory = NULL,
     ctx_shared_memory_size = 0, connection_count = 0\<rparr>"

definition zero_table :: EpiphanyDBTable where
  "zero_table = \<lparr>tab_name = NULL, storage_type = 0, tab_context = NULL, storage_handle = NULL,
     is_open = False\<rparr>"

definition zero_transaction :: EpiphanyDBTransaction where
  "zero_transaction = \<lparr>txn_context = NULL, transaction_id = 0, is_active = False,
     transaction_data = NULL\<rparr>"

section \<open>Typed accesses\<close>

definition load_config :: "addr \<Rightarrow> core_mem \<Rightarrow> EpiphanyDBConfig option" where
  "load_config a m = (case c_load a m of Some (ConfigObj c) \<Rightarrow> Some c | _ \<Rightarrow> None)"

definition load_context :: "addr \<Rightarrow> core_mem \<Rightarrow> EpiphanyDBContext option" where
  "load_context a m = (case c_load a m of Some (ContextObj c) \<Rightarrow> Some c | _ \<Rightarrow> None)"

definition load_table :: "addr \<Rightarrow> core_mem \<Rightarrow> EpiphanyDBTable option" where
  "load_table a m = (case c_load a m of Some (TableObj t) \<Rightarrow> Some t | _ \<Rightarrow> None)"

definition load_txn :: "addr \<Rightarrow> core_mem \<Rightarrow> EpiphanyDBTransaction option" where
  "load_txn a m = (case c_load a m of Some (TxnObj t) \<Rightarrow> Some t | _ \<Rightarrow> None)"

definition load_str :: "addr \<Rightarrow> core_mem \<Rightarrow> string option" where
  "load_str a m = (case c_load a m of Some (Str s) \<Rightarrow> Some s | _ \<Rightarrow> None)"

text \<open>Stores through the out-parameters: the cell must be one of the right type.\<close>

definition store_ptr :: "addr \<Rightarrow> addr \<Rightarrow> core_mem \<Rightarrow> core_mem option" where
  "store_ptr a p m = (case c_load a m of Some (PtrCell q) \<Rightarrow> c_store a (PtrCell p) m | _ \<Rightarrow> None)"

definition store_size :: "addr \<Rightarrow> uint64 \<Rightarrow> core_mem \<Rightarrow> core_mem option" where
  "store_size a n m = (case c_load a m of Some (SizeCell k) \<Rightarrow> c_store a (SizeCell n) m | _ \<Rightarrow> None)"

text \<open>\<open>strdup\<close>: a fresh copy, or a null pointer when the allocation fails.\<close>

definition c_strdup :: "addr \<Rightarrow> core_mem \<Rightarrow> (addr \<times> core_mem) option" where
  "c_strdup a m = do { s \<leftarrow> load_str a m; Some (c_malloc (Str s) m) }"

text \<open>The guarded copy of an optional string field: a null field stays null.\<close>

definition opt_strdup :: "addr \<Rightarrow> core_mem \<Rightarrow> (addr \<times> core_mem) option" where
  "opt_strdup a m = (if a \<noteq> NULL then c_strdup a m else Some (NULL, m))"

section \<open>Initialisation and cleanup\<close>

text \<open>\<open>sizeof\<close> of the structures on an LP64 target.\<close>

definition sizeof_EpiphanyDBContext :: uint64 where "sizeof_EpiphanyDBContext = 72"
definition sizeof_EpiphanyDBTable :: uint64 where "sizeof_EpiphanyDBTable = 40"
definition sizeof_EpiphanyDBTransaction :: uint64 where "sizeof_EpiphanyDBTransaction = 32"

text \<open>
  \<open>epiphanydb_init\<close>, last part first: the shared memory block, then the log directory, then the
  entry point with the allocation of the context and the copy of the configuration. Each early
  return frees what the earlier parts allocated.
\<close>

definition init_shared_memory ::
  "core_codes \<Rightarrow> addr \<Rightarrow> addr \<Rightarrow> EpiphanyDBConfig \<Rightarrow> core_mem \<Rightarrow> (EpiphanyDBError \<times> core_mem) option" where
  "init_shared_memory ec ctx context conf m = do {
     let size = cfg_shared_memory_size conf;
     let (shm, m) = (if size > 0 then c_malloc (Raw size) m else (NULL, m));
     let cx = zero_context\<lparr>config := conf, shared_memory := shm\<rparr>;
     m \<leftarrow> c_store context (ContextObj cx) m;
     if size > 0 \<and> shm = NULL then do {
       m \<leftarrow> c_free (log_directory conf) m;
       m \<leftarrow> c_free (data_directory conf) m;
       m \<leftarrow> c_free context m;
       Some (OUT_OF_MEMORY ec, m)
     } else do {
       m \<leftarrow> (if size > 0 then c_store shm (Zeroed size) m else Some m);
       let cx = cx\<lparr>ctx_shared_memory_size := (if size > 0 then size else 0)\<rparr>;
       m \<leftarrow> c_store context (ContextObj (cx\<lparr>initialized := True, connection_count := 0\<rparr>)) m;
       m \<leftarrow> store_ptr ctx context m;
       Some (EPIPHANYDB_SUCCESS, m)
     }
   }"

definition init_log_directory ::
  "core_codes \<Rightarrow> addr \<Rightarrow> addr \<Rightarrow> EpiphanyDBConfig \<Rightarrow> core_mem \<Rightarrow> (EpiphanyDBError \<times> core_mem) option" where
  "init_log_directory ec ctx context conf m = do {
     (ld, m) \<leftarrow> opt_strdup (log_directory conf) m;
     m \<leftarrow> c_store context (ContextObj (zero_context\<lparr>config := conf\<lparr>log_directory := ld\<rparr>\<rparr>)) m;
     if log_directory conf \<noteq> NULL \<and> ld = NULL then do {
       m \<leftarrow> c_free (data_directory conf) m;
       m \<leftarrow> c_free context m;
       Some (OUT_OF_MEMORY ec, m)
     } else init_shared_memory ec ctx context (conf\<lparr>log_directory := ld\<rparr>) m
   }"

definition epiphanydb_init :: "core_codes \<Rightarrow> addr \<Rightarrow> addr \<Rightarrow> core_mem \<Rightarrow> (EpiphanyDBError \<times> core_mem) option" where
  "epiphanydb_init ec ctx cfg m =
     (if ctx = NULL \<or> cfg = NULL then Some (EPIPHANYDB_ERROR_INVALID_PARAM, m)
      else let (context, m) = c_malloc (Raw sizeof_EpiphanyDBContext) m in
      if context = NULL then Some (OUT_OF_MEMORY ec, m)
      else do {
        m \<leftarrow> c_store context (ContextObj zero_context) m;
        conf \<leftarrow> load_config cfg m;
        m \<leftarrow> c_store context (ContextObj (zero_context\<lparr>config := conf\<rparr>)) m;
        (dd, m) \<leftarrow> opt_strdup (data_directory conf) m;
        m \<leftarrow> c_store context (ContextObj (zero_context\<lparr>config := conf\<lparr>data_directory := dd\<rparr>\<rparr>)) m;
        if data_directory conf \<noteq> NULL \<and> dd = NULL then do {
          m \<leftarrow> c_free context m;
          Some (OUT_OF_MEMORY ec, m)
        } else init_log_directory ec ctx context (conf\<lparr>data_directory := dd\<rparr>) m
      })"

definition epiphanydb_cleanup :: "addr \<Rightarrow> core_mem \<Rightarrow> core_mem option" where
  "epiphanydb_cleanup ctx m =
     (if ctx = NULL then Some m
      else do {
        c \<leftarrow> load_context ctx m;
        m \<leftarrow> (if shared_memory c \<noteq> NULL then c_free (shared_memory c) m else Some m);
        m \<leftarrow> (if data_directory (config c) \<noteq> NULL then c_free (data_directory (config c)) m else Some m);
        m \<leftarrow> (if log_directory (config c) \<noteq> NULL then c_free (log_directory (config c)) m else Some m);
        m \<leftarrow> c_store ctx (ContextObj zero_context) m;
        c_free ctx m
      })"

definition epiphanydb_version :: string where
  "epiphanydb_version = EPIPHANYDB_VERSION_STRING"

definition storage_engine_names :: "string list" where
  "storage_engine_names = [''heap'', ''columnar'', ''vector'', ''timeseries'', ''graph'']"

definition error_messages :: "string list" where
  "error_messages = [''Success'', ''Invalid parameter'', ''Out of memory'', ''I/O error'',
     ''Storage engine error'', ''Transaction error'', ''Index error'', ''Unknown error'']"

definition epiphanydb_error_message :: "EpiphanyDBError \<Rightarrow> string" where
  "epiphanydb_error_message err =
     (if err \<ge> 0 \<and> nat err < length error_messages then error_messages ! nat err
      else ''Unknown error code'')"

definition epiphanydb_storage_engine_available :: "EpiphanyDBStorageType \<Rightarrow> bool" where
  "epiphanydb_storage_engine_available t \<longleftrightarrow> t \<ge> 0 \<and> t < EPIPHANYDB_STORAGE_MAX"

definition epiphanydb_storage_engine_name :: "EpiphanyDBStorageType \<Rightarrow> string" where
  "epiphanydb_storage_engine_name t =
     (if t \<ge> 0 \<and> t < EPIPHANYDB_STORAGE_MAX then storage_engine_names ! unat t else ''unknown'')"

section \<open>Tables\<close>

definition epiphanydb_create_table ::
  "core_codes \<Rightarrow> addr \<Rightarrow> addr \<Rightarrow> EpiphanyDBStorageType \<Rightarrow> addr \<Rightarrow> addr \<Rightarrow> core_mem \<Rightarrow> (EpiphanyDBError \<times> core_mem) option" where
  "epiphanydb_create_table ec ctx table_name st schema table m =
     (if ctx = NULL \<or> table_name = NULL \<or> schema = NULL \<or> table = NULL
      then Some (EPIPHANYDB_ERROR_INVALID_PARAM, m)
      else do {
        c \<leftarrow> load_context ctx m;
        if \<not> initialized c then Some (EPIPHANYDB_ERROR_INVALID_PARAM, m)
        else if \<not> epiphanydb_storage_engine_available st then Some (STORAGE_ENGINE ec, m)
        else let (new_table, m) = c_malloc (Raw sizeof_EpiphanyDBTable) m in
        if new_table = NULL then Some (OUT_OF_MEMORY ec, m)
        else do {
          m \<leftarrow> c_store new_table (TableObj zero_table) m;
          (nm, m) \<leftarrow> c_strdup table_name m;
          m \<leftarrow> c_store new_table (TableObj (zero_table\<lparr>tab_name := nm\<rparr>)) m;
          if nm = NULL then do {
            m \<leftarrow> c_free new_table m;
            Some (OUT_OF_MEMORY ec, m)
          } else do {
            m \<leftarrow> c_store new_table (TableObj \<lparr>tab_name = nm, storage_type = st, tab_context = ctx,
                   storage_handle = NULL, is_open = True\<rparr>) m;
            m \<leftarrow> store_ptr table new_table m;
            Some (EPIPHANYDB_SUCCESS, m)
          }
        }
      })"

text \<open>\<open>schema_lit\<close> is the address of the literal \<open>"placeholder"\<close>, a static object.\<close>

definition epiphanydb_open_table ::
  "core_codes \<Rightarrow> addr \<Rightarrow> addr \<Rightarrow> addr \<Rightarrow> addr \<Rightarrow> core_mem \<Rightarrow> (EpiphanyDBError \<times> core_mem) option" where
  "epiphanydb_open_table ec schema_lit ctx table_name table m =
     (if ctx = NULL \<or> table_name = NULL \<or> table = NULL
      then Some (EPIPHANYDB_ERROR_INVALID_PARAM, m)
      else do {
        c \<leftarrow> load_context ctx m;
        if \<not> initialized c then Some (EPIPHANYDB_ERROR_INVALID_PARAM, m)
        else epiphanydb_create_table ec ctx table_name EPIPHANYDB_STORAGE_HEAP schema_lit table m
      })"

definition epiphanydb_close_table :: "addr \<Rightarrow> core_mem \<Rightarrow> core_mem option" where
  "epiphanydb_close_table table m =
     (if table = NULL then Some m
      else do {
        t \<leftarrow> load_table table m;
        m \<leftarrow> (if tab_name t \<noteq> NULL then c_free (tab_name t) m else Some m);
        m \<leftarrow> c_store table (TableObj zero_table) m;
        c_free table m
      })"

definition epiphanydb_drop_table :: "addr \<Rightarrow> addr \<Rightarrow> core_mem \<Rightarrow> (EpiphanyDBError \<times> core_mem) option" where
  "epiphanydb_drop_table ctx table_name m =
     (if ctx = NULL \<or> table_name = NULL then Some (EPIPHANYDB_ERROR_INVALID_PARAM, m)
      else do {
        c \<leftarrow> load_context ctx m;
        if \<not> initialized c then Some (EPIPHANYDB_ERROR_INVALID_PARAM, m)
        else Some (EPIPHANYDB_SUCCESS, m)
      })"

section \<open>Transactions\<close>

definition epiphanydb_begin_transaction ::
  "core_codes \<Rightarrow> addr \<Rightarrow> addr \<Rightarrow> core_mem \<Rightarrow> (EpiphanyDBError \<times> core_mem) option" where
  "epiphanydb_begin_transaction ec ctx txn m =
     (if ctx = NULL \<or> txn = NULL then Some (EPIPHANYDB_ERROR_INVALID_PARAM, m)
      else do {
        c \<leftarrow> load_context ctx m;
        if \<not> initialized c then Some (EPIPHANYDB_ERROR_INVALID_PARAM, m)
        else let (transaction, m) = c_malloc (Raw sizeof_EpiphanyDBTransaction) m in
        if transaction = NULL then Some (OUT_OF_MEMORY ec, m)
        else do {
          m \<leftarrow> c_store transaction (TxnObj zero_transaction) m;
          m \<leftarrow> c_store transaction (TxnObj (zero_transaction\<lparr>txn_context := ctx,
                 transaction_id := 1, is_active := True\<rparr>)) m;
          m \<leftarrow> store_ptr txn transaction m;
          Some (EPIPHANYDB_SUCCESS, m)
        }
      })"

definition epiphanydb_commit_transaction :: "addr \<Rightarrow> core_mem \<Rightarrow> (EpiphanyDBError \<times> core_mem) option" where
  "epiphanydb_commit_transaction txn m =
     (if txn = NULL then Some (EPIPHANYDB_ERROR_INVALID_PARAM, m)
      else do {
        t \<leftarrow> load_txn txn m;
        if \<not> is_active t then Some (EPIPHANYDB_ERROR_INVALID_PARAM, m)
        else do {
          m \<leftarrow> c_store txn (TxnObj (t\<lparr>is_active := False\<rparr>)) m;
          m \<leftarrow> c_free txn m;
          Some (EPIPHANYDB_SUCCESS, m)
        }
      })"

definition epiphanydb_rollback_transaction :: "addr \<Rightarrow> core_mem \<Rightarrow> (EpiphanyDBError \<times> core_mem) option" where
  "epiphanydb_rollback_transaction txn m =
     (if txn = NULL then Some (EPIPHANYDB_ERROR_INVALID_PARAM, m)
      else do {
        t \<leftarrow> load_txn txn m;
        if \<not> is_active t then Some (EPIPHANYDB_ERROR_INVALID_PARAM, m)
        else do {
          m \<leftarrow> c_store txn (TxnObj (t\<lparr>is_active := False\<rparr>)) m;
          m \<leftarrow> c_free txn m;
          Some (EPIPHANYDB_SUCCESS, m)
        }
      })"

section \<open>Data operations, indexes and utilities\<close>

definition epiphanydb_insert ::
  "addr \<Rightarrow> addr \<Rightarrow> addr \<Rightarrow> uint64 \<Rightarrow> core_mem \<Rightarrow> (EpiphanyDBError \<times> core_mem) option" where
  "epiphanydb_insert table txn data data_size m =
     (if table = NULL \<or> data = NULL \<or> data_size = 0 then Some (EPIPHANYDB_ERROR_INVALID_PARAM, m)
      else Some (EPIPHANYDB_SUCCESS, m))"

definition epiphanydb_update ::
  "addr \<Rightarrow> addr \<Rightarrow> addr \<Rightarrow> uint64 \<Rightarrow> addr \<Rightarrow> uint64 \<Rightarrow> core_mem \<Rightarrow> (EpiphanyDBError \<times> core_mem) option" where
  "epiphanydb_update table txn key key_size data data_size m =
     (if table = NULL \<or> key = NULL \<or> key_size = 0 \<or> data = NULL \<or> data_size = 0
      then Some (EPIPHANYDB_ERROR_INVALID_PARAM, m)
      else Some (EPIPHANYDB_SUCCESS, m))"

definition epiphanydb_delete ::
  "addr \<Rightarrow> addr \<Rightarrow> addr \<Rightarrow> uint64 \<Rightarrow> core_mem \<Rightarrow> (EpiphanyDBError \<times> core_mem) option" where
  "epiphanydb_delete table txn key key_size m =
     (if table = NULL \<or> key = NULL \<or> key_size = 0 then Some (EPIPHANYDB_ERROR_INVALID_PARAM, m)
      else Some (EPIPHANYDB_SUCCESS, m))"

definition epiphanydb_select ::
  "addr \<Rightarrow> addr \<Rightarrow> addr \<Rightarrow> uint64 \<Rightarrow> addr \<Rightarrow> addr \<Rightarrow> core_mem \<Rightarrow> (EpiphanyDBError \<times> core_mem) option" where
  "epiphanydb_select table txn key key_size data data_size m =
     (if table = NULL \<or> key = NULL \<or> key_size = 0 \<or> data = NULL \<or> data_size = NULL
      then Some (EPIPHANYDB_ERROR_INVALID_PARAM, m)
      else do {
        m \<leftarrow> store_ptr data NULL m;
        m \<leftarrow> store_size data_size 0 m;
        Some (EPIPHANYDB_SUCCESS, m)
      })"

definition epiphanydb_create_index ::
  "addr \<Rightarrow> addr \<Rightarrow> addr \<Rightarrow> uint32 \<Rightarrow> addr \<Rightarrow> core_mem \<Rightarrow> (EpiphanyDBError \<times> core_mem) option" where
  "epiphanydb_create_index table index_name col_names n_cols index m =
     (if table = NULL \<or> index_name = NULL \<or> col_names = NULL \<or> sint n_cols \<le> 0 \<or> index = NULL
      then Some (EPIPHANYDB_ERROR_INVALID_PARAM, m)
      else do {
        m \<leftarrow> store_ptr index NULL m;
        Some (EPIPHANYDB_SUCCESS, m)
      })"

definition epiphanydb_drop_index :: "addr \<Rightarrow> core_mem \<Rightarrow> (EpiphanyDBError \<times> core_mem) option" where
  "epiphanydb_drop_index index m =
     (if index = NULL then Some (EPIPHANYDB_ERROR_INVALID_PARAM, m)
      else Some (EPIPHANYDB_SUCCESS, m))"

definition epiphanydb_get_table_stats ::
  "addr \<Rightarrow> addr \<Rightarrow> addr \<Rightarrow> core_mem \<Rightarrow> (EpiphanyDBError \<times> core_mem) option" where
  "epiphanydb_get_table_stats table num_rows table_size m =
     (if table = NULL \<or> num_rows = NULL \<or> table_size = NULL
      then Some (EPIPHANYDB_ERROR_INVALID_PARAM, m)
      else do {
        m \<leftarrow> store_size num_rows 0 m;
        m \<leftarrow> store_size table_size 0 m;
        Some (EPIPHANYDB_SUCCESS, m)
      })"

definition epiphanydb_vacuum_table :: "addr \<Rightarrow> core_mem \<Rightarrow> (EpiphanyDBError \<times> core_mem) option" where
  "epiphanydb_vacuum_table table m =
     (if table = NULL then Some (EPIPHANYDB_ERROR_INVALID_PARAM, m)
      else Some (EPIPHANYDB_SUCCESS, m))"

definition epiphanydb_analyze_table :: "addr \<Rightarrow> core_mem \<Rightarrow> (EpiphanyDBError \<times> core_mem) option" where
  "epiphanydb_analyze_table table m =
     (if table = NULL then Some (EPIPHANYDB_ERROR_INVALID_PARAM, m)
      else Some (EPIPHANYDB_SUCCESS, m))"

section \<open>Rules for the typed accesses\<close>

lemma wp_load_config [wp_simps]: "wp (load_config a m) Q \<longleftrightarrow> (\<exists>c. objs m a = Some (ConfigObj c) \<and> Q c)"
  by (auto simp: wp_def load_config_def c_load_def split: option.splits core_obj.splits)

lemma wp_load_context [wp_simps]: "wp (load_context a m) Q \<longleftrightarrow> (\<exists>c. objs m a = Some (ContextObj c) \<and> Q c)"
  by (auto simp: wp_def load_context_def c_load_def split: option.splits core_obj.splits)

lemma wp_load_table [wp_simps]: "wp (load_table a m) Q \<longleftrightarrow> (\<exists>c. objs m a = Some (TableObj c) \<and> Q c)"
  by (auto simp: wp_def load_table_def c_load_def split: option.splits core_obj.splits)

lemma wp_load_txn [wp_simps]: "wp (load_txn a m) Q \<longleftrightarrow> (\<exists>c. objs m a = Some (TxnObj c) \<and> Q c)"
  by (auto simp: wp_def load_txn_def c_load_def split: option.splits core_obj.splits)

lemma wp_load_str [wp_simps]: "wp (load_str a m) Q \<longleftrightarrow> (\<exists>c. objs m a = Some (Str c) \<and> Q c)"
  by (auto simp: wp_def load_str_def c_load_def split: option.splits core_obj.splits)

lemma wp_store_ptr [wp_simps]: "wp (store_ptr a p m) Q \<longleftrightarrow> (\<exists>q. objs m a = Some (PtrCell q)) \<and> Q (put a (PtrCell p) m)"
  by (auto simp: wp_def store_ptr_def c_load_def split: option.splits core_obj.splits)

lemma wp_store_size [wp_simps]: "wp (store_size a p m) Q \<longleftrightarrow> (\<exists>q. objs m a = Some (SizeCell q)) \<and> Q (put a (SizeCell p) m)"
  by (auto simp: wp_def store_size_def c_load_def split: option.splits core_obj.splits)

definition readable_str :: "core_mem \<Rightarrow> addr \<Rightarrow> bool" where
  "readable_str m a \<longleftrightarrow> (\<exists>s. objs m a = Some (Str s))"

lemma acquired_readable: "acquired bs {} m m' \<Longrightarrow> readable_str m a \<Longrightarrow> readable_str m' a"
  by (auto simp: readable_str_def dest: acquired_old)

lemma wp_strdup:
  assumes "wf_mem m" "readable_str m a" "\<And>d s m'. grow d (Str s) m m' \<Longrightarrow> P (d, m')"
  shows "wp (c_strdup a m) P"
proof -
  from assms(2) obtain s where s: "objs m a = Some (Str s)" by (auto simp: readable_str_def)
  have "case c_malloc (Str s) m of (d, m') \<Rightarrow> P (d, m')"
    using assms(1,3) by (intro wp_malloc) auto
  then show ?thesis using s by (auto simp: c_strdup_def wp_simps)
qed

lemma wp_opt_strdup:
  assumes "wf_mem m" "a \<noteq> NULL \<Longrightarrow> readable_str m a"
    "\<And>d s m'. (a = NULL \<Longrightarrow> d = NULL) \<Longrightarrow> grow d (Str s) m m' \<Longrightarrow> P (d, m')"
  shows "wp (opt_strdup a m) P"
proof (cases "a = NULL")
  case True
  then show ?thesis using assms by (auto simp: opt_strdup_def grow_def wp_simps)
next
  case False
  then show ?thesis using assms by (auto simp: opt_strdup_def intro!: wp_strdup)
qed

section \<open>Handles\<close>

text \<open>
  A handle is the address of a context, a table or a transaction that the library returned. Its
  blocks are the allocations that belong to it, and a good handle is one in the state in which the
  library hands it out.
\<close>

fun obj_blocks :: "addr \<Rightarrow> core_obj \<Rightarrow> addr list" where
  "obj_blocks h (ContextObj cx) =
     [shared_memory cx, log_directory (config cx), data_directory (config cx), h]"
| "obj_blocks h (TableObj tb) = [tab_name tb, h]"
| "obj_blocks h (TxnObj tx) = [h]"
| "obj_blocks h _ = []"

fun good_context :: "core_obj \<Rightarrow> bool" where
  "good_context (ContextObj cx) = initialized cx"
| "good_context _ = False"

fun good_table :: "core_obj \<Rightarrow> bool" where
  "good_table (TableObj tb) = is_open tb"
| "good_table _ = False"

fun good_txn :: "core_obj \<Rightarrow> bool" where
  "good_txn (TxnObj tx) = is_active tx"
| "good_txn _ = False"

text \<open>
  The outcome of a call that opens a handle: the allocation failed and the heap is as before, or
  the cell holds a new handle that satisfies \<open>P\<close> and whose blocks are all that was allocated.
\<close>

definition handle_post ::
  "core_codes \<Rightarrow> addr \<Rightarrow> (core_obj \<Rightarrow> bool) \<Rightarrow> core_mem \<Rightarrow> EpiphanyDBError \<times> core_mem \<Rightarrow> bool" where
  "handle_post ec cell P m = (\<lambda>(r, m'). wf_mem m' \<and>
     (r = OUT_OF_MEMORY ec \<and> same_heap m m' \<or>
      r = EPIPHANYDB_SUCCESS \<and> (\<exists>h v. h \<noteq> NULL \<and> objs m' cell = Some (PtrCell h) \<and>
        objs m' h = Some v \<and> P v \<and> acquired (obj_blocks h v) {cell} m m')))"

lemma wp_handle:
  assumes "objs m' h = Some v" "acquired (obj_blocks h v) {} m m'" "h \<noteq> NULL" "P v" "h \<in> set (obj_blocks h v)"
    and out: "objs m cell = Some (PtrCell p)"
  shows "wp (store_ptr cell h m' \<bind> (\<lambda>m. Some (EPIPHANYDB_SUCCESS, m))) (handle_post ec cell P m)"
proof -
  have "objs m' cell = Some (PtrCell p)" using assms acquired_old by fastforce
  moreover have "cell \<noteq> h" using acquired_fresh [OF assms(2), of h] assms by auto
  ultimately show ?thesis using assms acquired_put_cell [OF assms(2), of cell]
    by (auto simp: wp_simps handle_post_def intro: acquired_wf)
qed

lemma wp_oom: "acquired [] {} m m' \<Longrightarrow> wp (Some (OUT_OF_MEMORY ec, m')) (handle_post ec cell P m)"
  by (simp add: handle_post_def wp_simps acquired_Nil acquired_wf)

section \<open>Opening handles\<close>

lemma wp_dup_str:
  assumes "acquired bs {} m0 m" "readable_str m0 a" "\<And>d m'. acquired (d # bs) {} m0 m' \<Longrightarrow> wp (g d m') Q"
  shows "wp (c_strdup a m \<bind> (\<lambda>(d, m'). g d m')) Q"
  unfolding wp_bind by (rule wp_strdup) (use assms in \<open>auto intro: acquired_wf acquired_readable acquired_grow\<close>)

lemma wp_dup:
  assumes "acquired bs {} m0 m" "a \<noteq> NULL \<Longrightarrow> readable_str m0 a"
    "\<And>d m'. acquired (d # bs) {} m0 m' \<Longrightarrow> (a = NULL \<Longrightarrow> d = NULL) \<Longrightarrow> wp (g d m') Q"
  shows "wp (opt_strdup a m \<bind> (\<lambda>(d, m'). g d m')) Q"
  unfolding wp_bind by (rule wp_opt_strdup) (use assms in \<open>auto intro: acquired_wf acquired_readable acquired_grow\<close>)

lemma wp_load_config_old:
  assumes "acquired bs {} m0 m" "objs m0 a = Some (ConfigObj c)" "wp (g c) Q"
  shows "wp (load_config a m \<bind> g) Q"
  using acquired_old [OF assms(1,2)] assms(3) by (simp add: wp_simps)

lemma init_shared_memory_spec:
  assumes acq: "acquired [log_directory conf, data_directory conf, c] {} m m1" and c: "c \<noteq> NULL"
    and out: "objs m cell = Some (PtrCell p)"
  shows "wp (init_shared_memory ec cell c conf m1) (handle_post ec cell good_context m)"
proof (cases "0 < cfg_shared_memory_size conf")
  case True
  show ?thesis unfolding init_shared_memory_def Let_def
    apply (simp only: True if_True simp_thms)
    apply (rule wp_alloc [OF acq])
    subgoal for d m2
      apply (rule wp_put, assumption, simp add: c)
      apply (cases "d = NULL")
       apply (simp only: if_True acquired_NULL simp_thms)
       apply ((rule wp_release, assumption)+, erule wp_oom)
      apply (simp only: if_False simp_thms)
      apply (rule wp_put, assumption, simp add: c)
      apply (rule wp_put, assumption, simp add: c)
      apply (erule wp_handle [OF _ _ c _ _ out], simp_all add: zero_context_def)
      done
    done
next
  case False
  show ?thesis unfolding init_shared_memory_def Let_def
    apply (simp only: False if_False simp_thms prod.case Option.bind.simps)
    apply (rule wp_put [OF acq], simp add: c)
    apply (rule wp_put, assumption, simp add: c)
    apply (erule wp_handle [OF _ _ c _ _ out], simp_all add: zero_context_def)
    done
qed

lemma init_log_directory_spec:
  assumes acq: "acquired [data_directory conf, c] {} m m1" and c: "c \<noteq> NULL"
    and ld: "log_directory conf \<noteq> NULL \<Longrightarrow> readable_str m (log_directory conf)"
    and out: "objs m cell = Some (PtrCell p)"
  shows "wp (init_log_directory ec cell c conf m1) (handle_post ec cell good_context m)"
  unfolding init_log_directory_def
  apply (rule wp_dup [OF acq ld], assumption)
  apply (rule wp_put, assumption, simp add: c)
  apply (simp only: wp_if split: if_split)
  apply (intro conjI impI)
   apply (simp only: acquired_NULL)
   apply ((rule wp_release, assumption)+, erule wp_oom)
  apply (rule init_shared_memory_spec [OF _ c out])
  apply simp
  done

definition readable_config :: "core_mem \<Rightarrow> addr \<Rightarrow> bool" where
  "readable_config m a \<longleftrightarrow> (\<exists>conf. objs m a = Some (ConfigObj conf) \<and>
     (data_directory conf \<noteq> NULL \<longrightarrow> readable_str m (data_directory conf)) \<and>
     (log_directory conf \<noteq> NULL \<longrightarrow> readable_str m (log_directory conf)))"

lemma init_spec:
  assumes wf: "wf_mem m" and rc: "readable_config m cfg" and out: "objs m cell = Some (PtrCell p)"
  shows "wp (epiphanydb_init ec cell cfg m) (handle_post ec cell good_context m)"
proof -
  from rc obtain conf where cfg: "objs m cfg = Some (ConfigObj conf)"
    and dd: "data_directory conf \<noteq> NULL \<Longrightarrow> readable_str m (data_directory conf)"
    and ld: "log_directory conf \<noteq> NULL \<Longrightarrow> readable_str m (log_directory conf)"
    by (auto simp: readable_config_def)
  have ne: "cell \<noteq> NULL" "cfg \<noteq> NULL" using out cfg wf_objs_lt [OF wf] by blast+
  show ?thesis
    unfolding epiphanydb_init_def Let_def
    apply (simp only: ne if_False simp_thms)
    apply (rule wp_alloc [OF acquired_refl [OF wf]])
    subgoal for c m1
      apply (cases "c = NULL")
       apply (simp only: if_True acquired_NULL simp_thms)
       apply (erule wp_oom)
      apply (simp only: if_False simp_thms)
      apply (rule wp_put, assumption, simp)
      apply (rule wp_load_config_old [OF _ cfg], assumption)
      apply (rule wp_put, assumption, simp)
      apply (rule wp_dup [OF _ dd], assumption, assumption)
      apply (rule wp_put, assumption, simp)
      apply (simp only: wp_if split: if_split)
      apply (intro conjI impI)
       apply (simp only: acquired_NULL)
       apply (rule wp_release, assumption, erule wp_oom)
      apply (rule init_log_directory_spec [OF _ _ _ out])
        apply (simp_all add: ld)
      done
    done
qed

lemma create_table_spec:
  assumes wf: "wf_mem m" and cx: "objs m ctx = Some v" "good_context v"
    and name: "readable_str m name" and schema: "schema \<noteq> NULL"
    and st: "epiphanydb_storage_engine_available st" and out: "objs m cell = Some (PtrCell p)"
  shows "wp (epiphanydb_create_table ec ctx name st schema cell m)
    (handle_post ec cell (\<lambda>v. good_table v \<and> (\<exists>tb. v = TableObj tb \<and> storage_type tb = st \<and> tab_context tb = ctx)) m)"
proof -
  obtain cx where cx': "v = ContextObj cx" "initialized cx" using cx(2) by (cases v) auto
  have ne: "ctx \<noteq> NULL" "name \<noteq> NULL" "cell \<noteq> NULL"
    using cx out name wf_objs_lt [OF wf] by (auto simp: readable_str_def)
  show ?thesis
    unfolding epiphanydb_create_table_def Let_def
    apply (simp only: ne schema st cx cx' load_context_def c_load_def option.case core_obj.case
        Option.bind.simps simp_thms if_False if_True)
    apply (rule wp_alloc [OF acquired_refl [OF wf]])
    subgoal for t m1
      apply (cases "t = NULL")
       apply (simp only: if_True acquired_NULL simp_thms)
       apply (erule wp_oom)
      apply (simp only: if_False simp_thms)
      apply (rule wp_put, assumption, simp)
      apply (rule wp_dup_str [OF _ name], assumption)
      apply (rule wp_put, assumption, simp)
      apply (simp only: wp_if split: if_split)
      apply (intro conjI impI)
       apply (simp only: acquired_NULL)
       apply (rule wp_release, assumption, erule wp_oom)
      apply (rule wp_put, assumption, simp)
      apply (erule wp_handle [OF _ _ _ _ _ out], simp_all)
      done
    done
qed

lemma begin_transaction_spec:
  assumes wf: "wf_mem m" and cx: "objs m ctx = Some v" "good_context v"
    and out: "objs m cell = Some (PtrCell p)"
  shows "wp (epiphanydb_begin_transaction ec ctx cell m) (handle_post ec cell good_txn m)"
proof -
  obtain cx where cx': "v = ContextObj cx" "initialized cx" using cx(2) by (cases v) auto
  have ne: "ctx \<noteq> NULL" "cell \<noteq> NULL" using cx out wf_objs_lt [OF wf] by auto
  show ?thesis
    unfolding epiphanydb_begin_transaction_def Let_def
    apply (simp only: ne cx cx' load_context_def c_load_def option.case core_obj.case
        Option.bind.simps simp_thms if_False if_True)
    apply (rule wp_alloc [OF acquired_refl [OF wf]])
    subgoal for t m1
      apply (cases "t = NULL")
       apply (simp only: if_True acquired_NULL simp_thms)
       apply (erule wp_oom)
      apply (simp only: if_False simp_thms)
      apply (rule wp_put, assumption, simp)
      apply (rule wp_put, assumption, simp)
      apply (erule wp_handle [OF _ _ _ _ _ out], simp_all)
      done
    done
qed

section \<open>Closing handles\<close>

lemma acquired_self: "owned bs m \<Longrightarrow> acquired [] {} m m"
  by (simp add: owned_def acquired_refl)

lemma cleanup_spec:
  assumes own: "owned (obj_blocks c v) m" and v: "objs m c = Some v" "good_context v"
  shows "wp (epiphanydb_cleanup c m) (\<lambda>m'. acquired (obj_blocks c v) {} m' m)"
proof -
  obtain cx where cx: "v = ContextObj cx" using v(2) by (cases v) auto
  have c: "c \<noteq> NULL" using v own wf_objs_lt [of m c] by (auto simp: owned_def)
  let ?shm = "shared_memory cx" and ?dd = "data_directory (config cx)" and ?ld = "log_directory (config cx)"
  from own have o: "owned [?shm] m" "owned [?dd] m" "owned [?ld] m" "owned [c] m" and
    d: "?dd \<notin> set (nonnull [?shm])" "?ld \<notin> set (nonnull [?dd, ?shm])" "c \<notin> set (nonnull [?ld, ?dd, ?shm])"
    using c cx by (auto simp: owned_def split: if_splits)
  have fin: "acquired (obj_blocks c v) {} (del c m1) m" if "acquired [?ld, ?dd, ?shm] {} m1 m" for m1
    using acquired_shrink [OF that, of c "[]"] o d c cx
    by (subst acquired_cong [where bs' = "[c, ?ld, ?dd, ?shm]"]) (auto simp: owned_def)
  show ?thesis
    unfolding epiphanydb_cleanup_def guarded_free
    apply (simp only: c if_False load_context_def c_load_def v(1) cx option.case core_obj.case Option.bind.simps)
    apply (rule wp_unwind [OF o(1) acquired_self [OF own]], simp)
    apply (rule wp_unwind [OF o(2) _ d(1)], assumption)
    apply (rule wp_unwind [OF o(3) _ d(2)], assumption)
    subgoal premises prems for m1 m2 m3
      using owned_alive [OF o(4) prems(3) d(3)] fin [OF prems(3)] c by (simp add: wp_simps cx)
    done
qed

lemma close_table_spec:
  assumes own: "owned (obj_blocks t v) m" and v: "objs m t = Some v" "good_table v"
  shows "wp (epiphanydb_close_table t m) (\<lambda>m'. acquired (obj_blocks t v) {} m' m)"
proof -
  obtain tb where tb: "v = TableObj tb" using v(2) by (cases v) auto
  have t: "t \<noteq> NULL" using v own wf_objs_lt [of m t] by (auto simp: owned_def)
  from own have o: "owned [tab_name tb] m" "owned [t] m" and d: "t \<notin> set (nonnull [tab_name tb])"
    using t tb by (auto simp: owned_def split: if_splits)
  have fin: "acquired (obj_blocks t v) {} (del t m1) m" if "acquired [tab_name tb] {} m1 m" for m1
    using acquired_shrink [OF that, of t "[]"] o d t tb
    by (subst acquired_cong [where bs' = "[t, tab_name tb]"]) (auto simp: owned_def)
  show ?thesis
    unfolding epiphanydb_close_table_def guarded_free
    apply (simp only: t if_False load_table_def c_load_def v(1) tb option.case core_obj.case Option.bind.simps)
    apply (rule wp_unwind [OF o(1) acquired_self [OF own]], simp)
    subgoal premises prems for m1
      using owned_alive [OF o(2) prems d] fin [OF prems] t by (simp add: wp_simps tb)
    done
qed

lemma rollback_is_commit: "epiphanydb_rollback_transaction = epiphanydb_commit_transaction"
  by (rule ext)+ (simp add: epiphanydb_rollback_transaction_def epiphanydb_commit_transaction_def)

lemma commit_spec:
  assumes own: "owned (obj_blocks t v) m" and v: "objs m t = Some v" "good_txn v"
  shows "wp (epiphanydb_commit_transaction t m)
    (\<lambda>(r, m'). r = EPIPHANYDB_SUCCESS \<and> acquired (obj_blocks t v) {} m' m)"
proof -
  obtain tx where tx: "v = TxnObj tx" "is_active tx" using v(2) by (cases v) auto
  have t: "t \<noteq> NULL" using v own wf_objs_lt [of m t] by (auto simp: owned_def)
  have "acquired [t] {} (del t m) m"
    using acquired_shrink [OF acquired_self [OF own], of t "[]"] own t tx by (auto simp: owned_def)
  then show ?thesis using own tx t v
    by (simp add: epiphanydb_commit_transaction_def wp_simps owned_def)
qed

end
