(* ===== verification/EpiClient.thy ===== *)
theory EpiClient
  imports EpiCore
begin

text \<open>
  A client of the core library as a state machine. Its state is the C memory and the handles it
  holds; a step is one call of the API, or a write to an object of its own. \<open>allowed\<close> is the
  discipline the header expects: handles that were returned and not yet given back, out-parameters
  that are cells of the client, strings that can be read. The invariant says that the allocated
  blocks are exactly the blocks of the handles.
\<close>

section \<open>Calls\<close>

datatype call =
    CInit addr addr
  | CCleanup addr
  | CCreateTable addr addr EpiphanyDBStorageType addr addr
  | COpenTable addr addr addr
  | CCloseTable addr
  | CDropTable addr addr
  | CBegin addr addr
  | CCommit addr
  | CRollback addr
  | CInsert addr addr addr uint64
  | CUpdate addr addr addr uint64 addr uint64
  | CDelete addr addr addr uint64
  | CSelect addr addr addr uint64 addr addr
  | CCreateIndex addr addr addr uint32 addr
  | CDropIndex addr
  | CStats addr addr addr
  | CVacuum addr
  | CAnalyze addr
  | CWrite addr core_obj

record client =
  cm :: core_mem
  handles :: "addr list"

definition out_ptr :: "core_mem \<Rightarrow> addr \<Rightarrow> addr" where
  "out_ptr m cell = (case objs m cell of Some (PtrCell p) \<Rightarrow> p | _ \<Rightarrow> NULL)"

definition opened :: "client \<Rightarrow> addr \<Rightarrow> EpiphanyDBError \<times> core_mem \<Rightarrow> client" where
  "opened s cell = (\<lambda>(r, m'). \<lparr>cm = m',
     handles = (if r = EPIPHANYDB_SUCCESS then out_ptr m' cell # handles s else handles s)\<rparr>)"

definition closed :: "client \<Rightarrow> addr \<Rightarrow> core_mem \<Rightarrow> client" where
  "closed s h m' = \<lparr>cm = m', handles = remove1 h (handles s)\<rparr>"

definition same_handles :: "client \<Rightarrow> EpiphanyDBError \<times> core_mem \<Rightarrow> client" where
  "same_handles s = (\<lambda>(r, m'). \<lparr>cm = m', handles = handles s\<rparr>)"

fun client_step :: "core_codes \<Rightarrow> addr \<Rightarrow> call \<Rightarrow> client \<Rightarrow> client option" where
  "client_step ec lit (CInit cell cfg) s = map_option (opened s cell) (epiphanydb_init ec cell cfg (cm s))"
| "client_step ec lit (CCleanup c) s = map_option (closed s c) (epiphanydb_cleanup c (cm s))"
| "client_step ec lit (CCreateTable c name st schema cell) s =
     map_option (opened s cell) (epiphanydb_create_table ec c name st schema cell (cm s))"
| "client_step ec lit (COpenTable c name cell) s =
     map_option (opened s cell) (epiphanydb_open_table ec lit c name cell (cm s))"
| "client_step ec lit (CCloseTable t) s = map_option (closed s t) (epiphanydb_close_table t (cm s))"
| "client_step ec lit (CDropTable c name) s = map_option (same_handles s) (epiphanydb_drop_table c name (cm s))"
| "client_step ec lit (CBegin c cell) s =
     map_option (opened s cell) (epiphanydb_begin_transaction ec c cell (cm s))"
| "client_step ec lit (CCommit t) s =
     map_option (\<lambda>(r, m'). closed s t m') (epiphanydb_commit_transaction t (cm s))"
| "client_step ec lit (CRollback t) s =
     map_option (\<lambda>(r, m'). closed s t m') (epiphanydb_rollback_transaction t (cm s))"
| "client_step ec lit (CInsert t x d n) s = map_option (same_handles s) (epiphanydb_insert t x d n (cm s))"
| "client_step ec lit (CUpdate t x k kn d n) s = map_option (same_handles s) (epiphanydb_update t x k kn d n (cm s))"
| "client_step ec lit (CDelete t x k kn) s = map_option (same_handles s) (epiphanydb_delete t x k kn (cm s))"
| "client_step ec lit (CSelect t x k kn d n) s = map_option (same_handles s) (epiphanydb_select t x k kn d n (cm s))"
| "client_step ec lit (CCreateIndex t name cols k ix) s =
     map_option (same_handles s) (epiphanydb_create_index t name cols k ix (cm s))"
| "client_step ec lit (CDropIndex ix) s = map_option (same_handles s) (epiphanydb_drop_index ix (cm s))"
| "client_step ec lit (CStats t a b) s = map_option (same_handles s) (epiphanydb_get_table_stats t a b (cm s))"
| "client_step ec lit (CVacuum t) s = map_option (same_handles s) (epiphanydb_vacuum_table t (cm s))"
| "client_step ec lit (CAnalyze t) s = map_option (same_handles s) (epiphanydb_analyze_table t (cm s))"
| "client_step ec lit (CWrite a v) s = map_option (\<lambda>m'. s\<lparr>cm := m'\<rparr>) (c_store a v (cm s))"

section \<open>Discipline\<close>

definition ptr_cell :: "core_mem \<Rightarrow> addr \<Rightarrow> bool" where
  "ptr_cell m a \<longleftrightarrow> (\<exists>p. objs m a = Some (PtrCell p)) \<and> \<not> dyn m a"

definition size_cell :: "core_mem \<Rightarrow> addr \<Rightarrow> bool" where
  "size_cell m a \<longleftrightarrow> (\<exists>n. objs m a = Some (SizeCell n)) \<and> \<not> dyn m a"

definition holds :: "(core_obj \<Rightarrow> bool) \<Rightarrow> client \<Rightarrow> addr \<Rightarrow> bool" where
  "holds P s h \<longleftrightarrow> h \<in> set (handles s) \<and> (\<exists>v. objs (cm s) h = Some v \<and> P v)"

fun allowed :: "addr \<Rightarrow> call \<Rightarrow> client \<Rightarrow> bool" where
  "allowed lit (CInit cell cfg) s = (ptr_cell (cm s) cell \<and> readable_config (cm s) cfg)"
| "allowed lit (CCleanup c) s = holds good_context s c"
| "allowed lit (CCreateTable c name st schema cell) s =
     (holds good_context s c \<and> readable_str (cm s) name \<and> schema \<noteq> NULL \<and>
      epiphanydb_storage_engine_available st \<and> ptr_cell (cm s) cell)"
| "allowed lit (COpenTable c name cell) s =
     (holds good_context s c \<and> readable_str (cm s) name \<and> lit \<noteq> NULL \<and> ptr_cell (cm s) cell)"
| "allowed lit (CCloseTable t) s = holds good_table s t"
| "allowed lit (CDropTable c name) s = holds good_context s c"
| "allowed lit (CBegin c cell) s = (holds good_context s c \<and> ptr_cell (cm s) cell)"
| "allowed lit (CCommit t) s = holds good_txn s t"
| "allowed lit (CRollback t) s = holds good_txn s t"
| "allowed lit (CSelect t x k kn d n) s = ((d = NULL \<or> ptr_cell (cm s) d) \<and> (n = NULL \<or> size_cell (cm s) n))"
| "allowed lit (CCreateIndex t name cols k ix) s = (ix = NULL \<or> ptr_cell (cm s) ix)"
| "allowed lit (CStats t a b) s = ((a = NULL \<or> size_cell (cm s) a) \<and> (b = NULL \<or> size_cell (cm s) b))"
| "allowed lit (CWrite a v) s = (objs (cm s) a \<noteq> None \<and> \<not> dyn (cm s) a)"
| "allowed lit _ s = True"

section \<open>Reachable states\<close>

definition start :: "client \<Rightarrow> bool" where
  "start s \<longleftrightarrow> wf_mem (cm s) \<and> (\<forall>a. \<not> dyn (cm s) a) \<and> handles s = []"

inductive reachable :: "core_codes \<Rightarrow> addr \<Rightarrow> client \<Rightarrow> bool" for ec lit where
  init: "start s \<Longrightarrow> reachable ec lit s"
| step: "reachable ec lit s \<Longrightarrow> allowed lit c s \<Longrightarrow> client_step ec lit c s = Some s' \<Longrightarrow> reachable ec lit s'"

section \<open>Invariant\<close>

definition good_handle :: "core_obj \<Rightarrow> bool" where
  "good_handle v \<longleftrightarrow> good_context v \<or> good_table v \<or> good_txn v"

definition blocks_at :: "core_mem \<Rightarrow> addr \<Rightarrow> addr list" where
  "blocks_at m h = (case objs m h of Some v \<Rightarrow> nonnull (obj_blocks h v) | None \<Rightarrow> [])"

definition all_blocks :: "client \<Rightarrow> addr list" where
  "all_blocks s = concat (map (blocks_at (cm s)) (handles s))"

definition client_inv :: "client \<Rightarrow> bool" where
  "client_inv s \<longleftrightarrow> wf_mem (cm s) \<and> (\<forall>h \<in> set (handles s). \<exists>v. objs (cm s) h = Some v \<and> good_handle v) \<and>
     distinct (all_blocks s) \<and> (\<forall>a. dyn (cm s) a \<longleftrightarrow> a \<in> set (all_blocks s))"

lemma inv_wf: "client_inv s \<Longrightarrow> wf_mem (cm s)"
  by (simp add: client_inv_def)

lemma start_inv: "start s \<Longrightarrow> client_inv s"
  by (simp add: start_def client_inv_def all_blocks_def)

lemma self_block: "good_handle v \<Longrightarrow> h \<noteq> NULL \<Longrightarrow> h \<in> set (nonnull (obj_blocks h v))"
  by (cases v) (auto simp: good_handle_def)

lemma blocks_at_Some: "objs m h = Some v \<Longrightarrow> blocks_at m h = nonnull (obj_blocks h v)"
  by (simp add: blocks_at_def)

lemma inv_self_block:
  assumes "client_inv s" "h \<in> set (handles s)"
  shows "h \<in> set (blocks_at (cm s) h)"
proof -
  from assms obtain v where v: "objs (cm s) h = Some v" "good_handle v" by (auto simp: client_inv_def)
  moreover have "h \<noteq> NULL" using v assms(1) wf_objs_lt [of "cm s" h v] by (simp add: client_inv_def)
  ultimately show ?thesis using self_block [of v h] by (simp add: blocks_at_Some)
qed

lemma inv_handle_dyn:
  assumes "client_inv s" "h \<in> set (handles s)"
  shows "dyn (cm s) h"
  using inv_self_block [OF assms] assms by (auto simp: client_inv_def all_blocks_def)

text \<open>A step that changes objects that are not allocated only.\<close>

lemma inv_frame:
  assumes inv: "client_inv s" and "wf_mem m'" "dyn m' = dyn (cm s)"
    and same: "\<And>a. dyn (cm s) a \<Longrightarrow> objs m' a = objs (cm s) a"
  shows "client_inv \<lparr>cm = m', handles = handles s\<rparr>"
proof -
  have *: "objs m' h = objs (cm s) h" if "h \<in> set (handles s)" for h
    using same inv_handle_dyn [OF inv that] by simp
  then have "map (blocks_at m') (handles s) = map (blocks_at (cm s)) (handles s)"
    by (simp add: blocks_at_def)
  then have "all_blocks \<lparr>cm = m', handles = handles s\<rparr> = all_blocks s"
    by (simp only: all_blocks_def client.select_convs)
  then show ?thesis using assms * by (simp add: client_inv_def)
qed

lemma inv_opened:
  assumes inv: "client_inv s" and acq: "acquired (obj_blocks h v) {cell} (cm s) m'"
    and h: "objs m' h = Some v" "good_handle v" and cell: "\<not> dyn (cm s) cell"
  shows "client_inv \<lparr>cm = m', handles = h # handles s\<rparr>"
proof -
  have old: "objs m' x = objs (cm s) x" if "x \<in> set (handles s)" for x
  proof (rule acquired_other [OF acq])
    show "x \<notin> set (nonnull (obj_blocks h v))" "x \<notin> {cell}"
      using inv_handle_dyn [OF inv that] cell acquired_fresh(2) [OF acq, of x] by blast+
  qed
  then have map: "map (blocks_at m') (handles s) = map (blocks_at (cm s)) (handles s)"
    by (simp add: blocks_at_def)
  have "set (nonnull (obj_blocks h v)) \<inter> set (all_blocks s) = {}"
    using acquired_fresh(2) [OF acq] inv by (auto simp: client_inv_def)
  moreover have "distinct (nonnull (obj_blocks h v))" "wf_mem m'"
    "\<forall>a. dyn m' a \<longleftrightarrow> dyn (cm s) a \<or> a \<in> set (nonnull (obj_blocks h v))"
    using acq by (simp_all add: acquired_def)
  moreover have "all_blocks \<lparr>cm = m', handles = h # handles s\<rparr> = nonnull (obj_blocks h v) @ all_blocks s"
    using map h by (simp only: all_blocks_def client.select_convs list.map concat.simps blocks_at_Some)
  ultimately show ?thesis using inv h old by (auto simp: client_inv_def)
qed

lemma inv_owned:
  assumes "client_inv s" "h \<in> set (handles s)" "objs (cm s) h = Some v"
  shows "owned (obj_blocks h v) (cm s)"
proof -
  have "nonnull (obj_blocks h v) \<in> set (map (blocks_at (cm s)) (handles s))"
    using assms by (force simp: blocks_at_def)
  then show ?thesis using assms by (auto simp: owned_def client_inv_def all_blocks_def distinct_concat_iff)
qed

lemma inv_closed:
  assumes inv: "client_inv s" and h: "h \<in> set (handles s)" "objs (cm s) h = Some v"
    and acq: "acquired (obj_blocks h v) {} m' (cm s)"
  shows "client_inv (closed s h m')"
proof -
  obtain l1 l2 where l: "handles s = l1 @ h # l2" "h \<notin> set l1" using h(1) by (meson split_list_first)
  let ?bs = "nonnull (obj_blocks h v)" and ?B = "concat (map (blocks_at (cm s)) (l1 @ l2))"
  have d: "distinct (?bs @ ?B)" "\<forall>a. dyn (cm s) a \<longleftrightarrow> a \<in> set ?bs \<or> a \<in> set ?B"
    using inv l h by (auto simp: client_inv_def all_blocks_def blocks_at_Some)
  have new: "\<forall>a. dyn (cm s) a \<longleftrightarrow> dyn m' a \<or> a \<in> set ?bs" "\<forall>a. a \<notin> set ?bs \<longrightarrow> objs (cm s) a = objs m' a" "wf_mem m'"
    using acq by (simp_all only: acquired_def) auto
  have old: "objs m' x = objs (cm s) x" if "x \<in> set (l1 @ l2)" for x
  proof -
    have "x \<in> set ?B" using inv_self_block [OF inv, of x] that l by auto
    then have "x \<notin> set ?bs" using d(1) by auto
    then show ?thesis using new(2) by simp
  qed
  then have "concat (map (blocks_at m') (l1 @ l2)) = ?B"
    by (intro arg_cong [where f = concat] map_cong refl) (simp add: blocks_at_def)
  moreover have "dyn m' a \<longleftrightarrow> a \<in> set ?B" for a
    using new(1) d acquired_fresh(2) [OF acq, of a] by (metis disjoint_iff distinct_append)
  moreover have "remove1 h (handles s) = l1 @ l2" using l by (simp add: remove1_append)
  ultimately show ?thesis using inv old new(3) d(1) l
    by (simp add: client_inv_def closed_def all_blocks_def)
qed


section \<open>Every disciplined call is defined and keeps the invariant\<close>

lemma wp_map_option: "wp (map_option f x) Q \<longleftrightarrow> wp x (\<lambda>y. Q (f y))"
  by (auto simp: wp_def)

lemma wp_mono: "wp f P \<Longrightarrow> (\<And>x. P x \<Longrightarrow> Q x) \<Longrightarrow> wp f Q"
  by (auto simp: wp_def)

lemma opened_inv:
  assumes inv: "client_inv s" and cell: "ptr_cell (cm s) cell" and oom: "OUT_OF_MEMORY ec \<noteq> EPIPHANYDB_SUCCESS"
    and good: "\<And>v. P v \<Longrightarrow> good_handle v" and post: "handle_post ec cell P (cm s) x"
  shows "client_inv (opened s cell x)"
proof -
  obtain r m' where x: "x = (r, m')" by (cases x)
  consider "r = OUT_OF_MEMORY ec" "same_heap (cm s) m'" "wf_mem m'"
    | h v where "r = EPIPHANYDB_SUCCESS" "h \<noteq> NULL" "objs m' cell = Some (PtrCell h)" "objs m' h = Some v"
      "P v" "acquired (obj_blocks h v) {cell} (cm s) m'"
    using post by (auto simp: handle_post_def x)
  then show ?thesis
  proof cases
    case 1
    then show ?thesis using inv oom inv_frame [OF inv, of m'] by (simp add: x opened_def same_heap_def)
  next
    case 2
    then show ?thesis
      using inv_opened [OF inv 2(6,4) good [OF 2(5)]] cell by (simp add: x opened_def out_ptr_def ptr_cell_def)
  qed
qed

lemma closed_inv:
  assumes "client_inv s" "holds P s h"
    "\<And>v. owned (obj_blocks h v) (cm s) \<Longrightarrow> objs (cm s) h = Some v \<Longrightarrow> P v \<Longrightarrow>
       wp f (\<lambda>m'. acquired (obj_blocks h v) {} m' (cm s))"
  shows "wp f (\<lambda>m'. client_inv (closed s h m'))"
proof -
  obtain v where v: "h \<in> set (handles s)" "objs (cm s) h = Some v" "P v" using assms(2) by (auto simp: holds_def)
  show ?thesis
    using assms(3) [OF inv_owned [OF assms(1) v(1,2)] v(2,3)]
    by (rule wp_mono) (rule inv_closed [OF assms(1) v(1,2)])
qed

text \<open>The calls that open and close nothing change cells of the client only.\<close>

definition frame_post :: "core_mem \<Rightarrow> EpiphanyDBError \<times> core_mem \<Rightarrow> bool" where
  "frame_post m = (\<lambda>(r, m'). wf_mem m' \<and> dyn m' = dyn m \<and> (\<forall>a. dyn m a \<longrightarrow> objs m' a = objs m a))"

lemma frame_refl: "wf_mem m \<Longrightarrow> frame_post m (r, m)"
  by (simp add: frame_post_def)

lemma frame_put:
  "frame_post m (r, m') \<Longrightarrow> \<not> dyn m a \<Longrightarrow> objs m' a \<noteq> None \<Longrightarrow> frame_post m (r, put a v m')"
  by (auto simp: frame_post_def wf_put)

lemma frame_inv:
  assumes "client_inv s" "wp f (frame_post (cm s))"
  shows "wp f (\<lambda>x. client_inv (same_handles s x))"
  using assms(2) inv_frame [OF assms(1)]
  by (auto simp: frame_post_def same_handles_def elim!: wp_mono)

lemma drop_table_frame:
  "wf_mem m \<Longrightarrow> objs m c = Some v \<Longrightarrow> good_context v \<Longrightarrow> wp (epiphanydb_drop_table c name m) (frame_post m)"
  by (cases v) (auto simp: epiphanydb_drop_table_def wp_simps frame_refl)

lemma select_frame:
  "wf_mem m \<Longrightarrow> d = NULL \<or> ptr_cell m d \<Longrightarrow> n = NULL \<or> size_cell m n \<Longrightarrow>
   wp (epiphanydb_select t x k kn d n m) (frame_post m)"
  by (auto simp: epiphanydb_select_def wp_simps frame_refl ptr_cell_def size_cell_def intro!: frame_put)

lemma create_index_frame:
  "wf_mem m \<Longrightarrow> ix = NULL \<or> ptr_cell m ix \<Longrightarrow> wp (epiphanydb_create_index t name cols k ix m) (frame_post m)"
  by (auto simp: epiphanydb_create_index_def wp_simps frame_refl ptr_cell_def intro!: frame_put)

lemma stats_frame:
  "wf_mem m \<Longrightarrow> a = NULL \<or> size_cell m a \<Longrightarrow> b = NULL \<or> size_cell m b \<Longrightarrow>
   wp (epiphanydb_get_table_stats t a b m) (frame_post m)"
  by (auto simp: epiphanydb_get_table_stats_def wp_simps frame_refl size_cell_def intro!: frame_put)

lemma stub_frames:
  assumes "wf_mem m"
  shows "wp (epiphanydb_insert t x d n m) (frame_post m)" "wp (epiphanydb_update t x k kn d n m) (frame_post m)"
    "wp (epiphanydb_delete t x k kn m) (frame_post m)" "wp (epiphanydb_drop_index ix m) (frame_post m)"
    "wp (epiphanydb_vacuum_table t m) (frame_post m)" "wp (epiphanydb_analyze_table t m) (frame_post m)"
  using assms
  by (simp_all add: epiphanydb_insert_def epiphanydb_update_def epiphanydb_delete_def epiphanydb_drop_index_def
      epiphanydb_vacuum_table_def epiphanydb_analyze_table_def wp_simps frame_refl)

lemma open_table_is_create:
  assumes "wf_mem m" "objs m c = Some v" "good_context v" "readable_str m name" "objs m cell = Some (PtrCell p)"
  shows "epiphanydb_open_table ec lit c name cell m =
    epiphanydb_create_table ec c name EPIPHANYDB_STORAGE_HEAP lit cell m"
proof -
  have "c \<noteq> NULL" "name \<noteq> NULL" "cell \<noteq> NULL"
    using assms wf_objs_lt [OF assms(1)] by (auto simp: readable_str_def)
  moreover obtain cx where "v = ContextObj cx" "initialized cx" using assms(3) by (cases v) auto
  ultimately show ?thesis using assms(2)
    by (simp add: epiphanydb_open_table_def load_context_def c_load_def)
qed

lemma create_step_inv:
  assumes inv: "client_inv s" and oom: "OUT_OF_MEMORY ec \<noteq> EPIPHANYDB_SUCCESS"
    and ok: "allowed lit (CCreateTable h name st schema cell) s"
  shows "wp (client_step ec lit (CCreateTable h name st schema cell) s) client_inv"
proof -
  from ok obtain p v where *: "objs (cm s) cell = Some (PtrCell p)" "objs (cm s) h = Some v" "good_context v"
    by (auto simp: ptr_cell_def holds_def)
  have "wp (epiphanydb_create_table ec h name st schema cell (cm s))
    (handle_post ec cell (\<lambda>v. good_table v \<and> (\<exists>tb. v = TableObj tb \<and> storage_type tb = st \<and> tab_context tb = h)) (cm s))"
    using ok inv by (intro create_table_spec [OF _ *(2,3) _ _ _ *(1)]) (auto simp: client_inv_def)
  then show ?thesis unfolding client_step.simps wp_map_option
    by (rule wp_mono) (rule opened_inv [OF inv _ oom], use ok in \<open>auto simp: good_handle_def\<close>)
qed

lemma commit_step_inv:
  assumes inv: "client_inv s" and ok: "holds good_txn s t"
  shows "wp (epiphanydb_commit_transaction t (cm s)) (\<lambda>(r, m'). client_inv (closed s t m'))"
proof -
  have "wp (map_option snd (epiphanydb_commit_transaction t (cm s))) (\<lambda>m'. client_inv (closed s t m'))"
    by (rule closed_inv [OF inv ok], unfold wp_map_option)
      (rule wp_mono [OF commit_spec], auto)
  then show ?thesis by (simp add: wp_map_option case_prod_unfold)
qed

lemma client_step_inv:
  assumes inv: "client_inv s" and ok: "allowed lit c s" and oom: "OUT_OF_MEMORY ec \<noteq> EPIPHANYDB_SUCCESS"
  shows "wp (client_step ec lit c s) client_inv"
proof (cases c)
  note wf = inv_wf [OF inv] and fr = frame_inv [OF inv]
  {
    case (CInit cell cfg)
    with ok obtain p where "objs (cm s) cell = Some (PtrCell p)" by (auto simp: ptr_cell_def)
    with ok CInit wf have "wp (epiphanydb_init ec cell cfg (cm s)) (handle_post ec cell good_context (cm s))"
      by (intro init_spec) auto
    then show ?thesis using ok CInit opened_inv [OF inv _ oom]
      by (auto simp: wp_map_option good_handle_def elim!: wp_mono)
  next
    case (CCleanup h)
    then show ?thesis using ok by (auto simp: wp_map_option intro!: closed_inv [OF inv] cleanup_spec)
  next
    case (CCreateTable h name st schema cell)
    then show ?thesis using ok create_step_inv [OF inv oom] by simp
  next
    case (COpenTable h name cell)
    with ok obtain p v where *: "objs (cm s) cell = Some (PtrCell p)" "objs (cm s) h = Some v" "good_context v"
      "readable_str (cm s) name"
      by (auto simp: ptr_cell_def holds_def)
    then show ?thesis using ok COpenTable open_table_is_create [OF wf *(2,3,4,1), of ec lit]
      create_step_inv [OF inv oom, of lit h name EPIPHANYDB_STORAGE_HEAP lit cell]
      by (simp add: epiphanydb_storage_engine_available_def storage_type_defs)
  next
    case (CCloseTable h)
    then show ?thesis using ok by (auto simp: wp_map_option intro!: closed_inv [OF inv] close_table_spec)
  next
    case (CDropTable h name)
    then show ?thesis using ok by (auto simp: wp_map_option holds_def intro!: fr drop_table_frame [OF wf])
  next
    case (CBegin h cell)
    with ok obtain p v where *: "objs (cm s) cell = Some (PtrCell p)" "objs (cm s) h = Some v" "good_context v"
      by (auto simp: ptr_cell_def holds_def)
    show ?thesis using begin_transaction_spec [OF wf *(2,3,1), of ec] ok CBegin opened_inv [OF inv _ oom]
      by (auto simp: wp_map_option good_handle_def elim!: wp_mono)
  next
    case (CCommit h)
    then show ?thesis using ok commit_step_inv [OF inv, of h] by (simp add: wp_map_option case_prod_unfold)
  next
    case (CRollback h)
    then show ?thesis using ok commit_step_inv [OF inv, of h]
      by (simp add: wp_map_option case_prod_unfold rollback_is_commit)
  next
    case (CSelect t x k kn d n)
    then show ?thesis using ok by (simp add: wp_map_option fr select_frame [OF wf])
  next
    case (CCreateIndex t name cols k ix)
    then show ?thesis using ok by (simp add: wp_map_option fr create_index_frame [OF wf])
  next
    case (CStats t a b)
    then show ?thesis using ok by (simp add: wp_map_option fr stats_frame [OF wf])
  next
    case (CWrite a v)
    with ok have "client_inv \<lparr>cm = put a v (cm s), handles = handles s\<rparr>"
      by (intro inv_frame [OF inv]) (auto simp: wf wf_put)
    moreover have "s\<lparr>cm := put a v (cm s)\<rparr> = \<lparr>cm = put a v (cm s), handles = handles s\<rparr>" by (cases s) simp
    ultimately have "client_inv (s\<lparr>cm := put a v (cm s)\<rparr>)" by (simp only:)
    with ok CWrite show ?thesis by (simp add: wp_map_option wp_simps)
  }
qed (simp_all add: wp_map_option frame_inv [OF inv] stub_frames [OF inv_wf [OF inv]])


lemma reachable_inv:
  assumes "reachable ec lit s" "OUT_OF_MEMORY ec \<noteq> EPIPHANYDB_SUCCESS"
  shows "client_inv s"
  using assms(1)
proof (induction rule: reachable.induct)
  case (init s)
  then show ?case by (rule start_inv)
next
  case (step s c s')
  with client_step_inv [OF step.IH step.hyps(2) assms(2)] show ?case by (auto simp: wp_def)
qed

section \<open>Properties\<close>

text \<open>
  C1: in every state a disciplined client can reach, for every outcome of the allocator, every
  allowed call of the API is defined: no null or dangling access, no double free.
\<close>

theorem api_calls_defined:
  assumes "reachable ec lit s" "allowed lit c s" "OUT_OF_MEMORY ec \<noteq> EPIPHANYDB_SUCCESS"
  shows "\<exists>s'. client_step ec lit c s = Some s' \<and> reachable ec lit s'"
proof -
  from client_step_inv [OF reachable_inv [OF assms(1,3)] assms(2,3)]
  obtain s' where "client_step ec lit c s = Some s'" by (auto simp: wp_def)
  then show ?thesis using reachable.step [OF assms(1,2)] by blast
qed

text \<open>A client with one cell, a configuration with a data directory and shared memory, and its string.\<close>

definition demo_codes :: core_codes where
  "demo_codes = \<lparr>OUT_OF_MEMORY = EPIPHANYDB_ERROR_MEMORY, STORAGE_ENGINE = EPIPHANYDB_ERROR_STORAGE\<rparr>"

definition demo_mem :: core_mem where
  "demo_mem = \<lparr>objs = [1 \<mapsto> PtrCell 0, 2 \<mapsto> ConfigObj (zero_config\<lparr>data_directory := 3, cfg_shared_memory_size := 64\<rparr>), 3 \<mapsto> Str ''d''],
     dyn = (\<lambda>_. False), brk = 4, fails = (\<lambda>_. False), ncalls = 0\<rparr>"

definition demo_client :: client where
  "demo_client = \<lparr>cm = demo_mem, handles = []\<rparr>"

lemma demo_start: "start demo_client"
  by (auto simp: start_def demo_client_def demo_mem_def wf_mem_def)

lemma demo_allowed: "allowed 5 (CInit 1 2) demo_client"
  by (auto simp: demo_client_def demo_mem_def ptr_cell_def readable_config_def readable_str_def zero_config_def)

theorem api_calls_defined_witness:
  "reachable demo_codes 5 demo_client \<and> allowed 5 (CInit 1 2) demo_client \<and>
   (\<exists>s'. client_step demo_codes 5 (CInit 1 2) demo_client = Some s' \<and> reachable demo_codes 5 s')"
proof -
  have r: "reachable demo_codes 5 demo_client" by (rule reachable.init [OF demo_start])
  have o: "OUT_OF_MEMORY demo_codes \<noteq> EPIPHANYDB_SUCCESS" by (simp add: demo_codes_def error_code_defs)
  show ?thesis using r demo_allowed api_calls_defined [OF r demo_allowed o] by blast
qed

text \<open>
  C2: in every reachable state the allocated blocks are exactly the blocks of the handles the client
  holds, each owned once. So a client that gave all its handles back has leaked nothing.
\<close>

theorem api_no_leak:
  assumes "reachable ec lit s" "OUT_OF_MEMORY ec \<noteq> EPIPHANYDB_SUCCESS"
  shows "(\<forall>a. dyn (cm s) a \<longleftrightarrow> a \<in> set (all_blocks s)) \<and> distinct (all_blocks s) \<and>
    (handles s = [] \<longrightarrow> (\<forall>a. \<not> dyn (cm s) a))"
  using reachable_inv [OF assms] by (auto simp: client_inv_def all_blocks_def)

definition demo_open :: client where
  "demo_open = the (client_step demo_codes 5 (CInit 1 2) demo_client)"

lemma demo_step: "client_step demo_codes 5 (CInit 1 2) demo_client = Some demo_open"
  by (simp add: demo_open_def demo_client_def demo_mem_def demo_codes_def epiphanydb_init_def
      init_log_directory_def init_shared_memory_def c_malloc_def c_store_def opt_strdup_def c_strdup_def
      load_config_def load_str_def store_ptr_def c_load_def zero_config_def zero_context_def)

lemma demo_open_handles: "handles demo_open = [4]" "blocks_at (cm demo_open) 4 = [6, 5, 4]"
  by (simp_all add: demo_open_def demo_client_def demo_mem_def demo_codes_def epiphanydb_init_def
      init_log_directory_def init_shared_memory_def c_malloc_def c_store_def opt_strdup_def c_strdup_def
      load_config_def load_str_def store_ptr_def c_load_def zero_config_def zero_context_def opened_def
      out_ptr_def error_code_defs blocks_at_def)

theorem api_no_leak_witness:
  "reachable demo_codes 5 demo_open \<and> (\<forall>a. dyn (cm demo_open) a \<longleftrightarrow> a \<in> {4, 5, 6})"
proof -
  have r: "reachable demo_codes 5 demo_open"
    by (rule reachable.step [OF reachable.init [OF demo_start] demo_allowed demo_step])
  have o: "OUT_OF_MEMORY demo_codes \<noteq> EPIPHANYDB_SUCCESS" by (simp add: demo_codes_def error_code_defs)
  have "all_blocks demo_open = [6, 5, 4]" by (simp add: all_blocks_def demo_open_handles)
  then show ?thesis using r api_no_leak [OF r o] by auto
qed


lemma demo_wf: "wf_mem demo_mem" "readable_config demo_mem 2" "objs demo_mem 1 = Some (PtrCell 0)"
  using demo_start demo_allowed by (auto simp: start_def demo_client_def) (simp add: demo_mem_def)


text \<open>
  C4: \<open>epiphanydb_cleanup\<close> undoes \<open>epiphanydb_init\<close>: after both, allocation is as before the first
  call and every object but the caller's cell has its old contents.
\<close>

theorem init_cleanup_roundtrip:
  assumes "wf_mem m" "readable_config m cfg" "objs m cell = Some (PtrCell p)"
    and "epiphanydb_init ec cell cfg m = Some (EPIPHANYDB_SUCCESS, m1)" "OUT_OF_MEMORY ec \<noteq> EPIPHANYDB_SUCCESS"
  shows "\<exists>m2. epiphanydb_cleanup (out_ptr m1 cell) m1 = Some m2 \<and> dyn m2 = dyn m \<and>
    (\<forall>a. a \<noteq> cell \<longrightarrow> objs m2 a = objs m a)"
proof -
  from init_spec [OF assms(1,2,3), of ec] assms(4,5) obtain c v where
    c: "objs m1 cell = Some (PtrCell c)" "objs m1 c = Some v" "good_context v"
      "acquired (obj_blocks c v) {cell} m m1"
    by (auto simp: wp_def handle_post_def)
  then have "owned (obj_blocks c v) m1" by (auto simp: owned_def acquired_def)
  from cleanup_spec [OF this c(2,3)] obtain m2 where
    m2: "epiphanydb_cleanup c m1 = Some m2" "acquired (obj_blocks c v) {} m2 m1" by (auto simp: wp_def)
  then show ?thesis using acquired_released [OF c(4) m2(2)] c(1) by (auto simp: out_ptr_def)
qed

lemma demo_init: "epiphanydb_init demo_codes 1 2 demo_mem = Some (EPIPHANYDB_SUCCESS, cm demo_open)"
  by (simp add: demo_open_def demo_client_def demo_mem_def demo_codes_def epiphanydb_init_def
      init_log_directory_def init_shared_memory_def c_malloc_def c_store_def opt_strdup_def c_strdup_def
      load_config_def load_str_def store_ptr_def c_load_def zero_config_def zero_context_def opened_def)

theorem init_cleanup_roundtrip_witness:
  "\<exists>m2. epiphanydb_init demo_codes 1 2 demo_mem = Some (EPIPHANYDB_SUCCESS, cm demo_open) \<and>
     epiphanydb_cleanup (out_ptr (cm demo_open) 1) (cm demo_open) = Some m2 \<and> dyn m2 = dyn demo_mem"
proof -
  have o: "OUT_OF_MEMORY demo_codes \<noteq> EPIPHANYDB_SUCCESS" by (simp add: demo_codes_def error_code_defs)
  show ?thesis using demo_init init_cleanup_roundtrip [OF demo_wf demo_init o] by blast
qed




text \<open>
  C6: the flag \<open>is_active\<close> does not protect a transaction that is already finished. Commit and
  rollback free the transaction, so a second commit or rollback of the same handle reads freed
  memory: it is undefined, not \<open>EPIPHANYDB_ERROR_INVALID_PARAM\<close>.
\<close>

theorem finish_twice_undefined:
  assumes "wf_mem m" "dyn m t" "objs m t = Some (TxnObj tx)" "is_active tx"
  shows "\<exists>m'. epiphanydb_commit_transaction t m = Some (EPIPHANYDB_SUCCESS, m') \<and>
    epiphanydb_rollback_transaction t m = Some (EPIPHANYDB_SUCCESS, m') \<and>
    epiphanydb_commit_transaction t m' = None \<and> epiphanydb_rollback_transaction t m' = None"
proof -
  have t: "t \<noteq> NULL" using assms wf_objs_lt [OF assms(1,3)] by simp
  have "owned (obj_blocks t (TxnObj tx)) m" using assms t by (simp add: owned_def)
  from commit_spec [OF this assms(3)] assms(4) obtain m' where
    c: "epiphanydb_commit_transaction t m = Some (EPIPHANYDB_SUCCESS, m')" "acquired [t] {} m' m"
    by (auto simp: wp_def)
  then have "objs m' t = None" using acquired_fresh [OF c(2), of t] t by simp
  then have "epiphanydb_commit_transaction t m' = None" using t
    by (simp add: epiphanydb_commit_transaction_def load_txn_def c_load_def)
  then show ?thesis using c by (simp add: rollback_is_commit)
qed

definition demo_txn :: core_mem where
  "demo_txn = \<lparr>objs = [1 \<mapsto> TxnObj (zero_transaction\<lparr>is_active := True\<rparr>)], dyn = (\<lambda>a. a = 1), brk = 2,
     fails = (\<lambda>_. False), ncalls = 1\<rparr>"

theorem finish_twice_undefined_witness:
  "\<exists>m'. epiphanydb_commit_transaction 1 demo_txn = Some (EPIPHANYDB_SUCCESS, m') \<and>
     epiphanydb_commit_transaction 1 m' = None"
proof -
  have h: "wf_mem demo_txn" "dyn demo_txn 1"
    "objs demo_txn 1 = Some (TxnObj (zero_transaction\<lparr>is_active := True\<rparr>))"
    "is_active (zero_transaction\<lparr>is_active := True\<rparr>)"
    by (auto simp: demo_txn_def wf_mem_def)
  show ?thesis using finish_twice_undefined [OF h] by blast
qed

text \<open>
  The message table is indexed by non-negative codes while every error code of the header is
  negative, so \<open>epiphanydb_error_message\<close> gives ''Unknown error code'' for every declared error and
  its message for success only.
\<close>

theorem error_message_only_success:
  "list_all (\<lambda>e. epiphanydb_error_message e =
     (if e = EPIPHANYDB_SUCCESS then ''Success'' else ''Unknown error code'')) declared_errors"
  by (simp add: declared_errors_def error_code_defs epiphanydb_error_message_def error_messages_def)

text \<open>
  An engine is available exactly when it has a name of its own: the names of the available
  engines are pairwise different and different from ''unknown'', the name of all others.
\<close>

lemma available_iff: "epiphanydb_storage_engine_available t \<longleftrightarrow> unat t < length storage_engine_names"
proof -
  have "length storage_engine_names = 5" by (simp add: storage_engine_names_def)
  then show ?thesis
    by (simp add: epiphanydb_storage_engine_available_def storage_type_defs word_less_nat_alt)
qed

lemma engine_name_eq:
  "epiphanydb_storage_engine_name t =
     (if epiphanydb_storage_engine_available t then storage_engine_names ! unat t else ''unknown'')"
  by (simp add: epiphanydb_storage_engine_name_def epiphanydb_storage_engine_available_def)

theorem engine_names_identify:
  "(epiphanydb_storage_engine_available t \<longleftrightarrow> epiphanydb_storage_engine_name t \<noteq> ''unknown'') \<and>
   inj_on epiphanydb_storage_engine_name {t. epiphanydb_storage_engine_available t}"
proof -
  have d: "distinct storage_engine_names" "''unknown'' \<notin> set storage_engine_names"
    by (simp_all add: storage_engine_names_def)
  have "storage_engine_names ! unat t \<noteq> ''unknown''" if "unat t < length storage_engine_names"
    using nth_mem [OF that] d(2) by metis
  moreover have "t = u" if "unat t = unat u" for t u :: uint32 using that by (simp add: word_unat_eq_iff)
  ultimately show ?thesis using d(1)
    by (auto simp: engine_name_eq available_iff inj_on_def nth_eq_iff_index_eq)
qed

end
