(* ===== verification/EpiEngines.thy ===== *)
theory EpiEngines
  imports EpiCore
begin

text \<open>
  The five storage engines of \<open>src/storage/\<close>: heap, columnar, vector, timeseries and graph. Their
  structures are allocated without being cleared, so an object is a struct with the fields
  assigned so far (reading a field that was never assigned is undefined), a character buffer with
  its size, an open file, or an out-parameter of the caller. Most operations of the engines are
  placeholders that only report success; they are modelled as such, with the writes through their
  out-parameters.
\<close>

section \<open>State\<close>

datatype val = VPtr addr | VSize uint64 | VBool bool

datatype eng_obj =
    Struct "string \<rightharpoonup> val"
  | Buf nat "string option"
  | FileObj string
  | OutPtr addr
  | OutSize uint64
  | OutDouble uint64

type_synonym eng_mem = "eng_obj cmem"

text \<open>
  What the engines see of the environment besides the allocator: which paths \<open>fopen\<close> refuses, and
  the files created or truncated so far, latest first.
\<close>

record eng_state =
  emem :: eng_mem
  fopen_fails :: "string \<Rightarrow> bool"
  files :: "string list"

section \<open>C library calls\<close>

definition e_str :: "addr \<Rightarrow> eng_mem \<Rightarrow> string option" where
  "e_str a m = (case c_load a m of Some (Buf n c) \<Rightarrow> c | _ \<Rightarrow> None)"

definition e_set :: "addr \<Rightarrow> string \<Rightarrow> val \<Rightarrow> eng_mem \<Rightarrow> eng_mem option" where
  "e_set a f v m = (case c_load a m of Some (Struct s) \<Rightarrow> c_store a (Struct (s(f \<mapsto> v))) m | _ \<Rightarrow> None)"

definition e_ptr :: "addr \<Rightarrow> string \<Rightarrow> eng_mem \<Rightarrow> addr option" where
  "e_ptr a f m = (case c_load a m of
     Some (Struct s) \<Rightarrow> (case s f of Some (VPtr p) \<Rightarrow> Some p | _ \<Rightarrow> None) | _ \<Rightarrow> None)"

definition e_strdup_lit :: "string \<Rightarrow> eng_mem \<Rightarrow> addr \<times> eng_mem" where
  "e_strdup_lit s m = c_malloc (Buf (length s + 1) (Some s)) m"

definition e_strdup :: "addr \<Rightarrow> eng_mem \<Rightarrow> (addr \<times> eng_mem) option" where
  "e_strdup a m = do { s \<leftarrow> e_str a m; Some (e_strdup_lit s m) }"

definition e_strlen :: "addr \<Rightarrow> eng_mem \<Rightarrow> nat option" where
  "e_strlen a m = map_option length (e_str a m)"

text \<open>
  \<open>sprintf(buf, pre \<dots> "%s" \<dots> post, name)\<close>: the text and its terminating zero must fit the buffer.
  \<open>snprintf\<close> with a size truncates instead; the size must not exceed the buffer.
\<close>

definition e_sprintf :: "addr \<Rightarrow> string \<Rightarrow> addr \<Rightarrow> string \<Rightarrow> eng_mem \<Rightarrow> eng_mem option" where
  "e_sprintf buf pre name post m = do {
     s \<leftarrow> e_str name m;
     case c_load buf m of
       Some (Buf n c) \<Rightarrow>
         (if length (pre @ s @ post) + 1 \<le> n then c_store buf (Buf n (Some (pre @ s @ post))) m else None)
     | _ \<Rightarrow> None
   }"

definition e_snprintf :: "addr \<Rightarrow> nat \<Rightarrow> string \<Rightarrow> addr \<Rightarrow> string \<Rightarrow> eng_mem \<Rightarrow> eng_mem option" where
  "e_snprintf buf sz pre name post m = do {
     s \<leftarrow> e_str name m;
     if sz = 0 then Some m
     else case c_load buf m of
       Some (Buf n c) \<Rightarrow>
         (if sz \<le> n then c_store buf (Buf n (Some (take (sz - 1) (pre @ s @ post)))) m else None)
     | _ \<Rightarrow> None
   }"

definition e_fopen :: "addr \<Rightarrow> eng_state \<Rightarrow> (addr \<times> eng_state) option" where
  "e_fopen path s = do {
     p \<leftarrow> e_str path (emem s);
     if fopen_fails s p then Some (NULL, s)
     else let m = emem s; a = brk m in
       Some (a, s\<lparr>emem := m\<lparr>objs := (objs m)(a \<mapsto> FileObj p), dyn := (dyn m)(a := True), brk := Suc a\<rparr>,
                  files := p # files s\<rparr>)
   }"

definition e_fclose :: "addr \<Rightarrow> eng_mem \<Rightarrow> eng_mem option" where
  "e_fclose a m = (case c_load a m of Some (FileObj p) \<Rightarrow> c_free a m | _ \<Rightarrow> None)"

definition e_out_ptr :: "addr \<Rightarrow> addr \<Rightarrow> eng_mem \<Rightarrow> eng_mem option" where
  "e_out_ptr a p m = (case c_load a m of Some (OutPtr q) \<Rightarrow> c_store a (OutPtr p) m | _ \<Rightarrow> None)"

definition e_out_size :: "addr \<Rightarrow> uint64 \<Rightarrow> eng_mem \<Rightarrow> eng_mem option" where
  "e_out_size a n m = (case c_load a m of Some (OutSize k) \<Rightarrow> c_store a (OutSize n) m | _ \<Rightarrow> None)"

definition e_out_double :: "addr \<Rightarrow> uint64 \<Rightarrow> eng_mem \<Rightarrow> eng_mem option" where
  "e_out_double a n m = (case c_load a m of Some (OutDouble k) \<Rightarrow> c_store a (OutDouble n) m | _ \<Rightarrow> None)"

text \<open>
  The two idioms of the \<open>create_table\<close> functions: allocating a path buffer for a field of the table
  and printing the path into it, and freeing the block a field points to.
\<close>

definition e_path_file :: "addr \<Rightarrow> string \<Rightarrow> nat \<Rightarrow> string \<Rightarrow> addr \<Rightarrow> string \<Rightarrow> eng_mem \<Rightarrow> eng_mem option" where
  "e_path_file p field base_len pre name ext m =
     (let (b, m) = c_malloc (Buf (base_len + length ext + 1) None) m in do {
        m \<leftarrow> e_set p field (VPtr b) m;
        b \<leftarrow> e_ptr p field m;
        e_sprintf b pre name ext m
      })"

definition e_free_field :: "addr \<Rightarrow> string \<Rightarrow> eng_mem \<Rightarrow> eng_mem option" where
  "e_free_field p field m = do { a \<leftarrow> e_ptr p field m; c_free a m }"

text \<open>The common tail of the placeholder queries: no results, success.\<close>

definition ret_empty :: "addr \<Rightarrow> addr \<Rightarrow> eng_mem \<Rightarrow> (EpiphanyDBError \<times> eng_mem) option" where
  "ret_empty results num m = do {
     m \<leftarrow> e_out_ptr results NULL m;
     m \<leftarrow> e_out_size num 0 m;
     Some (EPIPHANYDB_SUCCESS, m)
   }"

definition ret_null :: "addr \<Rightarrow> eng_mem \<Rightarrow> (EpiphanyDBError \<times> eng_mem) option" where
  "ret_null results m = do { m \<leftarrow> e_out_ptr results NULL m; Some (EPIPHANYDB_SUCCESS, m) }"

definition ret_ok :: "eng_mem \<Rightarrow> (EpiphanyDBError \<times> eng_mem) option" where
  "ret_ok m = Some (EPIPHANYDB_SUCCESS, m)"

section \<open>Heap engine\<close>

definition heap_storage_init :: "addr \<Rightarrow> eng_mem \<Rightarrow> (EpiphanyDBError \<times> eng_mem) option" where
  "heap_storage_init ctx m =
     (let (p, m) = c_malloc (Struct Map.empty) m in
      if p = NULL then Some (EPIPHANYDB_ERROR_MEMORY, m)
      else do {
        let (s, m) = e_strdup_lit ''./data/heap'' m;
        m \<leftarrow> e_set p ''data_directory'' (VPtr s) m;
        m \<leftarrow> e_set p ''page_size'' (VSize 8192) m;
        m \<leftarrow> e_set p ''max_pages'' (VSize 1000000) m;
        Some (EPIPHANYDB_SUCCESS, m)
      })"

definition heap_storage_cleanup :: "addr \<Rightarrow> eng_mem \<Rightarrow> (EpiphanyDBError \<times> eng_mem) option" where
  "heap_storage_cleanup ctx m = ret_ok m"

text \<open>The second half of \<open>heap_create_table\<close>, from the opening of the table file on.\<close>

definition heap_create_file :: "addr \<Rightarrow> eng_state \<Rightarrow> (EpiphanyDBError \<times> eng_state) option" where
  "heap_create_file p st = do {
     b \<leftarrow> e_ptr p ''file_path'' (emem st);
     (f, st) \<leftarrow> e_fopen b st;
     m \<leftarrow> e_set p ''data_file'' (VPtr f) (emem st);
     if f = NULL then do {
       m \<leftarrow> e_free_field p ''table_name'' m;
       m \<leftarrow> e_free_field p ''file_path'' m;
       m \<leftarrow> c_free p m;
       Some (EPIPHANYDB_ERROR_IO, st\<lparr>emem := m\<rparr>)
     } else do {
       m \<leftarrow> e_set p ''num_rows'' (VSize 0) m;
       m \<leftarrow> e_set p ''row_size'' (VSize 0) m;
       f \<leftarrow> e_ptr p ''data_file'' m;
       m \<leftarrow> e_fclose f m;
       m \<leftarrow> e_set p ''data_file'' (VPtr NULL) m;
       m \<leftarrow> e_free_field p ''table_name'' m;
       m \<leftarrow> e_free_field p ''file_path'' m;
       m \<leftarrow> c_free p m;
       Some (EPIPHANYDB_SUCCESS, st\<lparr>emem := m\<rparr>)
     }
   }"

definition heap_create_table :: "addr \<Rightarrow> addr \<Rightarrow> addr \<Rightarrow> eng_state \<Rightarrow> (EpiphanyDBError \<times> eng_state) option" where
  "heap_create_table ctx table_name schema st =
     (let (p, m) = c_malloc (Struct Map.empty) (emem st) in
      if p = NULL then Some (EPIPHANYDB_ERROR_MEMORY, st\<lparr>emem := m\<rparr>)
      else do {
        (s, m) \<leftarrow> e_strdup table_name m;
        m \<leftarrow> e_set p ''table_name'' (VPtr s) m;
        n \<leftarrow> e_strlen table_name m;
        let path_len = length ''./data/heap/'' + n + length ''.heap'' + 1;
        let (b, m) = c_malloc (Buf path_len None) m;
        m \<leftarrow> e_set p ''file_path'' (VPtr b) m;
        b \<leftarrow> e_ptr p ''file_path'' m;
        m \<leftarrow> e_snprintf b path_len ''./data/heap/'' table_name ''.heap'' m;
        heap_create_file p (st\<lparr>emem := m\<rparr>)
      })"

definition heap_open_table :: "addr \<Rightarrow> addr \<Rightarrow> addr \<Rightarrow> eng_mem \<Rightarrow> (EpiphanyDBError \<times> eng_mem) option" where
  "heap_open_table ctx table_name tbl m = ret_ok m"

definition heap_close_table :: "addr \<Rightarrow> eng_mem \<Rightarrow> (EpiphanyDBError \<times> eng_mem) option" where
  "heap_close_table table m = ret_ok m"

definition heap_insert_row :: "addr \<Rightarrow> addr \<Rightarrow> uint64 \<Rightarrow> eng_mem \<Rightarrow> (EpiphanyDBError \<times> eng_mem) option" where
  "heap_insert_row table data data_size m = ret_ok m"

definition heap_update_row :: "addr \<Rightarrow> addr \<Rightarrow> addr \<Rightarrow> uint64 \<Rightarrow> eng_mem \<Rightarrow> (EpiphanyDBError \<times> eng_mem) option" where
  "heap_update_row table key data data_size m = ret_ok m"

definition heap_delete_row :: "addr \<Rightarrow> addr \<Rightarrow> eng_mem \<Rightarrow> (EpiphanyDBError \<times> eng_mem) option" where
  "heap_delete_row table key m = ret_ok m"

definition heap_query_rows :: "addr \<Rightarrow> addr \<Rightarrow> addr \<Rightarrow> addr \<Rightarrow> eng_mem \<Rightarrow> (EpiphanyDBError \<times> eng_mem) option" where
  "heap_query_rows table cond results num_results m = ret_empty results num_results m"

section \<open>Columnar engine\<close>

definition columnar_storage_init :: "addr \<Rightarrow> eng_mem \<Rightarrow> (EpiphanyDBError \<times> eng_mem) option" where
  "columnar_storage_init ctx m =
     (let (p, m) = c_malloc (Struct Map.empty) m in
      if p = NULL then Some (EPIPHANYDB_ERROR_MEMORY, m)
      else do {
        let (s, m) = e_strdup_lit ''./data/columnar'' m;
        m \<leftarrow> e_set p ''data_directory'' (VPtr s) m;
        m \<leftarrow> e_set p ''compression_level'' (VSize 6) m;
        m \<leftarrow> e_set p ''enable_vectorization'' (VBool True) m;
        Some (EPIPHANYDB_SUCCESS, m)
      })"

definition columnar_storage_cleanup :: "addr \<Rightarrow> eng_mem \<Rightarrow> (EpiphanyDBError \<times> eng_mem) option" where
  "columnar_storage_cleanup ctx m = ret_ok m"

definition columnar_create_table :: "addr \<Rightarrow> addr \<Rightarrow> addr \<Rightarrow> eng_mem \<Rightarrow> (EpiphanyDBError \<times> eng_mem) option" where
  "columnar_create_table ctx table_name schema m =
     (let (p, m) = c_malloc (Struct Map.empty) m in
      if p = NULL then Some (EPIPHANYDB_ERROR_MEMORY, m)
      else do {
        (s, m) \<leftarrow> e_strdup table_name m;
        m \<leftarrow> e_set p ''table_name'' (VPtr s) m;
        m \<leftarrow> e_set p ''num_rows'' (VSize 0) m;
        m \<leftarrow> e_set p ''num_columns'' (VSize 0) m;
        m \<leftarrow> e_set p ''column_files'' (VPtr NULL) m;
        m \<leftarrow> e_set p ''column_names'' (VPtr NULL) m;
        m \<leftarrow> e_set p ''column_types'' (VPtr NULL) m;
        m \<leftarrow> e_free_field p ''table_name'' m;
        m \<leftarrow> c_free p m;
        Some (EPIPHANYDB_SUCCESS, m)
      })"

definition columnar_open_table :: "addr \<Rightarrow> addr \<Rightarrow> addr \<Rightarrow> eng_mem \<Rightarrow> (EpiphanyDBError \<times> eng_mem) option" where
  "columnar_open_table ctx table_name tbl m = ret_ok m"

definition columnar_close_table :: "addr \<Rightarrow> eng_mem \<Rightarrow> (EpiphanyDBError \<times> eng_mem) option" where
  "columnar_close_table table m = ret_ok m"

definition columnar_insert_row :: "addr \<Rightarrow> addr \<Rightarrow> uint64 \<Rightarrow> eng_mem \<Rightarrow> (EpiphanyDBError \<times> eng_mem) option" where
  "columnar_insert_row table data data_size m = ret_ok m"

definition columnar_update_row :: "addr \<Rightarrow> addr \<Rightarrow> addr \<Rightarrow> uint64 \<Rightarrow> eng_mem \<Rightarrow> (EpiphanyDBError \<times> eng_mem) option" where
  "columnar_update_row table key data data_size m = ret_ok m"

definition columnar_delete_row :: "addr \<Rightarrow> addr \<Rightarrow> eng_mem \<Rightarrow> (EpiphanyDBError \<times> eng_mem) option" where
  "columnar_delete_row table key m = ret_ok m"

definition columnar_query_rows :: "addr \<Rightarrow> addr \<Rightarrow> addr \<Rightarrow> addr \<Rightarrow> eng_mem \<Rightarrow> (EpiphanyDBError \<times> eng_mem) option" where
  "columnar_query_rows table cond results num_results m = ret_empty results num_results m"

definition columnar_compress_column :: "addr \<Rightarrow> uint64 \<Rightarrow> addr \<Rightarrow> addr \<Rightarrow> eng_mem \<Rightarrow> (EpiphanyDBError \<times> eng_mem) option" where
  "columnar_compress_column data data_size compressed_data compressed_size m = ret_empty compressed_data compressed_size m"

definition columnar_decompress_column :: "addr \<Rightarrow> uint64 \<Rightarrow> addr \<Rightarrow> addr \<Rightarrow> eng_mem \<Rightarrow> (EpiphanyDBError \<times> eng_mem) option" where
  "columnar_decompress_column compressed_data compressed_size data data_size m = ret_empty data data_size m"

definition columnar_vectorized_scan :: "addr \<Rightarrow> addr \<Rightarrow> addr \<Rightarrow> addr \<Rightarrow> addr \<Rightarrow> eng_mem \<Rightarrow> (EpiphanyDBError \<times> eng_mem) option" where
  "columnar_vectorized_scan table column_name cond results num_results m = ret_empty results num_results m"

section \<open>Vector engine\<close>

definition vector_storage_init :: "addr \<Rightarrow> eng_mem \<Rightarrow> (EpiphanyDBError \<times> eng_mem) option" where
  "vector_storage_init ctx m =
     (let (p, m) = c_malloc (Struct Map.empty) m in
      if p = NULL then Some (EPIPHANYDB_ERROR_MEMORY, m)
      else do {
        let (s, m) = e_strdup_lit ''./data/vector'' m;
        m \<leftarrow> e_set p ''data_directory'' (VPtr s) m;
        m \<leftarrow> e_set p ''default_vector_dimension'' (VSize 768) m;
        let (s, m) = e_strdup_lit ''cosine'' m;
        m \<leftarrow> e_set p ''distance_metric'' (VPtr s) m;
        m \<leftarrow> e_set p ''enable_indexing'' (VBool True) m;
        Some (EPIPHANYDB_SUCCESS, m)
      })"

definition vector_storage_cleanup :: "addr \<Rightarrow> eng_mem \<Rightarrow> (EpiphanyDBError \<times> eng_mem) option" where
  "vector_storage_cleanup ctx m = ret_ok m"

definition vector_create_table :: "addr \<Rightarrow> addr \<Rightarrow> addr \<Rightarrow> eng_mem \<Rightarrow> (EpiphanyDBError \<times> eng_mem) option" where
  "vector_create_table ctx table_name schema m =
     (let (p, m) = c_malloc (Struct Map.empty) m in
      if p = NULL then Some (EPIPHANYDB_ERROR_MEMORY, m)
      else do {
        (s, m) \<leftarrow> e_strdup table_name m;
        m \<leftarrow> e_set p ''table_name'' (VPtr s) m;
        m \<leftarrow> e_set p ''vector_dimension'' (VSize 768) m;
        m \<leftarrow> e_set p ''num_vectors'' (VSize 0) m;
        let (s, m) = e_strdup_lit ''cosine'' m;
        m \<leftarrow> e_set p ''distance_metric'' (VPtr s) m;
        n \<leftarrow> e_strlen table_name m;
        let base_len = length ''./data/vector/'' + n;
        m \<leftarrow> e_path_file p ''vector_file'' base_len ''./data/vector/'' table_name ''.vectors'' m;
        m \<leftarrow> e_path_file p ''metadata_file'' base_len ''./data/vector/'' table_name ''.metadata'' m;
        m \<leftarrow> e_path_file p ''index_file'' base_len ''./data/vector/'' table_name ''.index'' m;
        m \<leftarrow> e_free_field p ''table_name'' m;
        m \<leftarrow> e_free_field p ''vector_file'' m;
        m \<leftarrow> e_free_field p ''metadata_file'' m;
        m \<leftarrow> e_free_field p ''index_file'' m;
        m \<leftarrow> e_free_field p ''distance_metric'' m;
        m \<leftarrow> c_free p m;
        Some (EPIPHANYDB_SUCCESS, m)
      })"

definition vector_open_table :: "addr \<Rightarrow> addr \<Rightarrow> addr \<Rightarrow> eng_mem \<Rightarrow> (EpiphanyDBError \<times> eng_mem) option" where
  "vector_open_table ctx table_name tbl m = ret_ok m"

definition vector_close_table :: "addr \<Rightarrow> eng_mem \<Rightarrow> (EpiphanyDBError \<times> eng_mem) option" where
  "vector_close_table table m = ret_ok m"

definition vector_insert_vector :: "addr \<Rightarrow> addr \<Rightarrow> uint64 \<Rightarrow> addr \<Rightarrow> eng_mem \<Rightarrow> (EpiphanyDBError \<times> eng_mem) option" where
  "vector_insert_vector table vector_data dimension meta m = ret_ok m"

definition vector_update_vector :: "addr \<Rightarrow> addr \<Rightarrow> addr \<Rightarrow> uint64 \<Rightarrow> addr \<Rightarrow> eng_mem \<Rightarrow> (EpiphanyDBError \<times> eng_mem) option" where
  "vector_update_vector table key vector_data dimension meta m = ret_ok m"

definition vector_delete_vector :: "addr \<Rightarrow> addr \<Rightarrow> eng_mem \<Rightarrow> (EpiphanyDBError \<times> eng_mem) option" where
  "vector_delete_vector table key m = ret_ok m"

definition vector_similarity_search :: "addr \<Rightarrow> addr \<Rightarrow> uint64 \<Rightarrow> uint64 \<Rightarrow> addr \<Rightarrow> addr \<Rightarrow> eng_mem \<Rightarrow> (EpiphanyDBError \<times> eng_mem) option" where
  "vector_similarity_search table query_vector dimension k results num_results m = ret_empty results num_results m"

definition vector_build_index :: "addr \<Rightarrow> eng_mem \<Rightarrow> (EpiphanyDBError \<times> eng_mem) option" where
  "vector_build_index table m = ret_ok m"

definition vector_rebuild_index :: "addr \<Rightarrow> eng_mem \<Rightarrow> (EpiphanyDBError \<times> eng_mem) option" where
  "vector_rebuild_index table m = ret_ok m"

section \<open>Time series engine\<close>

definition timeseries_storage_init :: "addr \<Rightarrow> eng_mem \<Rightarrow> (EpiphanyDBError \<times> eng_mem) option" where
  "timeseries_storage_init ctx m =
     (let (p, m) = c_malloc (Struct Map.empty) m in
      if p = NULL then Some (EPIPHANYDB_ERROR_MEMORY, m)
      else do {
        let (s, m) = e_strdup_lit ''./data/timeseries'' m;
        m \<leftarrow> e_set p ''data_directory'' (VPtr s) m;
        m \<leftarrow> e_set p ''retention_days'' (VSize 365) m;
        m \<leftarrow> e_set p ''compression_level'' (VSize 8) m;
        m \<leftarrow> e_set p ''enable_downsampling'' (VBool True) m;
        Some (EPIPHANYDB_SUCCESS, m)
      })"

definition timeseries_storage_cleanup :: "addr \<Rightarrow> eng_mem \<Rightarrow> (EpiphanyDBError \<times> eng_mem) option" where
  "timeseries_storage_cleanup ctx m = ret_ok m"

definition timeseries_create_table :: "addr \<Rightarrow> addr \<Rightarrow> addr \<Rightarrow> eng_mem \<Rightarrow> (EpiphanyDBError \<times> eng_mem) option" where
  "timeseries_create_table ctx table_name schema m =
     (let (p, m) = c_malloc (Struct Map.empty) m in
      if p = NULL then Some (EPIPHANYDB_ERROR_MEMORY, m)
      else do {
        (s, m) \<leftarrow> e_strdup table_name m;
        m \<leftarrow> e_set p ''table_name'' (VPtr s) m;
        m \<leftarrow> e_set p ''num_points'' (VSize 0) m;
        m \<leftarrow> e_set p ''start_time'' (VSize 0) m;
        m \<leftarrow> e_set p ''end_time'' (VSize 0) m;
        m \<leftarrow> e_set p ''retention_seconds'' (VSize (365 * 24 * 3600)) m;
        n \<leftarrow> e_strlen table_name m;
        let base_len = length ''./data/timeseries/'' + n;
        m \<leftarrow> e_path_file p ''data_file'' base_len ''./data/timeseries/'' table_name ''.tsdb'' m;
        m \<leftarrow> e_path_file p ''index_file'' base_len ''./data/timeseries/'' table_name ''.tsidx'' m;
        m \<leftarrow> e_free_field p ''table_name'' m;
        m \<leftarrow> e_free_field p ''data_file'' m;
        m \<leftarrow> e_free_field p ''index_file'' m;
        m \<leftarrow> c_free p m;
        Some (EPIPHANYDB_SUCCESS, m)
      })"

definition timeseries_open_table :: "addr \<Rightarrow> addr \<Rightarrow> addr \<Rightarrow> eng_mem \<Rightarrow> (EpiphanyDBError \<times> eng_mem) option" where
  "timeseries_open_table ctx table_name tbl m = ret_ok m"

definition timeseries_close_table :: "addr \<Rightarrow> eng_mem \<Rightarrow> (EpiphanyDBError \<times> eng_mem) option" where
  "timeseries_close_table table m = ret_ok m"

definition timeseries_insert_point :: "addr \<Rightarrow> uint64 \<Rightarrow> uint64 \<Rightarrow> addr \<Rightarrow> eng_mem \<Rightarrow> (EpiphanyDBError \<times> eng_mem) option" where
  "timeseries_insert_point table timestamp value_bits tags m = ret_ok m"

definition timeseries_insert_batch :: "addr \<Rightarrow> addr \<Rightarrow> uint64 \<Rightarrow> eng_mem \<Rightarrow> (EpiphanyDBError \<times> eng_mem) option" where
  "timeseries_insert_batch table points num_points m = ret_ok m"

definition timeseries_query_range :: "addr \<Rightarrow> uint64 \<Rightarrow> uint64 \<Rightarrow> addr \<Rightarrow> addr \<Rightarrow> addr \<Rightarrow> eng_mem \<Rightarrow> (EpiphanyDBError \<times> eng_mem) option" where
  "timeseries_query_range table start_time end_time tags_filter results num_results m = ret_empty results num_results m"

definition timeseries_delete_range :: "addr \<Rightarrow> uint64 \<Rightarrow> uint64 \<Rightarrow> addr \<Rightarrow> eng_mem \<Rightarrow> (EpiphanyDBError \<times> eng_mem) option" where
  "timeseries_delete_range table start_time end_time tags_filter m = ret_ok m"

definition timeseries_downsample :: "addr \<Rightarrow> uint64 \<Rightarrow> uint64 \<Rightarrow> uint64 \<Rightarrow> addr \<Rightarrow> addr \<Rightarrow> addr \<Rightarrow> eng_mem \<Rightarrow> (EpiphanyDBError \<times> eng_mem) option" where
  "timeseries_downsample table start_time end_time interval_seconds aggregation_func results num_results m = ret_empty results num_results m"

definition timeseries_compress_data :: "addr \<Rightarrow> uint64 \<Rightarrow> addr \<Rightarrow> addr \<Rightarrow> eng_mem \<Rightarrow> (EpiphanyDBError \<times> eng_mem) option" where
  "timeseries_compress_data points num_points compressed_data compressed_size m = ret_empty compressed_data compressed_size m"

definition timeseries_decompress_data :: "addr \<Rightarrow> uint64 \<Rightarrow> addr \<Rightarrow> addr \<Rightarrow> eng_mem \<Rightarrow> (EpiphanyDBError \<times> eng_mem) option" where
  "timeseries_decompress_data compressed_data compressed_size points num_points m = ret_empty points num_points m"

definition timeseries_calculate_stats :: "addr \<Rightarrow> uint64 \<Rightarrow> uint64 \<Rightarrow> addr \<Rightarrow> addr \<Rightarrow> eng_mem \<Rightarrow> (EpiphanyDBError \<times> eng_mem) option" where
  "timeseries_calculate_stats table start_time end_time tags_filter stats m = ret_null stats m"

definition timeseries_enforce_retention :: "addr \<Rightarrow> eng_mem \<Rightarrow> (EpiphanyDBError \<times> eng_mem) option" where
  "timeseries_enforce_retention table m = ret_ok m"

definition timeseries_create_time_index :: "addr \<Rightarrow> eng_mem \<Rightarrow> (EpiphanyDBError \<times> eng_mem) option" where
  "timeseries_create_time_index table m = ret_ok m"

definition timeseries_create_continuous_aggregate :: "addr \<Rightarrow> addr \<Rightarrow> uint64 \<Rightarrow> addr \<Rightarrow> eng_mem \<Rightarrow> (EpiphanyDBError \<times> eng_mem) option" where
  "timeseries_create_continuous_aggregate table aggregate_name interval_seconds aggregation_func m = ret_ok m"

section \<open>Graph engine\<close>

definition graph_storage_init :: "addr \<Rightarrow> eng_mem \<Rightarrow> (EpiphanyDBError \<times> eng_mem) option" where
  "graph_storage_init ctx m =
     (let (p, m) = c_malloc (Struct Map.empty) m in
      if p = NULL then Some (EPIPHANYDB_ERROR_MEMORY, m)
      else do {
        let (s, m) = e_strdup_lit ''./data/graph'' m;
        m \<leftarrow> e_set p ''data_directory'' (VPtr s) m;
        m \<leftarrow> e_set p ''enable_indexing'' (VBool True) m;
        let (s, m) = e_strdup_lit ''adjacency_list'' m;
        m \<leftarrow> e_set p ''default_graph_format'' (VPtr s) m;
        Some (EPIPHANYDB_SUCCESS, m)
      })"

definition graph_storage_cleanup :: "addr \<Rightarrow> eng_mem \<Rightarrow> (EpiphanyDBError \<times> eng_mem) option" where
  "graph_storage_cleanup ctx m = ret_ok m"

definition graph_create_table :: "addr \<Rightarrow> addr \<Rightarrow> addr \<Rightarrow> eng_mem \<Rightarrow> (EpiphanyDBError \<times> eng_mem) option" where
  "graph_create_table ctx table_name schema m =
     (let (p, m) = c_malloc (Struct Map.empty) m in
      if p = NULL then Some (EPIPHANYDB_ERROR_MEMORY, m)
      else do {
        (s, m) \<leftarrow> e_strdup table_name m;
        m \<leftarrow> e_set p ''table_name'' (VPtr s) m;
        m \<leftarrow> e_set p ''num_vertices'' (VSize 0) m;
        m \<leftarrow> e_set p ''num_edges'' (VSize 0) m;
        m \<leftarrow> e_set p ''is_directed'' (VBool True) m;
        n \<leftarrow> e_strlen table_name m;
        let base_len = length ''./data/graph/'' + n;
        m \<leftarrow> e_path_file p ''vertices_file'' base_len ''./data/graph/'' table_name ''.vertices'' m;
        m \<leftarrow> e_path_file p ''edges_file'' base_len ''./data/graph/'' table_name ''.edges'' m;
        m \<leftarrow> e_path_file p ''properties_file'' base_len ''./data/graph/'' table_name ''.properties'' m;
        m \<leftarrow> e_path_file p ''index_file'' base_len ''./data/graph/'' table_name ''.gidx'' m;
        m \<leftarrow> e_free_field p ''table_name'' m;
        m \<leftarrow> e_free_field p ''vertices_file'' m;
        m \<leftarrow> e_free_field p ''edges_file'' m;
        m \<leftarrow> e_free_field p ''properties_file'' m;
        m \<leftarrow> e_free_field p ''index_file'' m;
        m \<leftarrow> c_free p m;
        Some (EPIPHANYDB_SUCCESS, m)
      })"

definition graph_open_table :: "addr \<Rightarrow> addr \<Rightarrow> addr \<Rightarrow> eng_mem \<Rightarrow> (EpiphanyDBError \<times> eng_mem) option" where
  "graph_open_table ctx table_name tbl m = ret_ok m"

definition graph_close_table :: "addr \<Rightarrow> eng_mem \<Rightarrow> (EpiphanyDBError \<times> eng_mem) option" where
  "graph_close_table table m = ret_ok m"

definition graph_insert_vertex :: "addr \<Rightarrow> uint64 \<Rightarrow> addr \<Rightarrow> addr \<Rightarrow> eng_mem \<Rightarrow> (EpiphanyDBError \<times> eng_mem) option" where
  "graph_insert_vertex table vertex_id label properties m = ret_ok m"

definition graph_insert_edge :: "addr \<Rightarrow> uint64 \<Rightarrow> uint64 \<Rightarrow> uint64 \<Rightarrow> addr \<Rightarrow> uint64 \<Rightarrow> addr \<Rightarrow> eng_mem \<Rightarrow> (EpiphanyDBError \<times> eng_mem) option" where
  "graph_insert_edge table edge_id source_id target_id label weight_bits properties m = ret_ok m"

definition graph_update_vertex :: "addr \<Rightarrow> uint64 \<Rightarrow> addr \<Rightarrow> eng_mem \<Rightarrow> (EpiphanyDBError \<times> eng_mem) option" where
  "graph_update_vertex table vertex_id properties m = ret_ok m"

definition graph_update_edge :: "addr \<Rightarrow> uint64 \<Rightarrow> addr \<Rightarrow> uint64 \<Rightarrow> eng_mem \<Rightarrow> (EpiphanyDBError \<times> eng_mem) option" where
  "graph_update_edge table edge_id properties weight_bits m = ret_ok m"

definition graph_delete_vertex :: "addr \<Rightarrow> uint64 \<Rightarrow> eng_mem \<Rightarrow> (EpiphanyDBError \<times> eng_mem) option" where
  "graph_delete_vertex table vertex_id m = ret_ok m"

definition graph_delete_edge :: "addr \<Rightarrow> uint64 \<Rightarrow> eng_mem \<Rightarrow> (EpiphanyDBError \<times> eng_mem) option" where
  "graph_delete_edge table edge_id m = ret_ok m"

definition graph_get_neighbors :: "addr \<Rightarrow> uint64 \<Rightarrow> bool \<Rightarrow> addr \<Rightarrow> addr \<Rightarrow> eng_mem \<Rightarrow> (EpiphanyDBError \<times> eng_mem) option" where
  "graph_get_neighbors table vertex_id outgoing neighbors num_neighbors m = ret_empty neighbors num_neighbors m"

definition graph_bfs :: "addr \<Rightarrow> uint64 \<Rightarrow> uint64 \<Rightarrow> addr \<Rightarrow> addr \<Rightarrow> eng_mem \<Rightarrow> (EpiphanyDBError \<times> eng_mem) option" where
  "graph_bfs table start_vertex_id max_depth visited_vertices num_visited m = ret_empty visited_vertices num_visited m"

definition graph_dfs :: "addr \<Rightarrow> uint64 \<Rightarrow> uint64 \<Rightarrow> addr \<Rightarrow> addr \<Rightarrow> eng_mem \<Rightarrow> (EpiphanyDBError \<times> eng_mem) option" where
  "graph_dfs table start_vertex_id max_depth visited_vertices num_visited m = ret_empty visited_vertices num_visited m"

definition graph_shortest_path :: "addr \<Rightarrow> uint64 \<Rightarrow> uint64 \<Rightarrow> addr \<Rightarrow> addr \<Rightarrow> addr \<Rightarrow> eng_mem \<Rightarrow> (EpiphanyDBError \<times> eng_mem) option" where
  "graph_shortest_path table source_id target_id path path_length total_weight m = do {
     m \<leftarrow> e_out_ptr path NULL m;
     m \<leftarrow> e_out_size path_length 0 m;
     m \<leftarrow> e_out_double total_weight 0 m;
     Some (EPIPHANYDB_SUCCESS, m)
   }"

definition graph_pagerank :: "addr \<Rightarrow> uint64 \<Rightarrow> uint64 \<Rightarrow> uint64 \<Rightarrow> addr \<Rightarrow> eng_mem \<Rightarrow> (EpiphanyDBError \<times> eng_mem) option" where
  "graph_pagerank table damping_bits max_iterations tolerance_bits pagerank_scores m = ret_null pagerank_scores m"

definition graph_connected_components :: "addr \<Rightarrow> addr \<Rightarrow> addr \<Rightarrow> eng_mem \<Rightarrow> (EpiphanyDBError \<times> eng_mem) option" where
  "graph_connected_components table components num_components m = ret_empty components num_components m"

definition graph_pattern_match :: "addr \<Rightarrow> addr \<Rightarrow> addr \<Rightarrow> addr \<Rightarrow> eng_mem \<Rightarrow> (EpiphanyDBError \<times> eng_mem) option" where
  "graph_pattern_match table pattern_query matches num_matches m = ret_empty matches num_matches m"

definition graph_calculate_stats :: "addr \<Rightarrow> addr \<Rightarrow> eng_mem \<Rightarrow> (EpiphanyDBError \<times> eng_mem) option" where
  "graph_calculate_stats table stats m = ret_null stats m"

definition graph_create_index :: "addr \<Rightarrow> addr \<Rightarrow> eng_mem \<Rightarrow> (EpiphanyDBError \<times> eng_mem) option" where
  "graph_create_index table index_type m = ret_ok m"

definition graph_export :: "addr \<Rightarrow> addr \<Rightarrow> addr \<Rightarrow> eng_mem \<Rightarrow> (EpiphanyDBError \<times> eng_mem) option" where
  "graph_export table format output_file m = ret_ok m"

definition graph_import :: "addr \<Rightarrow> addr \<Rightarrow> addr \<Rightarrow> eng_mem \<Rightarrow> (EpiphanyDBError \<times> eng_mem) option" where
  "graph_import table format input_file m = ret_ok m"

section \<open>Rules for the accesses\<close>

text \<open>
  \<open>ends f Q\<close> is a judgement on the outcome of a computation, defined or not. \<open>tab n p s bs m0 m\<close>:
  \<open>n\<close> allocations after \<open>m0\<close>, the table structure \<open>p\<close> has the fields \<open>s\<close> and, besides it, exactly
  the blocks \<open>bs\<close> are allocated.
\<close>

definition ends :: "'a option \<Rightarrow> ('a option \<Rightarrow> bool) \<Rightarrow> bool" where
  "ends f Q \<longleftrightarrow> Q f"

definition tab :: "nat \<Rightarrow> addr \<Rightarrow> (string \<rightharpoonup> val) \<Rightarrow> addr list \<Rightarrow> eng_mem \<Rightarrow> eng_mem \<Rightarrow> bool" where
  "tab n p s bs m0 m \<longleftrightarrow> acquired (p # bs) {} m0 m \<and> p \<noteq> NULL \<and> objs m p = Some (Struct s) \<and>
     ncalls m = ncalls m0 + n \<and> fails m = fails m0"

lemma c_malloc_calls:
  "c_malloc v m = (d, m') \<Longrightarrow> ncalls m' = Suc (ncalls m) \<and> fails m' = fails m"
  by (auto simp: c_malloc_def split: if_splits)

lemma c_malloc_null:
  "wf_mem m \<Longrightarrow> c_malloc v m = (d, m') \<Longrightarrow> d = NULL \<longleftrightarrow> fails m (ncalls m)"
  by (auto simp: c_malloc_def wf_mem_def split: if_splits)

lemma ends_malloc:
  assumes "tab n p s bs m0 m"
    "\<And>d m'. \<lbrakk>tab (Suc n) p s (d # bs) m0 m'; d = NULL \<longleftrightarrow> fails m0 (ncalls m0 + n);
        d \<noteq> NULL \<Longrightarrow> objs m' d = Some v\<rbrakk> \<Longrightarrow> ends (g d m') Q"
  shows "ends (case c_malloc v m of (d, m') \<Rightarrow> g d m') Q"
proof -
  have t: "acquired (p # bs) {} m0 m" "p \<noteq> NULL" "objs m p = Some (Struct s)" "ncalls m = ncalls m0 + n" "fails m = fails m0"
    using assms(1) by (auto simp: tab_def)
  obtain d m' where c: "c_malloc v m = (d, m')" and g: "grow d v m m'"
    using c_malloc_grow [OF acquired_wf [OF t(1)]] .
  have "acquired (p # d # bs) {} m0 m'" using acquired_grow [OF t(1) g] by (simp only: acquired_swap)
  moreover have "objs m' p = Some (Struct s)" using g t(3) by (auto simp: grow_def same_heap_def split: if_splits)
  ultimately have "tab (Suc n) p s (d # bs) m0 m'"
    using t c_malloc_calls [OF c] by (auto simp: tab_def)
  then show ?thesis
    using assms(2) [of d m'] c g t c_malloc_null [OF acquired_wf [OF t(1)] c] by (auto simp: grow_def)
qed

lemma ends_struct:
  assumes "wf_mem m" "ends (h (m\<lparr>ncalls := Suc (ncalls m)\<rparr>)) Q \<or> \<not> fails m (ncalls m)"
    "\<And>p m'. \<lbrakk>tab 1 p Map.empty [] m m'; \<not> fails m (ncalls m)\<rbrakk> \<Longrightarrow> ends (g p m') Q"
  shows "ends (case c_malloc (Struct Map.empty) m of (p, m') \<Rightarrow>
     if p = NULL then h m' else g p m') Q"
proof (cases "fails m (ncalls m)")
  case True
  then show ?thesis using assms(2) by (simp add: c_malloc_def)
next
  case False
  obtain p m' where c: "c_malloc (Struct Map.empty) m = (p, m')" and g: "grow p (Struct Map.empty) m m'"
    using c_malloc_grow [OF assms(1)] .
  have "p \<noteq> NULL" using c_malloc_null [OF assms(1) c] False by simp
  moreover have "tab 1 p Map.empty [] m m'"
    using acquired_grow [OF acquired_refl [OF assms(1)] g] c_malloc_calls [OF c] g \<open>p \<noteq> NULL\<close>
    by (auto simp: tab_def grow_def)
  ultimately show ?thesis using assms(3) False c by simp
qed

lemma tab_put:
  assumes "tab n p s bs m0 m" shows "tab n p s' bs m0 (put p (Struct s') m)"
  using assms acquired_put [of "p # bs" "{}" m0 m p] by (auto simp: tab_def put_def)

lemma e_set_tab: "tab n p s bs m0 m \<Longrightarrow> e_set p f v m = Some (put p (Struct (s(f \<mapsto> v))) m)"
  by (simp add: e_set_def c_load_def tab_def)

lemma ends_set:
  assumes "tab n p s bs m0 m" "\<And>m'. tab n p (s(f \<mapsto> v)) bs m0 m' \<Longrightarrow> ends (g m') Q"
  shows "ends (e_set p f v m \<bind> g) Q"
  using assms(2) [OF tab_put [OF assms(1)]] e_set_tab [OF assms(1)] by simp

lemma tab_old: "tab n p s bs m0 m \<Longrightarrow> objs m0 a = Some v \<Longrightarrow> objs m a = Some v"
  by (auto simp: tab_def dest: acquired_old)

lemma tab_fresh: "tab n p s bs m0 m \<Longrightarrow> objs m0 a = Some v \<Longrightarrow> a \<noteq> p \<and> a \<notin> set bs \<or> a = NULL"
  using acquired_fresh(1) [of "p # bs" "{}" m0 m a] by (auto simp: tab_def)

lemma tab_distinct: "tab n p s bs m0 m \<Longrightarrow> d \<in> set bs \<Longrightarrow> d \<noteq> p"
  by (auto simp: tab_def acquired_def split: if_splits)

section \<open>Paths and fields\<close>

definition named :: "eng_mem \<Rightarrow> addr \<Rightarrow> string \<Rightarrow> bool" where
  "named m a nm \<longleftrightarrow> (\<exists>k. objs m a = Some (Buf k (Some nm)))"

lemma e_str_tab: "tab n p s bs m0 m \<Longrightarrow> named m0 a nm \<Longrightarrow> e_str a m = Some nm"
  by (auto simp: named_def e_str_def c_load_def dest: tab_old)

lemma ends_strdup:
  assumes t: "tab n p s bs m0 m" and nm: "named m0 a nm"
    and k: "\<And>d m'. tab (Suc n) p s (d # bs) m0 m' \<Longrightarrow> ends (g d m') Q"
  shows "ends (e_strdup a m \<bind> (\<lambda>(d, m'). g d m')) Q"
  using ends_malloc [OF t, of "Buf (length nm + 1) (Some nm)" g Q] k e_str_tab [OF t nm]
  by (simp add: e_strdup_def e_strdup_lit_def case_prod_unfold)

lemma ends_strdup_lit:
  assumes t: "tab n p s bs m0 m"
    and k: "\<And>d m'. tab (Suc n) p s (d # bs) m0 m' \<Longrightarrow> ends (g d m') Q"
  shows "ends (case e_strdup_lit lit m of (d, m') \<Rightarrow> g d m') Q"
  unfolding e_strdup_lit_def by (rule ends_malloc [OF t]) (rule k)

lemma ends_strlen:
  assumes "tab n p s bs m0 m" "named m0 a nm" "ends (g (length nm)) Q"
  shows "ends (e_strlen a m \<bind> g) Q"
  using assms e_str_tab [OF assms(1,2)] by (simp add: e_strlen_def)

lemma e_ptr_tab: "tab n p s bs m0 m \<Longrightarrow> s f = Some (VPtr a) \<Longrightarrow> e_ptr p f m = Some a"
  by (simp add: e_ptr_def c_load_def tab_def)

lemma tab_buf:
  assumes "tab n p s bs m0 m" "d \<in> set bs" "d \<noteq> NULL" shows "tab n p s bs m0 (put d v m)"
  using assms acquired_put [of "p # bs" "{}" m0 m d] tab_distinct [OF assms(1,2)]
  by (auto simp: tab_def put_def)

text \<open>
  A path buffer: when its allocation fails, printing into it is undefined; otherwise the path fits
  exactly.
\<close>

lemma ends_path:
  assumes t: "tab n p s bs m0 m" and nm: "named m0 name nm" and len: "base_len = length pre + length nm"
    and bad: "fails m0 (ncalls m0 + n) \<Longrightarrow> ends None Q"
    and good: "\<And>d m'. \<lbrakk>tab (Suc n) p (s(f \<mapsto> VPtr d)) (d # bs) m0 m'; \<not> fails m0 (ncalls m0 + n)\<rbrakk> \<Longrightarrow> ends (g m') Q"
  shows "ends (e_path_file p f base_len pre name ext m \<bind> g) Q"
proof -
  have "ends (case c_malloc (Buf (base_len + length ext + 1) None) m of (b, m) \<Rightarrow>
      (e_set p f (VPtr b) m \<bind> (\<lambda>m. e_ptr p f m \<bind> (\<lambda>b. e_sprintf b pre name ext m))) \<bind> g) Q"
  proof (rule ends_malloc [OF t])
    fix d m' assume t': "tab (Suc n) p s (d # bs) m0 m'" and d: "(d = NULL) = fails m0 (ncalls m0 + n)"
      and o: "d \<noteq> NULL \<Longrightarrow> objs m' d = Some (Buf (base_len + length ext + 1) None)"
    let ?m = "put p (Struct (s(f \<mapsto> VPtr d))) m'"
    note t2 = tab_put [OF t', of "s(f \<mapsto> VPtr d)"]
    have e: "e_set p f (VPtr d) m' = Some ?m" "e_ptr p f ?m = Some d" "e_str name ?m = Some nm"
      using e_set_tab [OF t'] e_ptr_tab [OF t2, of f] e_str_tab [OF t2 nm] by simp_all
    show "ends ((e_set p f (VPtr d) m' \<bind> (\<lambda>m. e_ptr p f m \<bind> (\<lambda>b. e_sprintf b pre name ext m))) \<bind> g) Q"
    proof (cases "d = NULL")
      case True
      have "objs ?m NULL = None"
        using t2 wf_objs_NULL(1) [OF acquired_wf [of _ _ m0 ?m]] unfolding tab_def by blast
      then show ?thesis using True bad d e by (simp add: e_sprintf_def c_load_def)
    next
      case False
      have b: "objs ?m d = Some (Buf (base_len + length ext + 1) None)"
        using o [OF False] tab_distinct [OF t', of d] by simp
      note t3 = tab_buf [OF t2, of d "Buf (base_len + length ext + 1) (Some (pre @ nm @ ext))"]
      show ?thesis using b e False len d good [OF t3]
        by (simp add: e_sprintf_def c_load_def del: put_put)
    qed
  qed
  then show ?thesis by (simp add: e_path_file_def case_prod_unfold Let_def)
qed

lemma ends_free_field:
  assumes t: "tab n p s bs m0 m" and f: "s f = Some (VPtr d)" and d: "mset bs = add_mset d (mset bs')"
    and k: "\<And>m'. tab n p s bs' m0 m' \<Longrightarrow> ends (g m') Q"
  shows "ends (e_free_field p f m \<bind> g) Q"
proof -
  have "d \<in> set bs" using mset_eq_setD [of bs "d # bs'"] d by simp
  then have "d \<noteq> p" using tab_distinct [OF t] by blast
  have "acquired (d # p # bs') {} m0 m"
    using t acquired_mset [of "p # bs" "d # p # bs'" "{}" m0 m] d by (simp add: tab_def)
  from acquired_del [OF this] have "tab n p s bs' m0 (del d m)"
    using t \<open>d \<noteq> p\<close> by (auto simp: tab_def del_def)
  moreover have "d = NULL \<or> dyn m d"
    using t \<open>d \<in> set bs\<close> acquired_dyn [of "p # bs" "{}" m0 m d] by (auto simp: tab_def)
  ultimately show ?thesis using k e_ptr_tab [OF t f] by (simp add: e_free_field_def)
qed

lemma ends_free_table:
  assumes "tab n p s [] m0 m" "\<And>m'. same_heap m0 m' \<Longrightarrow> ends (g m') Q"
  shows "ends (c_free p m \<bind> g) Q"
proof -
  have a: "acquired [p] {} m0 m" using assms(1) by (simp add: tab_def)
  then have "dyn m p" using assms(1) acquired_dyn [OF a, of p] by (auto simp: tab_def)
  then show ?thesis using assms(2) [OF acquired_Nil [OF acquired_del [OF a]]] by simp
qed


section \<open>Outcomes of the create functions\<close>

text \<open>
  \<open>create_outcome ks m r\<close>: without memory for the table structure the call reports it; if one of the
  allocations \<open>ks\<close> (counted from the structure) fails the call is undefined; otherwise it succeeds.
  In both defined cases the heap is left as it was.
\<close>

definition create_outcome :: "nat list \<Rightarrow> eng_mem \<Rightarrow> (EpiphanyDBError \<times> eng_mem) option \<Rightarrow> bool" where
  "create_outcome ks m r =
     (if fails m (ncalls m) then (\<exists>m'. r = Some (EPIPHANYDB_ERROR_MEMORY, m') \<and> same_heap m m')
      else if list_ex (\<lambda>k. fails m (ncalls m + k)) ks then r = None
      else (\<exists>m'. r = Some (EPIPHANYDB_SUCCESS, m') \<and> same_heap m m'))"

lemma create_outcome_oom:
  "ends (Some (EPIPHANYDB_ERROR_MEMORY, m\<lparr>ncalls := Suc (ncalls m)\<rparr>)) (create_outcome ks m) \<or> \<not> fails m (ncalls m)"
  by (auto simp: ends_def create_outcome_def same_heap_def)

lemma create_outcome_ok:
  "\<lbrakk>\<not> fails m (ncalls m); \<not> list_ex (\<lambda>k. fails m (ncalls m + k)) ks; same_heap m m'\<rbrakk> \<Longrightarrow>
   ends (Some (EPIPHANYDB_SUCCESS, m')) (create_outcome ks m)"
  by (auto simp: ends_def create_outcome_def)

lemma create_outcome_undefined:
  "\<lbrakk>\<not> fails m (ncalls m); list_ex (\<lambda>k. fails m (ncalls m + k)) ks\<rbrakk> \<Longrightarrow> ends None (create_outcome ks m)"
  by (auto simp: ends_def create_outcome_def)

text \<open>
  The three operations with path buffers run the same three phases: the fields, the paths, the
  frees. The frees take the blocks in an order of their own.
\<close>

lemma columnar_create_table_outcome:
  assumes "wf_mem m" "named m name nm"
  shows "ends (columnar_create_table ctx name sch m) (create_outcome [] m)"
  unfolding columnar_create_table_def Let_def
  apply (rule ends_struct [OF assms(1)], rule create_outcome_oom)
  apply (erule ends_strdup [OF _ assms(2)])
  apply (erule ends_set)+
  apply (erule ends_free_field [where bs' = "[]"], simp, simp)
  apply (erule ends_free_table)
  apply (rule create_outcome_ok, simp_all)
  done

lemma vector_create_table_outcome:
  assumes "wf_mem m" "named m name nm"
  shows "ends (vector_create_table ctx name sch m) (create_outcome [3, 4, 5] m)"
  unfolding vector_create_table_def Let_def
  apply (rule ends_struct [OF assms(1)], rule create_outcome_oom)
  apply (erule ends_strdup [OF _ assms(2)])
  apply (erule ends_set)+
  apply (erule ends_strdup_lit)
  apply (erule ends_set)+
  apply (rule ends_strlen [OF _ assms(2)], assumption)
  apply (erule ends_path [OF _ assms(2)], simp, rule create_outcome_undefined, simp, simp add: eval_nat_numeral)+
  subgoal for p m1 s m2 m3 m4 m5 c m6 m7 v m8 i m9 x m10
    apply (erule ends_free_field [where bs' = "[x, i, v, c]"], simp, simp)
    apply (erule ends_free_field [where bs' = "[x, i, c]"], simp, simp)
    apply (erule ends_free_field [where bs' = "[x, c]"], simp, simp)
    apply (erule ends_free_field [where bs' = "[c]"], simp, simp)
    apply (erule ends_free_field [where bs' = "[]"], simp, simp)
    apply (erule ends_free_table)
    apply (rule create_outcome_ok, simp_all add: eval_nat_numeral)
    done
  done

lemma timeseries_create_table_outcome:
  assumes "wf_mem m" "named m name nm"
  shows "ends (timeseries_create_table ctx name sch m) (create_outcome [2, 3] m)"
  unfolding timeseries_create_table_def Let_def
  apply (rule ends_struct [OF assms(1)], rule create_outcome_oom)
  apply (erule ends_strdup [OF _ assms(2)])
  apply (erule ends_set)+
  apply (rule ends_strlen [OF _ assms(2)], assumption)
  apply (erule ends_path [OF _ assms(2)], simp, rule create_outcome_undefined, simp, simp add: eval_nat_numeral)+
  subgoal for p m1 s m2 m3 m4 m5 m6 m7 d m8 x m9
    apply (erule ends_free_field [where bs' = "[x, d]"], simp, simp)
    apply (erule ends_free_field [where bs' = "[x]"], simp, simp)
    apply (erule ends_free_field [where bs' = "[]"], simp, simp)
    apply (erule ends_free_table)
    apply (rule create_outcome_ok, simp_all add: eval_nat_numeral)
    done
  done

lemma graph_create_table_outcome:
  assumes "wf_mem m" "named m name nm"
  shows "ends (graph_create_table ctx name sch m) (create_outcome [2, 3, 4, 5] m)"
  unfolding graph_create_table_def Let_def
  apply (rule ends_struct [OF assms(1)], rule create_outcome_oom)
  apply (erule ends_strdup [OF _ assms(2)])
  apply (erule ends_set)+
  apply (rule ends_strlen [OF _ assms(2)], assumption)
  apply (erule ends_path [OF _ assms(2)], simp, rule create_outcome_undefined, simp, simp add: eval_nat_numeral)+
  subgoal for p m1 s m2 m3 m4 m5 m6 v m7 e m8 q m9 x m10
    apply (erule ends_free_field [where bs' = "[x, q, e, v]"], simp, simp)
    apply (erule ends_free_field [where bs' = "[x, q, e]"], simp, simp)
    apply (erule ends_free_field [where bs' = "[x, q]"], simp, simp)
    apply (erule ends_free_field [where bs' = "[x]"], simp, simp)
    apply (erule ends_free_field [where bs' = "[]"], simp, simp)
    apply (erule ends_free_table)
    apply (rule create_outcome_ok, simp_all add: eval_nat_numeral)
    done
  done

section \<open>The file of a heap table\<close>

definition heap_path :: "string \<Rightarrow> string" where
  "heap_path nm = ''./data/heap/'' @ nm @ ''.heap''"

definition heap_outcome :: "string \<Rightarrow> eng_state \<Rightarrow> (EpiphanyDBError \<times> eng_state) option \<Rightarrow> bool" where
  "heap_outcome nm st r =
     (let m = emem st;
          ends_with = (\<lambda>code fs. \<exists>st'. r = Some (code, st') \<and> same_heap m (emem st') \<and> files st' = fs) in
      if fails m (ncalls m) then ends_with EPIPHANYDB_ERROR_MEMORY (files st)
      else if fails m (ncalls m + 2) then r = None
      else if fopen_fails st (heap_path nm) then ends_with EPIPHANYDB_ERROR_IO (files st)
      else ends_with EPIPHANYDB_SUCCESS (heap_path nm # files st))"

lemma ends_snprintf:
  assumes t: "tab n p s bs m0 m" and nm: "named m0 name nm" and d: "d \<noteq> NULL \<Longrightarrow> d \<in> set bs \<and> objs m d = Some (Buf (Suc (length (pre @ nm @ ext))) None)"
    and bad: "d = NULL \<Longrightarrow> ends None Q"
    and good: "\<And>m'. \<lbrakk>d \<noteq> NULL; tab n p s bs m0 m'; e_str d m' = Some (pre @ nm @ ext)\<rbrakk> \<Longrightarrow> ends (g m') Q"
  shows "ends (e_snprintf d (Suc (length (pre @ nm @ ext))) pre name ext m \<bind> g) Q"
proof (cases "d = NULL")
  case True
  have "objs m NULL = None" using t wf_objs_NULL(1) [OF acquired_wf [of _ _ m0 m]] unfolding tab_def by blast
  then show ?thesis using True bad e_str_tab [OF t nm] by (simp add: e_snprintf_def c_load_def)
next
  case False
  note d' = d [OF False]
  let ?m = "put d (Buf (Suc (length (pre @ nm @ ext))) (Some (pre @ nm @ ext))) m"
  have "tab n p s bs m0 ?m" using tab_buf [OF t] d' False by blast
  moreover have "e_str d ?m = Some (pre @ nm @ ext)" by (simp add: e_str_def c_load_def)
  ultimately show ?thesis using good [OF False, of ?m] d' e_str_tab [OF t nm] by (simp add: e_snprintf_def c_load_def)
qed

lemma ends_fopen:
  assumes t: "tab n p s bs m0 m" and path: "e_str b m = Some q"
    and bad: "fopen_fails st q \<Longrightarrow> ends (g NULL (st\<lparr>emem := m\<rparr>)) Q"
    and good: "\<And>f m'. \<lbrakk>\<not> fopen_fails st q; f \<noteq> NULL; tab n p s (f # bs) m0 m'; objs m' f = Some (FileObj q)\<rbrakk> \<Longrightarrow>
       ends (g f (st\<lparr>emem := m', files := q # files st\<rparr>)) Q"
  shows "ends (e_fopen b (st\<lparr>emem := m\<rparr>) \<bind> (\<lambda>(f, st). g f st)) Q"
proof (cases "fopen_fails st q")
  case False
  let ?m = "m\<lparr>objs := (objs m)(brk m \<mapsto> FileObj q), dyn := (dyn m)(brk m := True), brk := Suc (brk m)\<rparr>"
  have a: "acquired (p # bs) {} m0 m" and w: "wf_mem m" using t by (auto simp: tab_def dest: acquired_wf)
  then have g: "grow (brk m) (FileObj q) m ?m" and nz: "brk m \<noteq> NULL" by (auto simp: grow_def wf_mem_def)
  have "tab n p s (brk m # bs) m0 ?m"
    using acquired_grow [OF a g] t g nz by (auto simp: tab_def acquired_swap grow_def split: if_splits)
  then show ?thesis using good [of "brk m" ?m] False path nz by (simp add: e_fopen_def Let_def)
qed (use bad path in \<open>simp add: e_fopen_def\<close>)

lemma ends_fclose:
  assumes t: "tab n p s bs m0 m" and f: "s fl = Some (VPtr f)" and o: "objs m f = Some (FileObj q)"
    and d: "mset bs = add_mset f (mset bs')" and k: "\<And>m'. tab n p s bs' m0 m' \<Longrightarrow> ends (g m') Q"
  shows "ends (e_ptr p fl m \<bind> (\<lambda>f. e_fclose f m \<bind> g)) Q"
  using ends_free_field [OF t f d k] o e_ptr_tab [OF t f] by (simp add: e_free_field_def e_fclose_def c_load_def)

lemma ends_set_keep:
  assumes t: "tab n p s bs m0 m" and d: "d \<noteq> NULL \<Longrightarrow> objs m d = Some w" and i: "d \<in> set bs"
    and k: "\<And>m'. \<lbrakk>tab n p (s(f \<mapsto> v)) bs m0 m'; d \<noteq> NULL \<Longrightarrow> objs m' d = Some w\<rbrakk> \<Longrightarrow> ends (g m') Q"
  shows "ends (e_set p f v m \<bind> g) Q"
  using k [OF tab_put [OF t]] e_set_tab [OF t] d tab_distinct [OF t i] by simp

lemma st_emem:
  "emem (st\<lparr>emem := m\<rparr>) = m" "emem (st\<lparr>emem := m, files := fs\<rparr>) = m"
  "st\<lparr>emem := m, emem := m'\<rparr> = st\<lparr>emem := m'\<rparr>"
  "st\<lparr>emem := m, files := fs, emem := m'\<rparr> = st\<lparr>emem := m', files := fs\<rparr>"
  by simp_all

lemma ends_ptr:
  assumes "tab n p s bs m0 m" "s f = Some (VPtr a)" "ends (g a) Q"
  shows "ends (e_ptr p f m \<bind> g) Q"
  using assms e_ptr_tab [OF assms(1,2)] by simp

lemma heap_outcome_oom:
  "ends (Some (EPIPHANYDB_ERROR_MEMORY, st\<lparr>emem := (emem st)\<lparr>ncalls := Suc (ncalls (emem st))\<rparr>\<rparr>)) (heap_outcome nm st) \<or>
   \<not> fails (emem st) (ncalls (emem st))"
  by (simp add: heap_outcome_def Let_def ends_def same_heap_def)

lemma heap_create_file_outcome:
  assumes t: "tab n p [''table_name'' \<mapsto> VPtr s, ''file_path'' \<mapsto> VPtr b] [b, s] (emem st) m"
    and path: "e_str b m = Some (heap_path nm)"
    and ok: "\<not> fails (emem st) (ncalls (emem st))" "\<not> fails (emem st) (ncalls (emem st) + 2)"
  shows "ends (heap_create_file p (st\<lparr>emem := m\<rparr>)) (heap_outcome nm st)"
proof -
  have io: "fopen_fails st (heap_path nm) \<Longrightarrow> same_heap (emem st) m' \<Longrightarrow>
      ends (Some (EPIPHANYDB_ERROR_IO, st\<lparr>emem := m'\<rparr>)) (heap_outcome nm st)" for m'
    using ok by (auto simp: ends_def heap_outcome_def Let_def)
  have su: "\<not> fopen_fails st (heap_path nm) \<Longrightarrow> same_heap (emem st) m' \<Longrightarrow>
      ends (Some (EPIPHANYDB_SUCCESS, st\<lparr>emem := m', files := heap_path nm # files st\<rparr>)) (heap_outcome nm st)" for m'
    using ok by (auto simp: ends_def heap_outcome_def Let_def)
  show ?thesis
    unfolding heap_create_file_def
    apply (simp only: st_emem)
    apply (rule ends_ptr [OF t, where a = b], simp)
    apply (rule ends_fopen [OF t path])
     apply (simp only: if_True st_emem simp_thms)
     apply (rule ends_set [OF t])
     apply (erule ends_free_field [where bs' = "[b]"], simp, simp)
     apply (erule ends_free_field [where bs' = "[]"], simp, simp)
     apply (erule ends_free_table, erule (1) io)
    apply (simp only: if_False st_emem simp_thms)
    subgoal for f m'
      apply (erule ends_set_keep [where d = f and w = "FileObj (heap_path nm)"], simp, simp)+
      apply (erule ends_fclose [where bs' = "[b, s]" and f = f], simp, simp, simp)
      apply (erule ends_set)
      apply (erule ends_free_field [where bs' = "[b]"], simp, simp)
      apply (erule ends_free_field [where bs' = "[]"], simp, simp)
      apply (erule ends_free_table, erule (1) su)
      done
    done
qed

lemma heap_create_table_outcome:
  assumes "wf_mem (emem st)" "named (emem st) name nm"
  shows "ends (heap_create_table ctx name sch st) (heap_outcome nm st)"
proof -
  have len: "length ''./data/heap/'' + length nm + length ''.heap'' + 1 = Suc (length (''./data/heap/'' @ nm @ ''.heap''))"
    by simp
  show ?thesis
    unfolding heap_create_table_def Let_def
    apply (rule ends_struct [OF assms(1)], rule heap_outcome_oom)
    apply (erule ends_strdup [OF _ assms(2)])
    apply (erule ends_set)
    apply (rule ends_strlen [OF _ assms(2)], assumption)
    apply (simp only: len)
    apply (erule ends_malloc)
    subgoal for p m1 s m2 m3 b m4
      apply (erule ends_set_keep [where d = b and w = "Buf (Suc (length (''./data/heap/'' @ nm @ ''.heap''))) None"], simp, simp)
      apply (rule ends_ptr [where a = b], assumption, simp)
      apply (erule ends_snprintf [OF _ assms(2)])
        apply simp
       apply (simp add: ends_def heap_outcome_def)
      apply (erule heap_create_file_outcome)
        apply (simp_all add: heap_path_def)
      done
    done
qed

section \<open>Initialisation\<close>

definition init_outcome :: "eng_mem \<Rightarrow> (EpiphanyDBError \<times> eng_mem) option \<Rightarrow> bool" where
  "init_outcome m r =
     (if fails m (ncalls m) then (\<exists>m'. r = Some (EPIPHANYDB_ERROR_MEMORY, m') \<and> same_heap m m')
      else (\<exists>m' n p s bs. r = Some (EPIPHANYDB_SUCCESS, m') \<and> tab n p s bs m m'))"

lemma init_outcome_oom:
  "ends (Some (EPIPHANYDB_ERROR_MEMORY, m\<lparr>ncalls := Suc (ncalls m)\<rparr>)) (init_outcome m) \<or> \<not> fails m (ncalls m)"
  by (auto simp: ends_def init_outcome_def same_heap_def)

lemma init_outcome_ok:
  "\<not> fails m (ncalls m) \<Longrightarrow> tab n p s bs m m' \<Longrightarrow> ends (Some (EPIPHANYDB_SUCCESS, m')) (init_outcome m)"
  by (auto simp: ends_def init_outcome_def)

text \<open>The engines as pairs of their initialisation and cleanup.\<close>

definition engine_lifecycles ::
  "((addr \<Rightarrow> eng_mem \<Rightarrow> (EpiphanyDBError \<times> eng_mem) option) \<times> (addr \<Rightarrow> eng_mem \<Rightarrow> (EpiphanyDBError \<times> eng_mem) option)) list" where
  "engine_lifecycles =
     [(heap_storage_init, heap_storage_cleanup), (columnar_storage_init, columnar_storage_cleanup),
      (vector_storage_init, vector_storage_cleanup), (timeseries_storage_init, timeseries_storage_cleanup),
      (graph_storage_init, graph_storage_cleanup)]"

lemma engine_init_outcome:
  assumes "wf_mem m" "(ini, cln) \<in> set engine_lifecycles"
  shows "ends (ini ctx m) (init_outcome m)"
proof -
  have "ends (heap_storage_init ctx m) (init_outcome m)" "ends (columnar_storage_init ctx m) (init_outcome m)"
    "ends (vector_storage_init ctx m) (init_outcome m)" "ends (timeseries_storage_init ctx m) (init_outcome m)"
    "ends (graph_storage_init ctx m) (init_outcome m)"
    unfolding heap_storage_init_def columnar_storage_init_def vector_storage_init_def
      timeseries_storage_init_def graph_storage_init_def Let_def
    by ((rule ends_struct [OF assms(1)], rule init_outcome_oom),
        ((erule ends_strdup_lit | erule ends_set)+, erule (1) init_outcome_ok))+
  then show ?thesis using assms(2) by (auto simp: engine_lifecycles_def)
qed

lemma engine_cleanup_nothing: "(ini, cln) \<in> set engine_lifecycles \<Longrightarrow> cln ctx m = Some (EPIPHANYDB_SUCCESS, m)"
  by (auto simp: engine_lifecycles_def heap_storage_cleanup_def columnar_storage_cleanup_def
      vector_storage_cleanup_def timeseries_storage_cleanup_def graph_storage_cleanup_def ret_ok_def)

section \<open>Properties\<close>

text \<open>
  C7: the outcome of \<open>heap_create_table\<close> for every behaviour of the allocator and of \<open>fopen\<close>. When
  the structure cannot be allocated it reports so; when the buffer for the path cannot, the printing
  into it is undefined, as the allocation is not checked; when the file cannot be opened it reports
  an I/O error; otherwise it has created the file of the table, and no other. Whenever it returns,
  every block and the file handle are given back: the path fits its buffer and nothing leaks.
\<close>

theorem heap_create_table_file:
  assumes "wf_mem (emem st)" "objs (emem st) name = Some (Buf k (Some nm))"
  shows "heap_outcome nm st (heap_create_table ctx name sch st)"
  using heap_create_table_outcome [of st name nm ctx sch] assms by (auto simp: ends_def named_def)

definition demo_eng :: eng_mem where
  "demo_eng = \<lparr>objs = [1 \<mapsto> Buf 4 (Some ''abc'')], dyn = (\<lambda>_. False), brk = 2, fails = (\<lambda>k. k = 4), ncalls = 0\<rparr>"

lemma demo_eng_wf: "wf_mem demo_eng" by (simp add: demo_eng_def wf_mem_def)

theorem heap_create_table_file_witness:
  "heap_outcome ''abc'' \<lparr>emem = demo_eng, fopen_fails = (\<lambda>_. False), files = []\<rparr>
     (heap_create_table 0 1 0 \<lparr>emem = demo_eng, fopen_fails = (\<lambda>_. False), files = []\<rparr>)"
  by (rule heap_create_table_file [where k = 4]) (simp_all add: demo_eng_wf, simp add: demo_eng_def)

text \<open>
  C8: the outcome of \<open>create_table\<close> of the other engines for every behaviour of the allocator. The
  allocations whose failure is harmless are the copies of strings; those of the path buffers (the
  numbers listed, counted from the structure) are printed into without a check, so the call is
  undefined exactly when one of them fails. In every other case the call returns, each path fits its
  buffer exactly, and the heap is as before.
\<close>

theorem engine_create_table:
  assumes "wf_mem m" "objs m name = Some (Buf k (Some nm))"
  shows "create_outcome [] m (columnar_create_table ctx name sch m) \<and>
         create_outcome [3, 4, 5] m (vector_create_table ctx name sch m) \<and>
         create_outcome [2, 3] m (timeseries_create_table ctx name sch m) \<and>
         create_outcome [2, 3, 4, 5] m (graph_create_table ctx name sch m)"
proof -
  have "named m name nm" using assms(2) by (auto simp: named_def)
  then show ?thesis
    using columnar_create_table_outcome vector_create_table_outcome timeseries_create_table_outcome
      graph_create_table_outcome assms(1) unfolding ends_def by blast
qed

theorem engine_create_table_witness:
  "create_outcome [] demo_eng (columnar_create_table 0 1 0 demo_eng) \<and>
   vector_create_table 0 1 0 demo_eng = None \<and> graph_create_table 0 1 0 demo_eng = None \<and>
   (\<exists>m'. timeseries_create_table 0 1 0 demo_eng = Some (EPIPHANYDB_SUCCESS, m') \<and> same_heap demo_eng m')"
proof -
  have o: "objs demo_eng 1 = Some (Buf 4 (Some ''abc''))" by (simp add: demo_eng_def)
  have f: "fails demo_eng = (\<lambda>k. k = 4)" "ncalls demo_eng = 0" by (simp_all add: demo_eng_def)
  from engine_create_table [OF demo_eng_wf o, of 0 0] show ?thesis by (simp add: create_outcome_def f)
qed

text \<open>
  C9: the initialisation of an engine leaks. When it succeeds it has allocated a context that was not
  there before, no object that existed has changed, so no pointer to the context is stored anywhere,
  and the cleanup of the engine leaves it allocated.
\<close>

theorem engine_init_leaks:
  assumes "wf_mem m" "(ini, cln) \<in> set engine_lifecycles" "\<not> fails m (ncalls m)"
  shows "\<exists>m1 p. ini ctx m = Some (EPIPHANYDB_SUCCESS, m1) \<and>
     objs m \<subseteq>\<^sub>m objs m1 \<and>
     \<not> dyn m p \<and> dyn m1 p \<and> cln ctx m1 = Some (EPIPHANYDB_SUCCESS, m1)"
proof -
  from engine_init_outcome [OF assms(1,2), of ctx] assms(3) obtain m1 n p s bs
    where r: "ini ctx m = Some (EPIPHANYDB_SUCCESS, m1)" and t: "tab n p s bs m m1"
    by (auto simp: ends_def init_outcome_def)
  have "\<not> dyn m p" "dyn m1 p"
    using t acquired_fresh(2) [of "p # bs" "{}" m m1 p] acquired_dyn [of "p # bs" "{}" m m1 p] by (auto simp: tab_def)
  moreover have "objs m \<subseteq>\<^sub>m objs m1" using tab_old [OF t] by (auto simp: map_le_def dom_def)
  ultimately show ?thesis using r engine_cleanup_nothing [OF assms(2)] by blast
qed

theorem engine_init_leaks_witness:
  "\<exists>m1 p. graph_storage_init 0 demo_eng = Some (EPIPHANYDB_SUCCESS, m1) \<and>
     objs demo_eng \<subseteq>\<^sub>m objs m1 \<and>
     \<not> dyn demo_eng p \<and> dyn m1 p \<and> graph_storage_cleanup 0 m1 = Some (EPIPHANYDB_SUCCESS, m1)"
  by (rule engine_init_leaks [OF demo_eng_wf]) (simp_all add: engine_lifecycles_def demo_eng_def)

end
