(* ===== verification/VectorMath.thy ===== *)
theory VectorMath
  imports Prelude
begin

text \<open>
  The distance functions of the vector engine (\<open>src/storage/vector_storage.c\<close>) over IEEE 754
  binary32 arithmetic with rounding to nearest, ties to even. Every finite binary32 number is a
  multiple of \<open>2^-149\<close>, so a finite number is a sign and a magnitude counted in these units; the
  bits of a NaN are not distinguished. An array is the list of its elements, and reading beyond it
  is undefined.
\<close>

section \<open>Rounding\<close>

fun bitlen :: "nat \<Rightarrow> nat" where
  "bitlen n = (if n = 0 then 0 else Suc (bitlen (n div 2)))"

declare bitlen.simps [simp del]

text \<open>
  \<open>rnd f N\<close> rounds \<open>N / 2^f\<close> units to a multiple of a power of two with at most 24 significant
  bits: \<open>sh\<close> low bits of \<open>N\<close> are dropped.
\<close>

definition drop_bits :: "nat \<Rightarrow> nat \<Rightarrow> nat" where
  "drop_bits f N = max f (bitlen N - 24)"

definition rnd :: "nat \<Rightarrow> nat \<Rightarrow> nat" where
  "rnd f N = (let sh = drop_bits f N; q = N div 2 ^ sh; r = N mod 2 ^ sh in
     (if 2 ^ sh < 2 * r \<or> (2 * r = 2 ^ sh \<and> odd q) then q + 1 else q) * 2 ^ (sh - f))"

fun isqrt :: "nat \<Rightarrow> nat" where
  "isqrt n = (if n = 0 then 0 else
     let r = 2 * isqrt (n div 4) in if (r + 1) * (r + 1) \<le> n then r + 1 else r)"

declare isqrt.simps [simp del]

section \<open>Operations\<close>

datatype float32 = NaN | Inf bool | Fin bool nat

definition fround :: "bool \<Rightarrow> nat \<Rightarrow> nat \<Rightarrow> float32" where
  "fround s f N = (let u = rnd f N in if 2 ^ 277 \<le> u then Inf s else Fin s u)"

definition units :: "bool \<Rightarrow> nat \<Rightarrow> int" where
  "units s k = (if s then - int k else int k)"

fun fneg :: "float32 \<Rightarrow> float32" where
  "fneg NaN = NaN"
| "fneg (Inf s) = Inf (\<not> s)"
| "fneg (Fin s k) = Fin (\<not> s) k"

fun fabsf :: "float32 \<Rightarrow> float32" where
  "fabsf NaN = NaN"
| "fabsf (Inf s) = Inf False"
| "fabsf (Fin s k) = Fin False k"

fun fadd :: "float32 \<Rightarrow> float32 \<Rightarrow> float32" where
  "fadd (Inf s) (Inf t) = (if s = t then Inf s else NaN)"
| "fadd (Inf s) (Fin t k) = Inf s"
| "fadd (Fin s j) (Inf t) = Inf t"
| "fadd (Fin s j) (Fin t k) =
     (let x = units s j + units t k in
      if x = 0 then Fin (s \<and> t) 0 else fround (x < 0) 0 (nat \<bar>x\<bar>))"
| "fadd _ _ = NaN"

definition fsub :: "float32 \<Rightarrow> float32 \<Rightarrow> float32" where
  "fsub x y = fadd x (fneg y)"

fun fmul :: "float32 \<Rightarrow> float32 \<Rightarrow> float32" where
  "fmul (Inf s) (Inf t) = Inf (s \<noteq> t)"
| "fmul (Inf s) (Fin t k) = (if k = 0 then NaN else Inf (s \<noteq> t))"
| "fmul (Fin s j) (Inf t) = (if j = 0 then NaN else Inf (s \<noteq> t))"
| "fmul (Fin s j) (Fin t k) = fround (s \<noteq> t) 149 (j * k)"
| "fmul _ _ = NaN"

text \<open>
  Division and square root are computed with two further bits and a last bit that records whether
  anything was cut off.
\<close>

fun fdiv :: "float32 \<Rightarrow> float32 \<Rightarrow> float32" where
  "fdiv (Inf s) (Fin t k) = Inf (s \<noteq> t)"
| "fdiv (Fin s j) (Inf t) = Fin (s \<noteq> t) 0"
| "fdiv (Fin s j) (Fin t k) =
     (if k = 0 then (if j = 0 then NaN else Inf (s \<noteq> t))
      else let N = j * 2 ^ 151 in
        fround (s \<noteq> t) 3 (2 * (N div k) + (if N mod k = 0 then 0 else 1)))"
| "fdiv _ _ = NaN"

fun sqrtf :: "float32 \<Rightarrow> float32" where
  "sqrtf (Inf False) = Inf False"
| "sqrtf (Fin s j) =
     (if j = 0 then Fin s 0
      else if s then NaN
      else let N = j * 2 ^ 153; r = isqrt N in
        fround False 3 (2 * r + (if r * r = N then 0 else 1)))"
| "sqrtf _ = NaN"

text \<open>The comparison \<open>x == 0.0f\<close> and the constant itself.\<close>

definition fzero :: float32 where "fzero = Fin False 0"

fun is_fzero :: "float32 \<Rightarrow> bool" where
  "is_fzero (Fin s k) = (k = 0)"
| "is_fzero _ = False"

section \<open>The distance functions\<close>

definition elem :: "float32 list \<Rightarrow> nat \<Rightarrow> float32 option" where
  "elem v i = (if i < length v then Some (v ! i) else None)"

function cosine_loop :: "float32 list \<Rightarrow> float32 list \<Rightarrow> nat \<Rightarrow> nat \<Rightarrow> float32 \<Rightarrow> float32 \<Rightarrow> float32 \<Rightarrow>
    (float32 \<times> float32 \<times> float32) option" where
  "cosine_loop vec1 vec2 dimension i dot_product norm1 norm2 =
     (if i < dimension then do {
        a \<leftarrow> elem vec1 i;
        b \<leftarrow> elem vec2 i;
        cosine_loop vec1 vec2 dimension (i + 1) (fadd dot_product (fmul a b))
          (fadd norm1 (fmul a a)) (fadd norm2 (fmul b b))
      } else Some (dot_product, norm1, norm2))"
  by pat_completeness auto
termination by (relation "measure (\<lambda>(_, _, dimension, i, _). dimension - i)") auto

definition vector_cosine_similarity :: "float32 list \<Rightarrow> float32 list \<Rightarrow> nat \<Rightarrow> float32 option" where
  "vector_cosine_similarity vec1 vec2 dimension = do {
     (dot_product, norm1, norm2) \<leftarrow> cosine_loop vec1 vec2 dimension 0 fzero fzero fzero;
     if is_fzero norm1 \<or> is_fzero norm2 then Some fzero
     else Some (fdiv dot_product (fmul (sqrtf norm1) (sqrtf norm2)))
   }"

function euclidean_loop :: "float32 list \<Rightarrow> float32 list \<Rightarrow> nat \<Rightarrow> nat \<Rightarrow> float32 \<Rightarrow> float32 option" where
  "euclidean_loop vec1 vec2 dimension i sm =
     (if i < dimension then do {
        a \<leftarrow> elem vec1 i;
        b \<leftarrow> elem vec2 i;
        let diff = fsub a b;
        euclidean_loop vec1 vec2 dimension (i + 1) (fadd sm (fmul diff diff))
      } else Some sm)"
  by pat_completeness auto
termination by (relation "measure (\<lambda>(_, _, dimension, i, _). dimension - i)") auto

definition vector_euclidean_distance :: "float32 list \<Rightarrow> float32 list \<Rightarrow> nat \<Rightarrow> float32 option" where
  "vector_euclidean_distance vec1 vec2 dimension = do {
     sm \<leftarrow> euclidean_loop vec1 vec2 dimension 0 fzero;
     Some (sqrtf sm)
   }"

function manhattan_loop :: "float32 list \<Rightarrow> float32 list \<Rightarrow> nat \<Rightarrow> nat \<Rightarrow> float32 \<Rightarrow> float32 option" where
  "manhattan_loop vec1 vec2 dimension i sm =
     (if i < dimension then do {
        a \<leftarrow> elem vec1 i;
        b \<leftarrow> elem vec2 i;
        manhattan_loop vec1 vec2 dimension (i + 1) (fadd sm (fabsf (fsub a b)))
      } else Some sm)"
  by pat_completeness auto
termination by (relation "measure (\<lambda>(_, _, dimension, i, _). dimension - i)") auto

definition vector_manhattan_distance :: "float32 list \<Rightarrow> float32 list \<Rightarrow> nat \<Rightarrow> float32 option" where
  "vector_manhattan_distance vec1 vec2 dimension = manhattan_loop vec1 vec2 dimension 0 fzero"

declare cosine_loop.simps [simp del] euclidean_loop.simps [simp del] manhattan_loop.simps [simp del]

section \<open>Rounding to nearest\<close>

lemma bitlen_bounds: "N < 2 ^ bitlen N \<and> (0 < N \<longrightarrow> 2 ^ (bitlen N - 1) \<le> N)"
proof (induction N rule: bitlen.induct)
  case (1 n)
  show ?case
  proof (cases "n = 0")
    case False
    with 1 have *: "n div 2 < 2 ^ bitlen (n div 2)" "0 < n div 2 \<longrightarrow> 2 ^ (bitlen (n div 2) - 1) \<le> n div 2" by auto
    have b: "bitlen n = Suc (bitlen (n div 2))" using False by (simp add: bitlen.simps)
    have "2 ^ bitlen (n div 2) \<le> n"
    proof (cases "n div 2 = 0")
      case True then show ?thesis using False by (simp add: bitlen.simps)
    next
      case False
      then obtain k where k: "bitlen (n div 2) = Suc k" using bitlen.simps [of "n div 2"] by auto
      then show ?thesis using * False by simp
    qed
    then show ?thesis using * b by simp
  qed (simp add: bitlen.simps)
qed

text \<open>The result is within half a unit of the last place kept.\<close>

lemma rnd_half_ulp: "2 * \<bar>int (rnd f N) * 2 ^ f - int N\<bar> \<le> 2 ^ drop_bits f N"
proof -
  define D q r where d: "D = (2::nat) ^ drop_bits f N" "q = N div D" "r = N mod D"
  have N: "N = q * D + r" and r: "r < D" unfolding d by (simp_all only: div_mult_mod_eq) simp
  have e: "2 ^ (drop_bits f N - f) * 2 ^ f = D" by (simp add: d drop_bits_def flip: power_add)
  have R: "rnd f N * 2 ^ f = (if D < 2 * r \<or> (2 * r = D \<and> odd q) then q * D + D else q * D)"
  proof -
    have "rnd f N * 2 ^ f = (if D < 2 * r \<or> (2 * r = D \<and> odd q) then q + 1 else q) * (2 ^ (drop_bits f N - f) * 2 ^ f)"
      unfolding rnd_def Let_def d by (simp only: mult.assoc)
    then show ?thesis unfolding e by (simp split: if_split)
  qed
  have "2 * \<bar>int (rnd f N * 2 ^ f) - int N\<bar> \<le> int D" unfolding R using r by (subst N) auto
  then show ?thesis by (simp add: d)
qed

text \<open>Numbers with at most 24 bits are kept, and nothing but zero is rounded to zero when no bit
  below the unit is cut.\<close>

lemma rnd_exact: "bitlen N \<le> 24 \<Longrightarrow> rnd 0 N = N"
  by (simp add: rnd_def drop_bits_def)

lemma rnd_zero [simp]: "rnd f 0 = 0"
  by (simp add: rnd_def)

lemma rnd0_eq_0 [simp]: "rnd 0 N = 0 \<longleftrightarrow> N = 0"
proof (cases "bitlen N \<le> 24")
  case False
  then have "2 ^ (bitlen N - 24) \<le> (2 :: nat) ^ (bitlen N - 1)" by (intro power_increasing) auto
  also have "\<dots> \<le> N" using bitlen_bounds [of N] False by (cases "N = 0") (auto simp: bitlen.simps)
  finally have "0 < N div 2 ^ drop_bits 0 N" by (simp add: drop_bits_def div_greater_zero_iff)
  then show ?thesis by (cases "N = 0") (simp_all add: rnd_def Let_def)
qed (simp add: rnd_exact)


text \<open>The integer square root is the floor of the root.\<close>

lemma isqrt_floor: "isqrt n * isqrt n \<le> n \<and> n < (isqrt n + 1) * (isqrt n + 1)"
proof (induction n rule: isqrt.induct)
  case (1 n)
  show ?case
  proof (cases "n = 0")
    case False
    define r where "r = isqrt (n div 4)"
    have "r * r \<le> n div 4" "n div 4 < (r + 1) * (r + 1)" using 1 False by (simp_all add: r_def)
    then have "4 * (r * r) \<le> n" "n < 4 * ((r + 1) * (r + 1))" by linarith+
    moreover have "isqrt n = (if (2 * r + 1) * (2 * r + 1) \<le> n then 2 * r + 1 else 2 * r)"
      using False by (simp add: isqrt.simps [of n] r_def Let_def)
    ultimately show ?thesis by (auto simp: algebra_simps)
  qed (simp add: isqrt.simps)
qed

section \<open>Algebra of the operations\<close>

lemma fadd_commute: "fadd x y = fadd y x"
  by (cases "(x, y)" rule: fadd.cases) (auto simp: add.commute conj_commute Let_def)

lemma fmul_commute: "fmul x y = fmul y x"
proof -
  have "(s \<noteq> t) = (t \<noteq> s)" for s t :: bool by blast
  then show ?thesis by (cases "(x, y)" rule: fmul.cases) (simp_all add: mult.commute)
qed

lemma units_neg [simp]: "units (\<not> s) k = - units s k"
  by (simp add: units_def)

text \<open>Swapping the operands of a difference negates it, except that a zero difference stays \<open>+0\<close>.\<close>

lemma fsub_flip: "fsub y x = fneg (fsub x y) \<or> fsub y x = fsub x y"
proof (cases "(x, y)" rule: fadd.cases)
  case (4 s j t k)
  define u where "u = units s j - units t k"
  have "fsub x y = (if u = 0 then Fin (s \<and> \<not> t) 0 else fround (u < 0) 0 (nat \<bar>u\<bar>))"
    "fsub y x = (if u = 0 then Fin (t \<and> \<not> s) 0 else fround (0 < u) 0 (nat \<bar>u\<bar>))"
    using 4 by (auto simp: fsub_def u_def Let_def abs_minus_commute)
  then show ?thesis by (cases "u < 0") (auto simp: fround_def Let_def)
qed (auto simp: fsub_def)

lemma fmul_neg_neg: "fmul (fneg x) (fneg x) = fmul x x"
  by (cases x) auto

lemma square_sub_commute: "fmul (fsub x y) (fsub x y) = fmul (fsub y x) (fsub y x)"
  using fsub_flip [of y x] fmul_neg_neg by metis

lemma fabsf_neg [simp]: "fabsf (fneg x) = fabsf x"
  by (cases x) auto

lemma fabsf_sub_commute: "fabsf (fsub x y) = fabsf (fsub y x)"
  using fsub_flip [of y x] fabsf_neg by metis

section \<open>Symmetry\<close>

lemma cosine_loop_swap:
  "cosine_loop v w n i d a b = map_option (\<lambda>(d, b, a). (d, a, b)) (cosine_loop w v n i d b a)"
proof (induction v w n i d a b rule: cosine_loop.induct)
  case (1 v w n i d a b)
  show ?case
    using 1 by (subst (1 2) cosine_loop.simps) (auto simp: elem_def fmul_commute)
qed

lemma euclidean_loop_swap: "euclidean_loop v w n i s = euclidean_loop w v n i s"
proof (induction v w n i s rule: euclidean_loop.induct)
  case (1 v w n i s)
  show ?case
    using 1 by (subst (1 2) euclidean_loop.simps) (auto simp: elem_def square_sub_commute Let_def)
qed

lemma manhattan_loop_swap: "manhattan_loop v w n i s = manhattan_loop w v n i s"
proof (induction v w n i s rule: manhattan_loop.induct)
  case (1 v w n i s)
  show ?case
    using 1 by (subst (1 2) manhattan_loop.simps) (auto simp: elem_def fabsf_sub_commute)
qed


section \<open>Definedness and zero distances\<close>

lemma cosine_loop_defined:
  "cosine_loop v w n i d a b \<noteq> None \<longleftrightarrow> n \<le> i \<or> n \<le> length v \<and> n \<le> length w"
proof (induction v w n i d a b rule: cosine_loop.induct)
  case (1 v w n i d a b)
  show ?case using 1 by (subst cosine_loop.simps) (auto simp: elem_def)
qed

lemma euclidean_loop_defined:
  "euclidean_loop v w n i s \<noteq> None \<longleftrightarrow> n \<le> i \<or> n \<le> length v \<and> n \<le> length w"
proof (induction v w n i s rule: euclidean_loop.induct)
  case (1 v w n i s)
  show ?case using 1 by (subst euclidean_loop.simps) (auto simp: elem_def Let_def)
qed

lemma manhattan_loop_defined:
  "manhattan_loop v w n i s \<noteq> None \<longleftrightarrow> n \<le> i \<or> n \<le> length v \<and> n \<le> length w"
proof (induction v w n i s rule: manhattan_loop.induct)
  case (1 v w n i s)
  show ?case using 1 by (subst manhattan_loop.simps) (auto simp: elem_def)
qed

fun is_finite :: "float32 \<Rightarrow> bool" where
  "is_finite (Fin s k) = True"
| "is_finite _ = False"

text \<open>The comparison \<open>==\<close>, on which the two zeros are equal and a NaN is equal to nothing.\<close>

fun feq :: "float32 \<Rightarrow> float32 \<Rightarrow> bool" where
  "feq (Fin s j) (Fin t k) = (units s j = units t k)"
| "feq (Inf s) (Inf t) = (s = t)"
| "feq _ _ = False"

fun nonneg :: "float32 \<Rightarrow> bool" where
  "nonneg (Fin s k) = (\<not> s)"
| "nonneg (Inf s) = (\<not> s)"
| "nonneg NaN = False"

lemma fabsf_sub_zero:
  assumes "is_finite x" "is_finite y"
  shows "nonneg (fabsf (fsub x y))" "is_fzero (fabsf (fsub x y)) \<longleftrightarrow> feq x y"
proof -
  obtain s j t k where xy: "x = Fin s j" "y = Fin t k"
    using assms by (cases x; cases y) auto
  show "nonneg (fabsf (fsub x y))" "is_fzero (fabsf (fsub x y)) \<longleftrightarrow> feq x y"
    by (auto simp: xy fsub_def fround_def Let_def)
qed

lemma fadd_nonneg_zero:
  assumes "nonneg x" "nonneg y"
  shows "nonneg (fadd x y)" "is_fzero (fadd x y) \<longleftrightarrow> is_fzero x \<and> is_fzero y"
  using assms by (cases x; cases y; auto simp: units_def fround_def Let_def)+

lemma manhattan_loop_zero:
  assumes "\<forall>x\<in>set v. is_finite x" "\<forall>x\<in>set w. is_finite x" "manhattan_loop v w n i s = Some r" "nonneg s"
  shows "nonneg r \<and> (is_fzero r \<longleftrightarrow> is_fzero s \<and> (\<forall>j. i \<le> j \<and> j < n \<longrightarrow> feq (v ! j) (w ! j)))"
  using assms
proof (induction v w n i s rule: manhattan_loop.induct)
  case (1 v w n i s)
  show ?case
  proof (cases "i < n")
    case False
    then show ?thesis using 1 by (auto simp: manhattan_loop.simps [of v w n i s])
  next
    case True
    let ?d = "fabsf (fsub (v ! i) (w ! i))"
    from True 1(4) have l: "i < length v" "i < length w"
      and r: "manhattan_loop v w n (i + 1) (fadd s ?d) = Some r"
      by (subst (asm) manhattan_loop.simps, auto simp: elem_def split: if_splits)+
    have fin: "is_finite (v ! i)" "is_finite (w ! i)" using 1(2,3) l by auto
    note d = fabsf_sub_zero [OF fin] and a = fadd_nonneg_zero [OF 1(5) fabsf_sub_zero(1) [OF fin]]
    have "nonneg r \<and> (is_fzero r \<longleftrightarrow> is_fzero (fadd s ?d) \<and> (\<forall>j. i + 1 \<le> j \<and> j < n \<longrightarrow> feq (v ! j) (w ! j)))"
      using 1(1) [of "v ! i" "w ! i"] True l r 1(2,3) a by (simp add: elem_def)
    moreover have "(\<forall>j. i \<le> j \<and> j < n \<longrightarrow> feq (v ! j) (w ! j)) \<longleftrightarrow>
        feq (v ! i) (w ! i) \<and> (\<forall>j. i + 1 \<le> j \<and> j < n \<longrightarrow> feq (v ! j) (w ! j))"
      using True by (metis Suc_eq_plus1 Suc_leI Suc_leD le_neq_implies_less order_refl)
    ultimately show ?thesis using a d by blast
  qed
qed

section \<open>Properties\<close>

text \<open>
  The three distance functions are symmetric, bit for bit, on all inputs including infinities and
  NaNs, although floating-point subtraction and summation are neither exact nor associative.
\<close>

theorem vector_distances_symmetric:
  "vector_cosine_similarity v w n = vector_cosine_similarity w v n \<and>
   vector_euclidean_distance v w n = vector_euclidean_distance w v n \<and>
   vector_manhattan_distance v w n = vector_manhattan_distance w v n"
proof (intro conjI)
  show "vector_cosine_similarity v w n = vector_cosine_similarity w v n"
    unfolding vector_cosine_similarity_def cosine_loop_swap [of v w]
    by (cases "cosine_loop w v n 0 fzero fzero fzero") (auto simp: fmul_commute)
qed (simp_all add: vector_euclidean_distance_def vector_manhattan_distance_def
    euclidean_loop_swap [of v w] manhattan_loop_swap [of v w])

text \<open>
  C10: the three functions return for every dimension, and stay inside both arrays exactly when the
  dimension does not exceed their lengths.
\<close>

theorem vector_distances_defined:
  "(vector_cosine_similarity v w n \<noteq> None) = (n \<le> length v \<and> n \<le> length w) \<and>
   (vector_euclidean_distance v w n \<noteq> None) = (n \<le> length v \<and> n \<le> length w) \<and>
   (vector_manhattan_distance v w n \<noteq> None) = (n \<le> length v \<and> n \<le> length w)"
proof -
  have c: "(vector_cosine_similarity v w n \<noteq> None) = (cosine_loop v w n 0 fzero fzero fzero \<noteq> None)"
    by (cases "cosine_loop v w n 0 fzero fzero fzero") (auto simp: vector_cosine_similarity_def)
  have e: "(vector_euclidean_distance v w n \<noteq> None) = (euclidean_loop v w n 0 fzero \<noteq> None)"
    by (cases "euclidean_loop v w n 0 fzero") (auto simp: vector_euclidean_distance_def)
  have z: "(n \<le> 0 \<or> n \<le> length v \<and> n \<le> length w) = (n \<le> length v \<and> n \<le> length w)" by auto
  show ?thesis
    unfolding c e vector_manhattan_distance_def cosine_loop_defined euclidean_loop_defined manhattan_loop_defined z
    by blast
qed

text \<open>
  C11: on finite vectors the Manhattan distance is never negative or NaN, and it is zero exactly for
  vectors equal in each of the compared components: gradual underflow keeps a difference of
  different numbers from vanishing, and no rounding of the sum makes it vanish.
\<close>

theorem manhattan_distance_zero:
  assumes "\<forall>x\<in>set v. is_finite x" "\<forall>x\<in>set w. is_finite x" "n \<le> length v" "n \<le> length w"
  shows "\<exists>r. vector_manhattan_distance v w n = Some r \<and> nonneg r \<and>
     (is_fzero r \<longleftrightarrow> (\<forall>j<n. feq (v ! j) (w ! j)))"
proof -
  obtain r where r: "manhattan_loop v w n 0 fzero = Some r"
    using manhattan_loop_defined [of v w n 0 fzero] assms(3,4) by auto
  from manhattan_loop_zero [OF assms(1,2) r] r show ?thesis
    by (simp add: vector_manhattan_distance_def fzero_def)
qed

theorem manhattan_distance_zero_witness:
  "\<exists>r. vector_manhattan_distance [Fin False 1] [Fin True 0] 1 = Some r \<and> nonneg r \<and> \<not> is_fzero r"
  using manhattan_distance_zero [of "[Fin False 1]" "[Fin True 0]" 1] by (auto simp: units_def)

end
