(* ===== verification/EpiExtension.thy ===== *)
theory EpiExtension
  imports CMem
begin

text \<open>
  The PostgreSQL extension of \<open>contrib/epiphanydb\<close>: its configuration variables, the functions
  callable from SQL and the storage manager hooks. A function runs in a backend whose state is the
  palloc'ed strings, the messages reported so far and the three variables. \<open>ereport(ERROR)\<close> is the
  left value of a sum; an invalid \<open>pfree\<close> is undefined behaviour.
\<close>

section \<open>State\<close>

datatype elevel = LOG | NOTICE

datatype sql_error =
    ERRCODE_NULL_VALUE_NOT_ALLOWED string
  | ERRCODE_INVALID_PARAMETER_VALUE string
  | ERRCODE_FEATURE_NOT_SUPPORTED string
  | ERRCODE_OUT_OF_MEMORY
  | ERRCODE_INVALID_BINARY_REPRESENTATION

record backend =
  mcxt :: "string cmem"
  messages :: "(elevel \<times> string) list"
  epiphanydb_enabled :: bool
  epiphanydb_storage_engines :: string
  epiphanydb_shared_memory_size :: int

definition elog :: "elevel \<Rightarrow> string \<Rightarrow> backend \<Rightarrow> backend" where
  "elog lv msg b = b\<lparr>messages := (lv, msg) # messages b\<rparr>"

definition quoted :: "string \<Rightarrow> string" where
  "quoted s = CHR 0x27 # s @ [CHR 0x27]"

definition palloc_string :: "string \<Rightarrow> backend \<Rightarrow> (sql_error + addr) \<times> backend" where
  "palloc_string s b = (let (a, m) = c_malloc s (mcxt b) in
     (if a = NULL then Inl ERRCODE_OUT_OF_MEMORY else Inr a, b\<lparr>mcxt := m\<rparr>))"

definition pfree :: "addr \<Rightarrow> backend \<Rightarrow> backend option" where
  "pfree a b = (if dyn (mcxt b) a then map_option (\<lambda>m. b\<lparr>mcxt := m\<rparr>) (c_free a (mcxt b)) else None)"


section \<open>Module initialisation\<close>

text \<open>
  The value a variable has after its definition: the setting of the configuration file when there is
  one and it is acceptable, else the boot value.
\<close>

record settings =
  set_enabled :: "bool option"
  set_storage_engines :: "string option"
  set_shared_memory_size :: "int option"

definition custom_variable :: "('a \<Rightarrow> bool) \<Rightarrow> 'a \<Rightarrow> 'a option \<Rightarrow> 'a" where
  "custom_variable ok boot setting = (case setting of Some v \<Rightarrow> if ok v then v else boot | None \<Rightarrow> boot)"

definition PG_init :: "settings \<Rightarrow> backend \<Rightarrow> backend" where
  "PG_init cf b =
     (let b = b\<lparr>epiphanydb_enabled := custom_variable (\<lambda>_. True) True (set_enabled cf)\<rparr>;
          b = b\<lparr>epiphanydb_storage_engines :=
                custom_variable (\<lambda>_. True) ''heap,columnar,vector,timeseries,graph'' (set_storage_engines cf)\<rparr>;
          b = b\<lparr>epiphanydb_shared_memory_size :=
                custom_variable (\<lambda>n. 1 \<le> n \<and> n \<le> 1024) 64 (set_shared_memory_size cf)\<rparr> in
      if epiphanydb_enabled b
      then elog LOG (''EpiphanyDB extension initialized with engines: '' @ epiphanydb_storage_engines b) b
      else b)"

definition PG_fini :: "backend \<Rightarrow> backend" where
  "PG_fini b = (if epiphanydb_enabled b then elog LOG ''EpiphanyDB extension cleaned up'' b else b)"

definition epiphanydb_storage_manager_init :: "backend \<Rightarrow> backend" where
  "epiphanydb_storage_manager_init b = elog LOG ''EpiphanyDB Storage Manager initialized'' b"

definition epiphanydb_storage_manager_cleanup :: "backend \<Rightarrow> backend" where
  "epiphanydb_storage_manager_cleanup b = elog LOG ''EpiphanyDB Storage Manager cleaned up'' b"

section \<open>SQL functions\<close>

definition ext_version :: string where
  "ext_version = ''EpiphanyDB 1.0.0''"

definition epiphanydb_storage_engines_enabled :: "backend \<Rightarrow> string" where
  "epiphanydb_storage_engines_enabled b = epiphanydb_storage_engines b"

definition epiphanydb_is_enabled :: "backend \<Rightarrow> bool" where
  "epiphanydb_is_enabled b = epiphanydb_enabled b"






text \<open>The functions on one table: they copy its name, report it and give the copy back.\<close>

definition with_table_name :: "string \<Rightarrow> string \<Rightarrow> 'a \<Rightarrow> backend \<Rightarrow> ((sql_error + 'a) \<times> backend) option" where
  "with_table_name what table_name r b =
     (case palloc_string table_name b of
        (Inl e, b) \<Rightarrow> Some (Inl e, b)
      | (Inr t, b) \<Rightarrow> do {
          b \<leftarrow> pfree t (elog LOG (what @ quoted table_name) b);
          Some (Inr r, b)
        })"

definition epiphanydb_get_table_storage_engine :: "string \<Rightarrow> backend \<Rightarrow> ((sql_error + string) \<times> backend) option" where
  "epiphanydb_get_table_storage_engine table_name b =
     with_table_name ''Getting storage engine for table '' table_name ''heap'' b"

text \<open>The result type of the call is a row type or not; the row has the two zero columns.\<close>

definition epiphanydb_get_table_stats_sql ::
  "bool \<Rightarrow> string \<Rightarrow> backend \<Rightarrow> ((sql_error + (int \<times> int)) \<times> backend) option" where
  "epiphanydb_get_table_stats_sql composite table_name b =
     (case palloc_string table_name b of
        (Inl e, b) \<Rightarrow> Some (Inl e, b)
      | (Inr t, b) \<Rightarrow>
          if \<not> composite then
            Some (Inl (ERRCODE_FEATURE_NOT_SUPPORTED
              ''function returning record called in context that cannot accept type record''), b)
          else do {
            b \<leftarrow> pfree t (elog LOG (''Getting statistics for table '' @ quoted table_name) b);
            Some (Inr (0, 0), b)
          })"

definition epiphanydb_vacuum_table_sql :: "string \<Rightarrow> backend \<Rightarrow> ((sql_error + bool) \<times> backend) option" where
  "epiphanydb_vacuum_table_sql table_name b = with_table_name ''Vacuuming table '' table_name True b"

definition epiphanydb_analyze_table_sql :: "string \<Rightarrow> backend \<Rightarrow> ((sql_error + bool) \<times> backend) option" where
  "epiphanydb_analyze_table_sql table_name b = with_table_name ''Analyzing table '' table_name True b"

section \<open>Behaviour of the calls\<close>

lemma mcxt_elog [simp]: "mcxt (elog lv msg b) = mcxt b" by (simp add: elog_def)











section \<open>Properties\<close>




end
