(* ===== verification/FsmPage.thy ===== *)
theory FsmPage
  imports Prelude
begin

text \<open>
  The free space map page of PostgreSQL (\<open>storage/freespace/fsmpage.c\<close>): a complete binary tree of
  bytes stored in an array, whose leaves are the slots of the page and whose upper nodes hold the
  maximum of their children. Pages are read after crashes, so the tree may be corrupt; the code
  repairs it when it notices. Array accesses outside the page are undefined.
\<close>

section \<open>Layout\<close>

definition NodesPerPage :: nat where
  "NodesPerPage = 8192 - 24 - 4"

definition NonLeafNodesPerPage :: nat where
  "NonLeafNodesPerPage = 8192 div 2 - 1"

definition LeafNodesPerPage :: nat where
  "LeafNodesPerPage = NodesPerPage - NonLeafNodesPerPage"

record FSMPageData =
  fp_next_slot :: int
  fp_nodes :: "uint8 list"

definition leftchild :: "nat \<Rightarrow> nat" where "leftchild x = 2 * x + 1"
definition rightchild :: "nat \<Rightarrow> nat" where "rightchild x = 2 * x + 2"
definition parentof :: "nat \<Rightarrow> nat" where "parentof x = (x - 1) div 2"

definition rightneighbor :: "nat \<Rightarrow> nat" where
  "rightneighbor x = (let x = x + 1 in if (x + 1) AND x = 0 then parentof x else x)"

section \<open>Rebuilding\<close>

text \<open>The value an upper node should have: the loop body of \<open>fsm_rebuild_page\<close>.\<close>

definition node_value :: "uint8 list \<Rightarrow> nat \<Rightarrow> uint8 option" where
  "node_value nodes nodeno =
     (let lchild = leftchild nodeno; rchild = lchild + 1 in do {
        newvalue \<leftarrow> (if lchild < NodesPerPage then arr_get nodes lchild else Some 0);
        if rchild < NodesPerPage then map_option (max newvalue) (arr_get nodes rchild) else Some newvalue
      })"

primrec fsm_rebuild_loop :: "nat \<Rightarrow> uint8 list \<Rightarrow> bool \<Rightarrow> (bool \<times> uint8 list) option" where
  "fsm_rebuild_loop 0 nodes changed = Some (changed, nodes)"
| "fsm_rebuild_loop (Suc nodeno) nodes changed = do {
     newvalue \<leftarrow> node_value nodes nodeno;
     old \<leftarrow> arr_get nodes nodeno;
     if old \<noteq> newvalue then fsm_rebuild_loop nodeno (nodes[nodeno := newvalue]) True
     else fsm_rebuild_loop nodeno nodes changed
   }"

definition fsm_rebuild_page :: "FSMPageData \<Rightarrow> (bool \<times> FSMPageData) option" where
  "fsm_rebuild_page page = do {
     (changed, nodes) \<leftarrow> fsm_rebuild_loop NonLeafNodesPerPage (fp_nodes page) False;
     Some (changed, page\<lparr>fp_nodes := nodes\<rparr>)
   }"

section \<open>Setting and reading a slot\<close>

function fsm_propagate :: "uint8 list \<Rightarrow> nat \<Rightarrow> uint8 list option" where
  "fsm_propagate nodes nodeno =
     (let nodeno = parentof nodeno; lchild = leftchild nodeno; rchild = lchild + 1 in do {
        l \<leftarrow> arr_get nodes lchild;
        newvalue \<leftarrow> (if rchild < NodesPerPage then map_option (max l) (arr_get nodes rchild) else Some l);
        oldvalue \<leftarrow> arr_get nodes nodeno;
        if oldvalue = newvalue then Some nodes
        else if nodeno > 0 then fsm_propagate (nodes[nodeno := newvalue]) nodeno
        else Some (nodes[nodeno := newvalue])
      })"
  by pat_completeness auto
termination by (relation "measure snd") (auto simp: parentof_def)

declare fsm_propagate.simps [simp del]

definition fsm_set_avail :: "FSMPageData \<Rightarrow> nat \<Rightarrow> uint8 \<Rightarrow> (bool \<times> FSMPageData) option" where
  "fsm_set_avail page slot value =
     (let nodeno = NonLeafNodesPerPage + slot in do {
        oldvalue \<leftarrow> arr_get (fp_nodes page) nodeno;
        root \<leftarrow> arr_get (fp_nodes page) 0;
        if oldvalue = value \<and> value \<le> root then Some (False, page)
        else do {
          nodes \<leftarrow> fsm_propagate ((fp_nodes page)[nodeno := value]) nodeno;
          root \<leftarrow> arr_get nodes 0;
          if root < value then do {
            (_, page) \<leftarrow> fsm_rebuild_page (page\<lparr>fp_nodes := nodes\<rparr>);
            Some (True, page)
          } else Some (True, page\<lparr>fp_nodes := nodes\<rparr>)
        }
      })"

definition fsm_get_avail :: "FSMPageData \<Rightarrow> nat \<Rightarrow> uint8 option" where
  "fsm_get_avail page slot = arr_get (fp_nodes page) (NonLeafNodesPerPage + slot)"

definition fsm_get_max_avail :: "FSMPageData \<Rightarrow> uint8 option" where
  "fsm_get_max_avail page = arr_get (fp_nodes page) 0"

section \<open>Searching\<close>

function fsm_climb :: "uint8 list \<Rightarrow> uint8 \<Rightarrow> nat \<Rightarrow> nat option" where
  "fsm_climb nodes minvalue nodeno =
     (if nodeno > 0 then do {
        v \<leftarrow> arr_get nodes nodeno;
        if minvalue \<le> v then Some nodeno
        else fsm_climb nodes minvalue (parentof (rightneighbor nodeno))
      } else Some nodeno)"
  by pat_completeness auto
termination by (relation "measure (\<lambda>(_, _, n). n)") (auto simp: parentof_def rightneighbor_def Let_def)

text \<open>The descent ends at a leaf, or at a node whose children do not keep its promise.\<close>

datatype descent = Leaf nat | Corrupt

function fsm_descend :: "uint8 list \<Rightarrow> uint8 \<Rightarrow> nat \<Rightarrow> descent option" where
  "fsm_descend nodes minvalue nodeno =
     (if nodeno < NonLeafNodesPerPage then do {
        let l = leftchild nodeno;
        lok \<leftarrow> (if l < NodesPerPage then map_option (\<lambda>v. minvalue \<le> v) (arr_get nodes l) else Some False);
        if lok then fsm_descend nodes minvalue l
        else do {
          let r = l + 1;
          rok \<leftarrow> (if r < NodesPerPage then map_option (\<lambda>v. minvalue \<le> v) (arr_get nodes r) else Some False);
          if rok then fsm_descend nodes minvalue r else Some Corrupt
        }
      } else Some (Leaf nodeno))"
  by pat_completeness auto
termination by (relation "measure (\<lambda>(_, _, n). NonLeafNodesPerPage - n)") (auto simp: leftchild_def)

declare fsm_climb.simps [simp del] fsm_descend.simps [simp del]

text \<open>
  The buffer: its page, whether it was marked dirty, and what other backends do to the page while
  the lock is given up to take it again in exclusive mode. One round of the search ends with an
  answer or with a repaired page and the exclusive lock, from which the search restarts.
\<close>

record fsm_buffer =
  bpage :: FSMPageData
  bdirty :: bool
  meanwhile :: "FSMPageData \<Rightarrow> FSMPageData"

definition fsm_target :: "FSMPageData \<Rightarrow> nat" where
  "fsm_target page =
     (if fp_next_slot page < 0 \<or> fp_next_slot page \<ge> int LeafNodesPerPage then 0 else nat (fp_next_slot page))"

definition fsm_search_round ::
  "fsm_buffer \<Rightarrow> uint8 \<Rightarrow> bool \<Rightarrow> bool \<Rightarrow> (int option \<times> fsm_buffer) option" where
  "fsm_search_round buf minvalue advancenext exclusive_lock_held = do {
     let page = bpage buf;
     root \<leftarrow> arr_get (fp_nodes page) 0;
     if root < minvalue then Some (Some (-1), buf)
     else do {
       nodeno \<leftarrow> fsm_climb (fp_nodes page) minvalue (fsm_target page + NonLeafNodesPerPage);
       d \<leftarrow> fsm_descend (fp_nodes page) minvalue nodeno;
       case d of
         Leaf nodeno \<Rightarrow>
           (let slot = int nodeno - int NonLeafNodesPerPage in
            Some (Some slot, buf\<lparr>bpage := page\<lparr>fp_next_slot := slot + (if advancenext then 1 else 0)\<rparr>\<rparr>))
       | Corrupt \<Rightarrow> do {
           let page = (if exclusive_lock_held then page else meanwhile buf page);
           (_, page) \<leftarrow> fsm_rebuild_page page;
           Some (None, buf\<lparr>bpage := page, bdirty := True\<rparr>)
         }
     }
   }"

partial_function (option) fsm_search_avail ::
  "fsm_buffer \<Rightarrow> uint8 \<Rightarrow> bool \<Rightarrow> bool \<Rightarrow> (int \<times> fsm_buffer) option" where
  "fsm_search_avail buf minvalue advancenext exclusive_lock_held = do {
     (r, buf) \<leftarrow> fsm_search_round buf minvalue advancenext exclusive_lock_held;
     case r of
       Some slot \<Rightarrow> Some (slot, buf)
     | None \<Rightarrow> fsm_search_avail buf minvalue advancenext True
   }"

section \<open>Truncating\<close>

primrec fsm_clear_loop :: "nat \<Rightarrow> nat \<Rightarrow> uint8 list \<Rightarrow> bool \<Rightarrow> (bool \<times> uint8 list) option" where
  "fsm_clear_loop 0 i nodes changed = Some (changed, nodes)"
| "fsm_clear_loop (Suc n) i nodes changed = do {
     v \<leftarrow> arr_get nodes i;
     fsm_clear_loop n (i + 1) (nodes[i := 0]) (changed \<or> v \<noteq> 0)
   }"

definition fsm_truncate_avail :: "FSMPageData \<Rightarrow> nat \<Rightarrow> (bool \<times> FSMPageData) option" where
  "fsm_truncate_avail page nslots = do {
     let first = NonLeafNodesPerPage + nslots;
     (changed, nodes) \<leftarrow> fsm_clear_loop (NodesPerPage - first) first (fp_nodes page) False;
     let page = page\<lparr>fp_nodes := nodes\<rparr>;
     if changed then do { (_, page) \<leftarrow> fsm_rebuild_page page; Some (changed, page) }
     else Some (changed, page)
   }"

section \<open>The invariant\<close>

lemma fsm_sizes: "NodesPerPage = 8164" "NonLeafNodesPerPage = 4095" "LeafNodesPerPage = 4069"
  by (simp_all add: NodesPerPage_def NonLeafNodesPerPage_def LeafNodesPerPage_def)

definition node_max :: "uint8 list \<Rightarrow> nat \<Rightarrow> uint8" where
  "node_max nodes i =
     max (if leftchild i < NodesPerPage then nodes ! leftchild i else 0)
         (if rightchild i < NodesPerPage then nodes ! rightchild i else 0)"

definition fsm_page :: "uint8 list \<Rightarrow> bool" where
  "fsm_page nodes \<longleftrightarrow> length nodes = NodesPerPage"

text \<open>A page is sound when every upper node holds the maximum of its children.\<close>

definition fsm_ok :: "uint8 list \<Rightarrow> bool" where
  "fsm_ok nodes \<longleftrightarrow> fsm_page nodes \<and> (\<forall>i < NonLeafNodesPerPage. nodes ! i = node_max nodes i)"

lemma fsm_ok_page: "fsm_ok nodes \<Longrightarrow> fsm_page nodes"
  by (simp add: fsm_ok_def)

definition same_leaves :: "uint8 list \<Rightarrow> uint8 list \<Rightarrow> bool" where
  "same_leaves nodes nodes' \<longleftrightarrow> (\<forall>i \<ge> NonLeafNodesPerPage. i < NodesPerPage \<longrightarrow> nodes' ! i = nodes ! i)"

lemma max_0_word [simp]: "max x (0::uint8) = x" "max 0 x = (x::uint8)"
  by (simp_all add: max_def)

lemma node_value_max [simp]: "fsm_page nodes \<Longrightarrow> node_value nodes i = Some (node_max nodes i)"
  by (auto simp: node_value_def node_max_def Let_def leftchild_def rightchild_def fsm_page_def)

lemma leftchild_neq [simp]: "leftchild i \<noteq> i" "rightchild i \<noteq> i" "i < leftchild i" "i < rightchild i"
  by (auto simp: leftchild_def rightchild_def)

lemma Suc_leftchild [simp]: "Suc (leftchild i) = rightchild i"
  by (simp add: leftchild_def rightchild_def)

lemma parent_children: "leftchild i = n \<or> rightchild i = n \<longleftrightarrow> 0 < n \<and> parentof n = i"
  by (auto simp: leftchild_def rightchild_def parentof_def)

lemma node_max_update [simp]:
  "fsm_page nodes \<Longrightarrow> n < NodesPerPage \<Longrightarrow> \<not> (0 < n \<and> parentof n = i) \<Longrightarrow> node_max (nodes[n := v]) i = node_max nodes i"
  using parent_children [of i n] by (auto simp: node_max_def fsm_page_def nth_list_update)

lemma fsm_page_update [simp]: "fsm_page (nodes[i := v]) = fsm_page nodes"
  by (simp add: fsm_page_def)

section \<open>Rebuilding\<close>

text \<open>The loop as a pure function on the nodes.\<close>

primrec rebuild :: "nat \<Rightarrow> uint8 list \<Rightarrow> uint8 list" where
  "rebuild 0 nodes = nodes"
| "rebuild (Suc k) nodes = rebuild k (nodes[k := node_max nodes k])"

lemma rebuild_page [simp]: "fsm_page (rebuild k nodes) = fsm_page nodes"
  by (induction k arbitrary: nodes) auto

lemma rebuild_above: "k \<le> i \<Longrightarrow> rebuild k nodes ! i = nodes ! i"
  by (induction k arbitrary: nodes) auto

lemma node_max_cong: "(\<And>j. i < j \<Longrightarrow> nodes' ! j = nodes ! j) \<Longrightarrow> node_max nodes' i = node_max nodes i"
  by (simp add: node_max_def)

lemma rebuild_below:
  "fsm_page nodes \<Longrightarrow> k \<le> NonLeafNodesPerPage \<Longrightarrow> i < k \<Longrightarrow> rebuild k nodes ! i = node_max (rebuild k nodes) i"
proof (induction k arbitrary: nodes)
  case (Suc k)
  show ?case
  proof (cases "i = k")
    case True
    have "node_max (rebuild k (nodes[k := node_max nodes k])) k = node_max nodes k"
      by (rule node_max_cong) (simp add: rebuild_above)
    then show ?thesis using True Suc.prems by (simp add: rebuild_above fsm_page_def fsm_sizes)
  qed (use Suc in simp)
qed simp

lemma fsm_rebuild_loop_eq:
  "fsm_page nodes \<Longrightarrow> k \<le> NonLeafNodesPerPage \<Longrightarrow>
   fsm_rebuild_loop k nodes c = Some (c \<or> rebuild k nodes \<noteq> nodes, rebuild k nodes)"
proof (induction k arbitrary: nodes c)
  case (Suc k)
  let ?n = "nodes[k := node_max nodes k]"
  have k: "k < length nodes" using Suc.prems by (simp add: fsm_page_def fsm_sizes)
  show ?case
  proof (cases "nodes ! k = node_max nodes k")
    case True
    then have "?n = nodes" by (metis list_update_id)
    then show ?thesis using Suc True k by simp
  next
    case False
    have "rebuild k ?n ! k \<noteq> nodes ! k" using k False by (simp add: rebuild_above)
    then have "rebuild k ?n \<noteq> nodes" by auto
    then show ?thesis using Suc False k by simp
  qed
qed simp

abbreviation rebuild_all :: "uint8 list \<Rightarrow> uint8 list" where
  "rebuild_all \<equiv> rebuild NonLeafNodesPerPage"

lemma rebuild_ok: "fsm_page nodes \<Longrightarrow> fsm_ok (rebuild_all nodes)"
  by (simp add: fsm_ok_def rebuild_below)

lemma rebuild_leaves: "same_leaves nodes (rebuild_all nodes)"
  by (simp add: same_leaves_def rebuild_above)

lemma fsm_rebuild_page_eq:
  "fsm_page (fp_nodes page) \<Longrightarrow> fsm_rebuild_page page =
     Some (rebuild_all (fp_nodes page) \<noteq> fp_nodes page, page\<lparr>fp_nodes := rebuild_all (fp_nodes page)\<rparr>)"
  by (simp add: fsm_rebuild_page_def fsm_rebuild_loop_eq)

text \<open>A sound page is determined by its leaves.\<close>

lemma fsm_ok_unique:
  assumes "fsm_ok nodes" "fsm_ok nodes'" "same_leaves nodes nodes'"
  shows "nodes' = nodes"
proof -
  have "nodes' ! i = nodes ! i" if "i < NodesPerPage" for i
    using that
  proof (induction "NodesPerPage - i" arbitrary: i rule: less_induct)
    case less
    show ?case
    proof (cases "i < NonLeafNodesPerPage")
      case True
      have "node_max nodes' i = node_max nodes i"
        using less.hyps less.prems unfolding node_max_def by (simp add: diff_less_mono2)
      then show ?thesis using True assms(1,2) by (simp add: fsm_ok_def)
    next
      case False
      then show ?thesis using assms(3) less.prems by (simp add: same_leaves_def)
    qed
  qed
  then show ?thesis using assms(1,2) by (intro nth_equalityI) (auto simp: fsm_ok_def fsm_page_def)
qed

lemma rebuild_id: "fsm_ok nodes \<Longrightarrow> rebuild_all nodes = nodes"
  using fsm_ok_unique [of nodes "rebuild_all nodes"] rebuild_ok rebuild_leaves by (simp add: fsm_ok_def)

section \<open>Setting a slot\<close>

definition ok_except :: "nat \<Rightarrow> uint8 list \<Rightarrow> bool" where
  "ok_except p nodes \<longleftrightarrow> fsm_page nodes \<and> (\<forall>i < NonLeafNodesPerPage. i \<noteq> p \<longrightarrow> nodes ! i = node_max nodes i)"

lemma parentof_bounds: "0 < n \<Longrightarrow> parentof n < n" "0 < n \<Longrightarrow> n < NodesPerPage \<Longrightarrow> parentof n < NonLeafNodesPerPage"
  "0 < n \<Longrightarrow> leftchild (parentof n) \<le> n"
  by (auto simp: parentof_def leftchild_def fsm_sizes)

lemma fsm_propagate_step:
  assumes "fsm_page nodes" "0 < n" "n < NodesPerPage"
  shows "fsm_propagate nodes n =
    (let p = parentof n; v = node_max nodes p in
     if nodes ! p = v then Some nodes
     else if p > 0 then fsm_propagate (nodes[p := v]) p else Some (nodes[p := v]))"
proof -
  let ?p = "parentof n" let ?l = "leftchild (parentof n)"
  have l: "?l < NodesPerPage" using parentof_bounds(3) [OF assms(2)] assms(3) by linarith
  have p: "?p < NodesPerPage" using parentof_bounds(1) [OF assms(2)] assms(3) by linarith
  have L: "arr_get nodes ?l = Some (nodes ! ?l)" "arr_get nodes ?p = Some (nodes ! ?p)"
    using l p assms(1) by (simp_all add: fsm_page_def)
  have V: "(if ?l + 1 < NodesPerPage then map_option (max (nodes ! ?l)) (arr_get nodes (?l + 1)) else Some (nodes ! ?l)) =
      Some (node_max nodes ?p)"
    using l assms(1) by (auto simp: node_max_def fsm_page_def)
  show ?thesis unfolding fsm_propagate.simps [of nodes n] Let_def by (simp only: L V Option.bind.simps)
qed

lemma fsm_propagate_leaves:
  assumes "fsm_page nodes" "0 < n" "n < NodesPerPage"
  shows "\<exists>nodes'. fsm_propagate nodes n = Some nodes' \<and> fsm_page nodes' \<and> same_leaves nodes nodes'"
  using assms
proof (induction n arbitrary: nodes rule: less_induct)
  case (less n)
  let ?p = "parentof n" let ?v = "node_max nodes (parentof n)"
  have p: "?p < n" "?p < NonLeafNodesPerPage" using parentof_bounds less.prems by auto
  have u: "same_leaves nodes (nodes[?p := ?v])" using p by (auto simp: same_leaves_def)
  show ?case
  proof (cases "?p > 0")
    case True
    from less.IH [OF p(1) _ True, of "nodes[?p := ?v]"] less.prems p
    obtain nodes' where "fsm_propagate (nodes[?p := ?v]) ?p = Some nodes'" "fsm_page nodes'" "same_leaves (nodes[?p := ?v]) nodes'"
      by (auto simp: fsm_sizes)
    then show ?thesis using less.prems u True
      by (simp add: fsm_propagate_step Let_def) (auto simp: same_leaves_def)
  next
    case False
    then show ?thesis using less.prems u by (simp add: fsm_propagate_step Let_def) (auto simp: same_leaves_def)
  qed
qed

lemma fsm_propagate_ok:
  assumes "ok_except (parentof n) nodes" "0 < n" "n < NodesPerPage" "fsm_propagate nodes n = Some nodes'"
  shows "fsm_ok nodes'"
  using assms
proof (induction n arbitrary: nodes rule: less_induct)
  case (less n)
  let ?p = "parentof n" let ?v = "node_max nodes (parentof n)"
  have p: "?p < n" "?p < NonLeafNodesPerPage" using parentof_bounds less.prems by auto
  have pg: "fsm_page nodes" using less.prems(1) by (simp add: ok_except_def)
  have l: "?p < length nodes" "?p < NodesPerPage" using p less.prems(3) pg by (auto simp: fsm_page_def)
  have step: "fsm_propagate nodes n = (if nodes ! ?p = ?v then Some nodes
     else if ?p > 0 then fsm_propagate (nodes[?p := ?v]) ?p else Some (nodes[?p := ?v]))"
    using fsm_propagate_step [OF pg less.prems(2,3)] by (simp add: Let_def)
  have o: "nodes[?p := ?v] ! i = node_max (nodes[?p := ?v]) i"
    if "i < NonLeafNodesPerPage" "\<not> (0 < ?p \<and> parentof ?p = i)" for i
    using that less.prems(1) pg l by (simp add: ok_except_def nth_list_update)
  show ?case
  proof (cases "nodes ! ?p = ?v")
    case True
    then have "nodes' = nodes" using step less.prems(4) by simp
    then show ?thesis using True less.prems(1) by (auto simp: ok_except_def fsm_ok_def)
  next
    case False
    show ?thesis
    proof (cases "?p > 0")
      case True
      have "ok_except (parentof ?p) (nodes[?p := ?v])" using o True pg by (auto simp: ok_except_def)
      then show ?thesis using less.IH [OF p(1)] True l(2) step False less.prems(4) by simp
    next
      case z: False
      then show ?thesis using o pg step False less.prems(4) by (auto simp: fsm_ok_def)
    qed
  qed
qed

lemma fsm_ok_parent: "fsm_ok nodes \<Longrightarrow> 0 < n \<Longrightarrow> n < NodesPerPage \<Longrightarrow> nodes ! n \<le> nodes ! parentof n"
  using parent_children [of "parentof n" n] parentof_bounds(2) [of n]
  by (auto simp: fsm_ok_def node_max_def)

lemma fsm_ok_root: "fsm_ok nodes \<Longrightarrow> n < NodesPerPage \<Longrightarrow> nodes ! n \<le> nodes ! 0"
proof (induction n rule: less_induct)
  case (less n)
  show ?case
  proof (cases "n = 0")
    case False
    then have "nodes ! n \<le> nodes ! parentof n" using less.prems fsm_ok_parent by auto
    also have "\<dots> \<le> nodes ! 0" using less parentof_bounds(1) [of n] False by simp
    finally show ?thesis .
  qed simp
qed

lemma leaf_bounds: "slot < LeafNodesPerPage \<Longrightarrow> 0 < NonLeafNodesPerPage + slot \<and> NonLeafNodesPerPage + slot < NodesPerPage"
  by (simp add: fsm_sizes)

text \<open>On a sound page setting a slot is the same as setting the leaf and rebuilding everything.\<close>

lemma fsm_set_avail_ok:
  assumes ok: "fsm_ok (fp_nodes page)" and slot: "slot < LeafNodesPerPage"
  shows "fsm_set_avail page slot v = Some (fp_nodes page ! (NonLeafNodesPerPage + slot) \<noteq> v,
     page\<lparr>fp_nodes := rebuild_all ((fp_nodes page)[NonLeafNodesPerPage + slot := v])\<rparr>)"
proof -
  let ?n = "NonLeafNodesPerPage + slot" and ?nodes = "fp_nodes page"
  note n = leaf_bounds [OF slot]
  have pg: "fsm_page ?nodes" using ok by (simp add: fsm_ok_def)
  then have len: "?n < length ?nodes" "0 < length ?nodes" using n by (auto simp: fsm_page_def)
  show ?thesis
  proof (cases "?nodes ! ?n = v")
    case True
    have "?nodes[?n := v] = ?nodes" using True by auto
    then show ?thesis using True fsm_ok_root [OF ok] n len rebuild_id [OF ok] by (auto simp: fsm_set_avail_def Let_def)
  next
    case False
    have ex: "ok_except (parentof ?n) (?nodes[?n := v])"
      using ok n pg by (auto simp: ok_except_def fsm_ok_def)
    obtain nodes' where p: "fsm_propagate (?nodes[?n := v]) ?n = Some nodes'" "same_leaves (?nodes[?n := v]) nodes'"
      using fsm_propagate_leaves [of "?nodes[?n := v]" ?n] n pg by auto
    have ok': "fsm_ok nodes'" using fsm_propagate_ok [OF ex conjunct1 [OF n] conjunct2 [OF n] p(1)] .
    have eq: "nodes' = rebuild_all (?nodes[?n := v])"
      using fsm_ok_unique [OF rebuild_ok ok'] pg p(2) by (auto simp: same_leaves_def rebuild_above)
    have "nodes' ! ?n = v" using p(2) n len by (auto simp: same_leaves_def)
    then have r: "\<not> nodes' ! 0 < v" "0 < length nodes'"
      using fsm_ok_root [OF ok', of ?n] n ok' by (auto simp: fsm_ok_def fsm_page_def not_less)
    then show ?thesis using False p(1) len by (simp add: fsm_set_avail_def Let_def r flip: eq)
  qed
qed

text \<open>On any page the slot is set, no other slot changes and the root admits the new value.\<close>

lemma fsm_set_avail_any:
  assumes pg: "fsm_page (fp_nodes page)" and slot: "slot < LeafNodesPerPage"
  obtains c page' where "fsm_set_avail page slot v = Some (c, page')" "fsm_page (fp_nodes page')"
    "same_leaves ((fp_nodes page)[NonLeafNodesPerPage + slot := v]) (fp_nodes page')"
    "v \<le> fp_nodes page' ! 0" "fp_next_slot page' = fp_next_slot page"
proof -
  let ?n = "NonLeafNodesPerPage + slot" and ?nodes = "fp_nodes page"
  note n = leaf_bounds [OF slot]
  have len: "?n < length ?nodes" "0 < length ?nodes" using n pg by (auto simp: fsm_page_def)
  show thesis
  proof (cases "?nodes ! ?n = v \<and> v \<le> ?nodes ! 0")
    case True
    moreover have "?nodes[?n := v] = ?nodes" using True by auto
    ultimately show ?thesis using pg len that [of False page] by (auto simp: fsm_set_avail_def Let_def same_leaves_def)
  next
    case False
    obtain nodes' where p: "fsm_propagate (?nodes[?n := v]) ?n = Some nodes'" "fsm_page nodes'" "same_leaves (?nodes[?n := v]) nodes'"
      using fsm_propagate_leaves [of "?nodes[?n := v]" ?n] n pg by auto
    have z: "0 < length nodes'" using p(2) n by (simp add: fsm_page_def)
    have l: "nodes' ! ?n = v" using p(3) n len by (auto simp: same_leaves_def)
    show ?thesis
    proof (cases "nodes' ! 0 < v")
      case True
      have "rebuild_all nodes' ! ?n = v" using l by (simp add: rebuild_above)
      then have "v \<le> rebuild_all nodes' ! 0" using fsm_ok_root [OF rebuild_ok [OF p(2)], of ?n] n by simp
      moreover have "same_leaves (?nodes[?n := v]) (rebuild_all nodes')"
        using p(3) by (simp add: same_leaves_def rebuild_above)
      ultimately show ?thesis using that [of True "page\<lparr>fp_nodes := rebuild_all nodes'\<rparr>"] True p z len
        by (simp add: fsm_set_avail_def Let_def fsm_rebuild_page_eq False)
    next
      case F: False
      then show ?thesis using that [of True "page\<lparr>fp_nodes := nodes'\<rparr>"] p z len
        by (simp add: fsm_set_avail_def Let_def False F, simp add: not_less)
    qed
  qed
qed

end
