(* ===== verification/FsmSearch.thy ===== *)
theory FsmSearch
  imports FsmPage
begin

text \<open>
  The search in a free space map page. Nodes are addressed by level and position, which turns the
  walk right and up of \<open>fsm_search_avail\<close> into arithmetic; the loop keeps a search triangle such that
  everything between the hint and the triangle is too low. The theory also has the page as a map
  from slots to categories, the interface its users rely on, and the properties of the page.
\<close>

section \<open>Nodes by level\<close>

text \<open>The \<open>j\<close>-th node of level \<open>d\<close>, the root being level 0 and the leaves level 12.\<close>

definition node :: "nat \<Rightarrow> nat \<Rightarrow> nat" where
  "node d j = 2 ^ d - 1 + j"

lemma node_leaf: "node 12 j = NonLeafNodesPerPage + j"
  by (simp add: node_def fsm_sizes)

lemma node_children:
  "leftchild (node d j) = node (Suc d) (2 * j)" "rightchild (node d j) = node (Suc d) (2 * j + 1)"
proof -
  obtain k where "(2::nat) ^ d = Suc k" by (cases "(2::nat) ^ d") auto
  then show "leftchild (node d j) = node (Suc d) (2 * j)" "rightchild (node d j) = node (Suc d) (2 * j + 1)"
    by (simp_all add: node_def leftchild_def rightchild_def)
qed

lemma node_parent: "0 < d \<Longrightarrow> parentof (node d j) = node (d - 1) (j div 2)"
proof (cases d)
  case (Suc e)
  obtain k where "(2::nat) ^ e = Suc k" by (cases "(2::nat) ^ e") auto
  then show ?thesis using Suc by (simp add: node_def parentof_def)
qed simp

lemma and_pred_pow2:
  "0 < m \<Longrightarrow> m < 2 ^ Suc d \<Longrightarrow> 2 ^ d \<le> m \<Longrightarrow> (m AND (m - 1) = 0) = (m = (2::nat) ^ d)"
proof (induction d arbitrary: m)
  case (Suc d)
  show ?case
  proof (cases "even m")
    case True
    then obtain k where k: "m = 2 * k" by (rule evenE)
    have "(m - 1) div 2 = k - 1" "odd (m - 1)" using k Suc.prems by auto
    then have "m AND (m - 1) = 2 * (k AND (k - 1))" using k by (subst and_rec) simp
    then show ?thesis using Suc k by auto
  next
    case False
    then obtain k where k: "m = 2 * k + 1" by (rule oddE)
    then have "m AND (m - 1) = 2 * k" by (subst and_rec) simp
    moreover have "m \<noteq> 2 ^ Suc d" using False by auto
    moreover have "1 \<le> (2::nat) ^ d" by simp
    then have "k \<noteq> 0" using Suc.prems(3) unfolding k power_Suc by linarith
    ultimately show ?thesis by simp
  qed
qed auto

lemma rightneighbor_node:
  assumes "j < 2 ^ d" shows "rightneighbor (node d j) = node d (if Suc j = 2 ^ d then 0 else Suc j)"
proof -
  let ?x = "node d j + 1"
  have pos: "1 \<le> (2::nat) ^ d" by simp
  then have x: "?x + 1 = 2 ^ d + Suc j" "?x = (?x + 1) - 1" by (simp_all add: node_def)
  have zero: "((?x + 1) AND ?x = 0) = (Suc j = 2 ^ d)"
  proof (cases "Suc j = 2 ^ d")
    case True
    then have e: "?x + 1 = 2 ^ Suc d" using x by simp
    have "((?x + 1) AND (?x + 1 - 1) = 0) = (?x + 1 = 2 ^ Suc d)" unfolding e by (rule and_pred_pow2) simp_all
    then show ?thesis using True e by simp
  next
    case False
    then have "((?x + 1) AND (?x + 1 - 1) = 0) = (?x + 1 = 2 ^ d)"
      using assms x by (intro and_pred_pow2) auto
    then show ?thesis using False x by simp
  qed
  have "parentof ?x = node d 0" if "Suc j = 2 ^ d"
    using that x pos by (simp add: parentof_def node_def)
  moreover have "?x = node d (Suc j)" by (simp add: node_def)
  moreover have "rightneighbor (node d j) = (if Suc j = 2 ^ d then parentof ?x else ?x)"
    by (simp only: rightneighbor_def Let_def zero)
  ultimately show ?thesis by simp
qed


section \<open>What a node promises\<close>

definition leaf :: "uint8 list \<Rightarrow> nat \<Rightarrow> uint8" where
  "leaf nodes s = nodes ! (NonLeafNodesPerPage + s)"

text \<open>The slots below node \<open>j\<close> of level \<open>d\<close> with at least \<open>m\<close>.\<close>

definition fits :: "uint8 list \<Rightarrow> uint8 \<Rightarrow> nat \<Rightarrow> nat \<Rightarrow> nat \<Rightarrow> bool" where
  "fits nodes m d j s \<longleftrightarrow> s < LeafNodesPerPage \<and> s div 2 ^ (12 - d) = j \<and> m \<le> leaf nodes s"

lemma fits_child:
  assumes "d < 12" shows "fits nodes m d j s \<longleftrightarrow> fits nodes m (Suc d) (2 * j) s \<or> fits nodes m (Suc d) (2 * j + 1) s"
proof -
  have "12 - d = Suc (12 - Suc d)" using assms by simp
  then have "s div 2 ^ (12 - d) = s div 2 ^ (12 - Suc d) div 2" by (simp add: div_mult2_eq power_Suc2 del: power_Suc)
  moreover have "q div 2 = j \<longleftrightarrow> q = 2 * j \<or> q = 2 * j + 1" for q :: nat by presburger
  ultimately show ?thesis by (simp only: fits_def) blast
qed

lemma node_less: "d \<le> 12 \<Longrightarrow> j < 2 ^ d \<Longrightarrow> d < 12 \<longleftrightarrow> node d j < NonLeafNodesPerPage"
proof -
  assume d: "d \<le> 12" "j < 2 ^ d"
  have "(2::nat) ^ Suc d \<le> 2 ^ 12" if "d < 12" using that by (intro power_increasing) auto
  then show ?thesis using d by (cases "d = 12") (auto simp: node_def fsm_sizes)
qed

lemma node_exists: "d \<le> 12 \<Longrightarrow> j < 2 ^ d \<Longrightarrow> node d j < NodesPerPage \<longleftrightarrow> d < 12 \<or> j < LeafNodesPerPage"
  using node_less [of d j] by (cases "d = 12") (auto simp: fsm_sizes node_leaf)

lemma node_fits:
  assumes ok: "fsm_ok nodes" and m: "0 < m"
  shows "d \<le> 12 \<Longrightarrow> j < 2 ^ d \<Longrightarrow> node d j < NodesPerPage \<Longrightarrow> m \<le> nodes ! node d j \<longleftrightarrow> (\<exists>s. fits nodes m d j s)"
proof (induction "12 - d" arbitrary: d j)
  case 0
  then have "d = 12" by simp
  then show ?case using 0 node_exists [of 12 j] by (auto simp: fits_def leaf_def node_leaf)
next
  case (Suc h)
  then have d: "d < 12" by simp
  have v: "nodes ! node d j = node_max nodes (node d j)"
    using ok node_less [of d j] Suc.prems d by (simp add: fsm_ok_def)
  have child: "(if node (Suc d) i < NodesPerPage then m \<le> nodes ! node (Suc d) i else m \<le> 0) \<longleftrightarrow> (\<exists>s. fits nodes m (Suc d) i s)"
    if "i < 2 ^ Suc d" for i
  proof (cases "node (Suc d) i < NodesPerPage")
    case True
    then show ?thesis using Suc.hyps(1) [of "Suc d" i] Suc.hyps(2) d that by simp
  next
    case False
    then have "Suc d = 12" "LeafNodesPerPage \<le> i" using node_exists [of "Suc d" i] d that by auto
    then show ?thesis using False m by (auto simp: fits_def)
  qed
  have "m \<le> nodes ! node d j \<longleftrightarrow> (\<exists>s. fits nodes m (Suc d) (2 * j) s) \<or> (\<exists>s. fits nodes m (Suc d) (2 * j + 1) s)"
    using child [of "2 * j"] child [of "2 * j + 1"] Suc.prems(2)
    by (auto simp: v node_max_def node_children le_max_iff_disj)
  then show ?case using fits_child [OF d] by blast
qed

section \<open>The search\<close>

definition low :: "uint8 list \<Rightarrow> uint8 \<Rightarrow> nat \<Rightarrow> nat \<Rightarrow> bool" where
  "low nodes m a b \<longleftrightarrow> (\<forall>s. a \<le> s \<and> s < b \<and> s < LeafNodesPerPage \<longrightarrow> leaf nodes s < m)"

lemma low_trans: "low nodes m a b \<Longrightarrow> low nodes m b c \<Longrightarrow> low nodes m a c"
  unfolding low_def using not_le by blast

lemma low_end: "low nodes m a b \<Longrightarrow> LeafNodesPerPage \<le> b \<Longrightarrow> low nodes m a LeafNodesPerPage"
  by (auto simp: low_def)

text \<open>
  The search triangle: node \<open>j\<close> of level \<open>d\<close>. Every slot from the target to the left edge of the
  triangle is too low; once the search has wrapped around, every slot from the target to the end is.
\<close>

definition triangle :: "nat \<Rightarrow> nat \<Rightarrow> bool" where
  "triangle d j \<longleftrightarrow> d \<le> 12 \<and> j < 2 ^ d \<and> node d j < NodesPerPage"

definition searched :: "uint8 list \<Rightarrow> uint8 \<Rightarrow> nat \<Rightarrow> nat \<Rightarrow> nat \<Rightarrow> bool" where
  "searched nodes m t d j \<longleftrightarrow>
     t \<le> j * 2 ^ (12 - d) \<and> low nodes m t (j * 2 ^ (12 - d)) \<or> j = 0 \<and> low nodes m t LeafNodesPerPage"

definition next_j :: "nat \<Rightarrow> nat \<Rightarrow> nat" where
  "next_j d j = (if Suc j = 2 ^ d then 0 else Suc j) div 2"

lemma climb_node: "0 < d \<Longrightarrow> j < 2 ^ d \<Longrightarrow> parentof (rightneighbor (node d j)) = node (d - 1) (next_j d j)"
  by (simp add: rightneighbor_node node_parent next_j_def)

lemma triangle_next: "triangle d j \<Longrightarrow> 0 < d \<Longrightarrow> triangle (d - 1) (next_j d j)"
proof -
  assume t: "triangle d j" and d: "0 < d"
  then obtain e where e: "d = Suc e" by (cases d) auto
  have "next_j d j < 2 ^ e" using t e by (auto simp: next_j_def triangle_def)
  moreover have "node e (next_j d j) < NonLeafNodesPerPage"
    using node_less [of e "next_j d j"] calculation t e by (simp add: triangle_def)
  ultimately show ?thesis using t e by (simp add: triangle_def fsm_sizes)
qed

lemma node_pos: "0 < d \<Longrightarrow> 0 < node d j"
proof -
  assume "0 < d"
  then obtain e where "d = Suc e" by (cases d) auto
  moreover obtain k where "(2::nat) ^ e = Suc k" by (cases "(2::nat) ^ e") auto
  ultimately show ?thesis by (simp add: node_def)
qed

lemma searched_next:
  assumes ok: "fsm_ok nodes" and m: "0 < m" and tr: "triangle d j" and d: "0 < d"
    and s: "searched nodes m t d j" and v: "nodes ! node d j < m"
  shows "searched nodes m t (d - 1) (next_j d j)"
proof -
  define w where "w = (2::nat) ^ (12 - d)"
  have w: "2 ^ (12 - (d - 1)) = 2 * w" "0 < w"
    using d tr by (auto simp: w_def triangle_def Suc_diff_le simp flip: power_Suc)
  have "\<not> m \<le> nodes ! node d j" using v by simp
  then have no: "\<not> fits nodes m d j x" for x using node_fits [OF ok m] tr unfolding triangle_def by blast
  have here: "low nodes m (j * w) ((j + 1) * w)"
  proof -
    have "x div w = j" if "j * w \<le> x" "x < (j + 1) * w" for x
      using that w(2) by (simp add: div_nat_eqI mult.commute)
    then show ?thesis using no by (auto simp: low_def fits_def w_def not_le)
  qed
  show ?thesis
  proof (cases "Suc j = 2 ^ d")
    case True
    have end': "LeafNodesPerPage \<le> (j + 1) * w"
    proof -
      have "(j + 1) * w = 2 ^ 12" using True tr by (simp add: w_def triangle_def flip: power_add)
      then show ?thesis by (simp add: fsm_sizes)
    qed
    have "low nodes m t LeafNodesPerPage"
      using s low_end [OF low_trans [OF _ here] end'] unfolding searched_def w_def [symmetric] by blast
    then show ?thesis using True by (simp add: searched_def next_j_def)
  next
    case False
    show ?thesis
    proof (cases "j = 0 \<and> low nodes m t LeafNodesPerPage")
      case True
      then show ?thesis using False by (simp add: searched_def next_j_def)
    next
      case nw: False
      then have t: "t \<le> j * w" "low nodes m t (j * w)" using s by (auto simp: searched_def w_def)
      have "next_j d j = Suc j div 2" using False by (simp add: next_j_def)
      then have "next_j d j * 2 = j \<or> next_j d j * 2 = j + 1" by presburger
      then have e: "next_j d j * (2 * w) = j * w \<or> next_j d j * (2 * w) = (j + 1) * w"
        unfolding mult.assoc [symmetric] by (elim disjE) simp_all
      have "low nodes m t ((j + 1) * w)" using low_trans [OF t(2) here] .
      moreover define x where "x = next_j d j * (2 * w)"
      ultimately have "t \<le> x \<and> low nodes m t x" using e t unfolding x_def [symmetric] by auto
      then show ?thesis unfolding searched_def w(1) x_def by blast
    qed
  qed
qed

lemma fsm_climb_total:
  assumes "fsm_page nodes" "triangle d j"
  shows "\<exists>d' j'. fsm_climb nodes m (node d j) = Some (node d' j') \<and> triangle d' j' \<and> (d' = 0 \<or> m \<le> nodes ! node d' j')"
  using assms(2)
proof (induction d arbitrary: j)
  case 0
  then show ?case by (intro exI [of _ 0] exI [of _ j]) (simp add: triangle_def node_def fsm_climb.simps)
next
  case (Suc d)
  have a: "arr_get nodes (node (Suc d) j) = Some (nodes ! node (Suc d) j)" "0 < node (Suc d) j"
    using assms(1) Suc.prems by (simp_all add: triangle_def fsm_page_def node_pos)
  show ?case
  proof (cases "m \<le> nodes ! node (Suc d) j")
    case True
    then show ?thesis using Suc.prems a by (subst fsm_climb.simps) auto
  next
    case False
    have "fsm_climb nodes m (node (Suc d) j) = fsm_climb nodes m (node d (next_j (Suc d) j))"
      using a False climb_node [of "Suc d" j] Suc.prems by (subst fsm_climb.simps) (simp add: triangle_def)
    then show ?thesis using Suc.IH [of "next_j (Suc d) j"] triangle_next [OF Suc.prems] by simp
  qed
qed

lemma fsm_climb_searched:
  assumes "fsm_ok nodes" "0 < m" "m \<le> nodes ! 0" "triangle d j" "searched nodes m t d j"
  shows "\<exists>d' j'. fsm_climb nodes m (node d j) = Some (node d' j') \<and> triangle d' j' \<and>
     searched nodes m t d' j' \<and> m \<le> nodes ! node d' j'"
  using assms(4,5)
proof (induction d arbitrary: j)
  case 0
  then show ?case using assms(3)
    by (intro exI [of _ 0] exI [of _ j]) (simp add: triangle_def node_def fsm_climb.simps)
next
  case (Suc d)
  have a: "arr_get nodes (node (Suc d) j) = Some (nodes ! node (Suc d) j)" "0 < node (Suc d) j"
    using assms(1) Suc.prems by (simp_all add: triangle_def fsm_ok_def fsm_page_def node_pos)
  show ?case
  proof (cases "m \<le> nodes ! node (Suc d) j")
    case True
    then show ?thesis using Suc.prems a by (subst fsm_climb.simps) auto
  next
    case False
    have "fsm_climb nodes m (node (Suc d) j) = fsm_climb nodes m (node d (next_j (Suc d) j))"
      using a False climb_node [of "Suc d" j] Suc.prems by (subst fsm_climb.simps) (simp add: triangle_def)
    then show ?thesis
      using Suc.IH [of "next_j (Suc d) j"] triangle_next [OF Suc.prems(1)]
        searched_next [OF assms(1,2) Suc.prems(1) _ Suc.prems(2)] False by (simp add: not_le)
  qed
qed


text \<open>The descent on any page ends at a leaf with enough space below its start, or finds the page corrupt.\<close>

lemma fsm_descend_step:
  assumes pg: "fsm_page nodes" and d: "d < 12" and j: "j < 2 ^ d"
  shows "fsm_descend nodes m (node d j) =
    (if node (Suc d) (2 * j) < NodesPerPage \<and> m \<le> nodes ! node (Suc d) (2 * j) then fsm_descend nodes m (node (Suc d) (2 * j))
     else if node (Suc d) (2 * j + 1) < NodesPerPage \<and> m \<le> nodes ! node (Suc d) (2 * j + 1)
     then fsm_descend nodes m (node (Suc d) (2 * j + 1))
     else Some Corrupt)"
proof -
  have n: "node d j < NonLeafNodesPerPage" using node_less [of d j] d j by simp
  have a: "(if i < NodesPerPage then map_option (\<lambda>v. m \<le> v) (arr_get nodes i) else Some False) =
      Some (i < NodesPerPage \<and> m \<le> nodes ! i)" for i
    using pg by (simp add: fsm_page_def)
  have c: "leftchild (node d j) = node (Suc d) (2 * j)" "node (Suc d) (2 * j) + 1 = node (Suc d) (2 * j + 1)"
    by (simp_all add: node_children) (simp add: node_def)
  show ?thesis
    by (subst fsm_descend.simps) (simp only: n if_True Let_def a c Option.bind.simps)
qed

lemma fsm_descend_total:
  assumes "fsm_page nodes" "triangle d j" "d = 12 \<longrightarrow> m \<le> nodes ! node d j"
  shows "fsm_descend nodes m (node d j) = Some Corrupt \<or>
    (\<exists>s. fsm_descend nodes m (node d j) = Some (Leaf (NonLeafNodesPerPage + s)) \<and> fits nodes m d j s)"
  using assms(2,3)
proof (induction "12 - d" arbitrary: d j)
  case 0
  then have d: "d = 12" by (simp add: triangle_def)
  then have "\<not> node d j < NonLeafNodesPerPage" "j < LeafNodesPerPage"
    using 0 node_less [of d j] node_exists [of d j] by (auto simp: triangle_def)
  then show ?case using 0 d by (subst fsm_descend.simps, subst (2) fsm_descend.simps) (simp add: node_leaf fits_def leaf_def)
next
  case (Suc h)
  then have d: "d < 12" by simp
  have j: "j < 2 ^ d" using Suc.prems by (simp add: triangle_def)
  have IH: "fsm_descend nodes m (node (Suc d) i) = Some Corrupt \<or>
    (\<exists>s. fsm_descend nodes m (node (Suc d) i) = Some (Leaf (NonLeafNodesPerPage + s)) \<and> fits nodes m d j s)"
    if "i = 2 * j \<or> i = 2 * j + 1" "node (Suc d) i < NodesPerPage \<and> m \<le> nodes ! node (Suc d) i" for i
  proof -
    have "triangle (Suc d) i" using that j d by (auto simp: triangle_def)
    moreover have "h = 12 - Suc d" using Suc.hyps(2) by simp
    ultimately show ?thesis using Suc.hyps(1) [of "Suc d" i] that fits_child [OF d, of nodes m j] by blast
  qed
  show ?case unfolding fsm_descend_step [OF assms(1) d j]
    using IH [of "2 * j"] IH [of "2 * j + 1"] by (simp split: if_split)
qed

text \<open>On a sound page it ends at the leftmost suitable leaf.\<close>

lemma fsm_descend_first:
  assumes "fsm_ok nodes" "0 < m" "triangle d j" "m \<le> nodes ! node d j"
  shows "\<exists>s. fsm_descend nodes m (node d j) = Some (Leaf (NonLeafNodesPerPage + s)) \<and> fits nodes m d j s \<and>
     (\<forall>s'. fits nodes m d j s' \<longrightarrow> s \<le> s')"
  using assms(3,4)
proof (induction "12 - d" arbitrary: d j)
  case 0
  then have d: "d = 12" by (simp add: triangle_def)
  then have "\<not> node d j < NonLeafNodesPerPage" "j < LeafNodesPerPage"
    using 0 node_less [of d j] node_exists [of d j] by (auto simp: triangle_def)
  then show ?case using 0 d by (subst fsm_descend.simps) (simp add: node_leaf fits_def leaf_def)
next
  case (Suc h)
  then have d: "d < 12" by simp
  have j: "j < 2 ^ d" using Suc.prems by (simp add: triangle_def)
  have pg: "fsm_page nodes" using assms(1) by (simp add: fsm_ok_def)
  note child = fits_child [OF d, of nodes m j]
  have ex: "(\<exists>s. fits nodes m (Suc d) i s) \<longleftrightarrow> node (Suc d) i < NodesPerPage \<and> m \<le> nodes ! node (Suc d) i"
    if "i = 2 * j \<or> i = 2 * j + 1" for i
  proof (cases "node (Suc d) i < NodesPerPage")
    case True
    then show ?thesis using node_fits [OF assms(1,2), of "Suc d" i] that j d by auto
  next
    case False
    then have "Suc d = 12" "LeafNodesPerPage \<le> i" using node_exists [of "Suc d" i] d j that by auto
    then show ?thesis using False by (auto simp: fits_def)
  qed
  have some: "\<exists>s. fits nodes m d j s" using node_fits [OF assms(1,2), of d j] Suc.prems by (auto simp: triangle_def)
  have IH: "\<exists>s. fsm_descend nodes m (node (Suc d) i) = Some (Leaf (NonLeafNodesPerPage + s)) \<and> fits nodes m (Suc d) i s \<and>
      (\<forall>s'. fits nodes m (Suc d) i s' \<longrightarrow> s \<le> s')"
    if "i = 2 * j \<or> i = 2 * j + 1" "node (Suc d) i < NodesPerPage \<and> m \<le> nodes ! node (Suc d) i" for i
  proof -
    have "triangle (Suc d) i" using that j d by (auto simp: triangle_def)
    moreover have "h = 12 - Suc d" using Suc.hyps(2) by simp
    ultimately show ?thesis using Suc.hyps(1) [of "Suc d" i] that by blast
  qed
  have order: "s < s'" if "fits nodes m (Suc d) (2 * j) s" "fits nodes m (Suc d) (2 * j + 1) s'" for s s'
  proof (rule ccontr)
    assume "\<not> s < s'"
    then have "s' div 2 ^ (12 - Suc d) \<le> s div 2 ^ (12 - Suc d)" by (intro div_le_mono) simp
    then show False using that by (simp add: fits_def)
  qed
  show ?case
  proof (cases "\<exists>s. fits nodes m (Suc d) (2 * j) s")
    case True
    then show ?thesis
      using IH [of "2 * j"] ex [of "2 * j"] fsm_descend_step [OF pg d j] child order by (fastforce dest: less_imp_le)
  next
    case False
    then have "\<exists>s. fits nodes m (Suc d) (2 * j + 1) s" using some child by blast
    then show ?thesis
      using IH [of "2 * j + 1"] ex [of "2 * j"] ex [of "2 * j + 1"] fsm_descend_step [OF pg d j] child False by auto
  qed
qed

text \<open>The distance of a slot from the target, going right and around the end of the page.\<close>

definition ahead :: "nat \<Rightarrow> nat \<Rightarrow> nat" where
  "ahead t s = (if t \<le> s then s - t else s + LeafNodesPerPage - t)"

definition first_fit :: "uint8 list \<Rightarrow> uint8 \<Rightarrow> nat \<Rightarrow> nat \<Rightarrow> bool" where
  "first_fit nodes m t s \<longleftrightarrow> s < LeafNodesPerPage \<and> m \<le> leaf nodes s \<and>
     (\<forall>s' < LeafNodesPerPage. m \<le> leaf nodes s' \<longrightarrow> ahead t s \<le> ahead t s')"

lemma searched_first:
  assumes tr: "triangle d j" and se: "searched nodes m t d j" and s: "fits nodes m d j s"
    and least: "\<forall>s'. fits nodes m d j s' \<longrightarrow> s \<le> s'" and t: "t < LeafNodesPerPage"
  shows "first_fit nodes m t s"
proof -
  define w where "w = (2::nat) ^ (12 - d)"
  have w: "0 < w" by (simp add: w_def)
  have sd: "s div w = j" "s < LeafNodesPerPage" "m \<le> leaf nodes s" using s by (auto simp: fits_def w_def)
  have js: "j * w \<le> s" using sd(1) by auto
  have above: "ahead t s \<le> ahead t s'" if s': "s' < LeafNodesPerPage" "m \<le> leaf nodes s'" for s'
    using se unfolding searched_def w_def [symmetric]
  proof (elim disjE conjE)
    assume t': "t \<le> j * w" and l: "low nodes m t (j * w)"
    have "s \<le> s' \<or> s' < t"
    proof (rule ccontr)
      assume "\<not> (s \<le> s' \<or> s' < t)"
      then have c: "t \<le> s'" "s' < s" by auto
      show False
      proof (cases "s' < j * w")
        case True
        then show False using l c s' unfolding low_def by (meson leD)
      next
        case False
        then have "s' div w = j" using c(2) sd(1) js by (metis div_le_mono div_mult_self_is_m le_antisym less_imp_le_nat linorder_not_less w)
        then have "fits nodes m d j s'" using s' by (simp add: fits_def w_def)
        then show False using least c by (simp add: leD)
      qed
    qed
    then show ?thesis using t' js sd(2) by (auto simp: ahead_def)
  next
    assume j: "j = 0" and l: "low nodes m t LeafNodesPerPage"
    have lt: "x < t" if "x < LeafNodesPerPage" "m \<le> leaf nodes x" for x
      using l that unfolding low_def by (meson leD leI)
    have "s' < w \<Longrightarrow> s \<le> s'" using least s' j by (simp add: fits_def w_def)
    moreover have "s < w" using sd(1) j w by (simp add: div_eq_0_iff)
    ultimately have "s \<le> s'" by linarith
    then show ?thesis using lt [OF sd(2,3)] lt [OF s'] by (auto simp: ahead_def)
  qed
  then show ?thesis using sd by (simp add: first_fit_def)
qed

lemma fsm_target_less: "fsm_target page < LeafNodesPerPage"
  by (auto simp: fsm_target_def fsm_sizes)

lemma target_triangle: "t < LeafNodesPerPage \<Longrightarrow> triangle 12 t" "searched nodes m t 12 t"
  by (auto simp: triangle_def node_leaf fsm_sizes searched_def low_def)

lemma root_fits:
  assumes "fsm_ok nodes" "0 < m" shows "m \<le> nodes ! 0 \<longleftrightarrow> (\<exists>s < LeafNodesPerPage. m \<le> leaf nodes s)"
proof -
  have "s div 4096 = 0" if "s < LeafNodesPerPage" for s using that by (simp add: fsm_sizes)
  then show ?thesis using node_fits [OF assms, of 0 0] by (auto simp: node_def fits_def fsm_sizes)
qed

lemma fsm_path_first:
  assumes ok: "fsm_ok nodes" and root: "m \<le> nodes ! 0" and t: "t < LeafNodesPerPage"
  obtains s n where "fsm_climb nodes m (t + NonLeafNodesPerPage) = Some n"
    "fsm_descend nodes m n = Some (Leaf (NonLeafNodesPerPage + s))" "first_fit nodes m t s"
proof (cases "m = 0")
  case True
  have n: "t + NonLeafNodesPerPage < length nodes" using ok t by (simp add: fsm_ok_def fsm_page_def fsm_sizes)
  have "fsm_climb nodes m (t + NonLeafNodesPerPage) = Some (t + NonLeafNodesPerPage)"
    using True n t by (subst fsm_climb.simps) (simp add: fsm_sizes)
  moreover have "fsm_descend nodes m (t + NonLeafNodesPerPage) = Some (Leaf (NonLeafNodesPerPage + t))"
    by (subst fsm_descend.simps) (simp add: add.commute)
  moreover have "first_fit nodes m t t" using True t by (simp add: first_fit_def ahead_def)
  ultimately show ?thesis using that by blast
next
  case False
  then have m: "0 < m" by (simp add: word_neq_0_conv)
  obtain d j where c: "fsm_climb nodes m (node 12 t) = Some (node d j)" "triangle d j" "searched nodes m t d j"
      "m \<le> nodes ! node d j"
    using fsm_climb_searched [OF ok m root target_triangle(1) [OF t] target_triangle(2)] by blast
  obtain s where s: "fsm_descend nodes m (node d j) = Some (Leaf (NonLeafNodesPerPage + s))" "fits nodes m d j s"
      "\<forall>s'. fits nodes m d j s' \<longrightarrow> s \<le> s'"
    using fsm_descend_first [OF ok m c(2,4)] by blast
  show ?thesis using that [of "node d j" s] c(1) s(1) searched_first [OF c(2,3) s(2,3) t]
    by (simp add: node_leaf add.commute)
qed

text \<open>One round of the search on a sound page answers.\<close>

lemma fsm_search_round_ok:
  assumes ok: "fsm_ok (fp_nodes (bpage buf))"
  defines "t \<equiv> fsm_target (bpage buf)" and "nodes \<equiv> fp_nodes (bpage buf)"
  shows "if \<exists>s < LeafNodesPerPage. m \<le> leaf nodes s
     then \<exists>s. first_fit nodes m t s \<and> fsm_search_round buf m adv ex =
        Some (Some (int s), buf\<lparr>bpage := (bpage buf)\<lparr>fp_next_slot := int s + (if adv then 1 else 0)\<rparr>\<rparr>)
     else fsm_search_round buf m adv ex = Some (Some (-1), buf)"
proof -
  have ok': "fsm_ok nodes" and z: "arr_get nodes 0 = Some (nodes ! 0)"
    using ok by (auto simp: nodes_def fsm_ok_def fsm_page_def fsm_sizes)
  have t: "t < LeafNodesPerPage" by (simp add: t_def fsm_target_less)
  have iff: "m \<le> nodes ! 0 \<longleftrightarrow> (\<exists>s < LeafNodesPerPage. m \<le> leaf nodes s)"
    using root_fits [OF ok', of m] t by (cases "m = 0") (auto simp: word_neq_0_conv)
  show ?thesis
  proof (cases "m \<le> nodes ! 0")
    case True
    from fsm_path_first [OF ok' True t] obtain s n where
      p: "fsm_climb nodes m (t + NonLeafNodesPerPage) = Some n"
        "fsm_descend nodes m n = Some (Leaf (NonLeafNodesPerPage + s))" "first_fit nodes m t s" .
    have "fsm_search_round buf m adv ex =
        Some (Some (int s), buf\<lparr>bpage := (bpage buf)\<lparr>fp_next_slot := int s + (if adv then 1 else 0)\<rparr>\<rparr>)"
      using True z p(1,2) by (simp add: fsm_search_round_def Let_def t_def nodes_def leD)
    then show ?thesis using True iff p(3) by auto
  next
    case False
    have "fsm_search_round buf m adv ex = Some (Some (-1), buf)"
      using z False by (simp add: fsm_search_round_def Let_def nodes_def not_le)
    then show ?thesis using False unfolding iff by simp
  qed
qed


text \<open>On any page one round answers or leaves a rebuilt page.\<close>

lemma fsm_search_round_any:
  assumes pg: "fsm_page (fp_nodes (bpage buf))" and env: "ex \<or> fsm_page (fp_nodes (meanwhile buf (bpage buf)))"
  shows "fsm_search_round buf m adv ex = Some (Some (-1), buf) \<or>
    (\<exists>s < LeafNodesPerPage. m \<le> leaf (fp_nodes (bpage buf)) s \<and> fsm_search_round buf m adv ex =
       Some (Some (int s), buf\<lparr>bpage := (bpage buf)\<lparr>fp_next_slot := int s + (if adv then 1 else 0)\<rparr>\<rparr>)) \<or>
    (\<exists>buf'. fsm_search_round buf m adv ex = Some (None, buf') \<and> fsm_ok (fp_nodes (bpage buf')))"
proof -
  let ?nodes = "fp_nodes (bpage buf)" and ?t = "fsm_target (bpage buf)"
  have z: "arr_get ?nodes 0 = Some (?nodes ! 0)" using pg by (simp add: fsm_page_def fsm_sizes)
  obtain d j where c: "fsm_climb ?nodes m (?t + NonLeafNodesPerPage) = Some (node d j)" "triangle d j"
      "d = 0 \<or> m \<le> ?nodes ! node d j"
    using fsm_climb_total [OF pg target_triangle(1) [OF fsm_target_less]] by (metis add.commute node_leaf)
  have "fsm_descend ?nodes m (node d j) = Some Corrupt \<or>
      (\<exists>s. fsm_descend ?nodes m (node d j) = Some (Leaf (NonLeafNodesPerPage + s)) \<and> fits ?nodes m d j s)"
    using c(3) by (intro fsm_descend_total [OF pg c(2)]) auto
  then consider (corrupt) "fsm_descend ?nodes m (node d j) = Some Corrupt"
    | (leaf) s where "fsm_descend ?nodes m (node d j) = Some (Leaf (NonLeafNodesPerPage + s))" "fits ?nodes m d j s" by blast
  then show ?thesis
  proof cases
    case corrupt
    let ?p = "if ex then bpage buf else meanwhile buf (bpage buf)"
    have "fsm_page (fp_nodes ?p)" using pg env by auto
    then show ?thesis using z c(1) corrupt rebuild_ok fsm_rebuild_page_eq [of ?p]
      by (simp add: fsm_search_round_def Let_def)
  next
    case leaf
    then show ?thesis using z c(1) by (auto simp: fsm_search_round_def Let_def fits_def)
  qed
qed

text \<open>The whole search, on a sound page and on any page.\<close>

lemma fsm_search_avail_ok:
  assumes "fsm_ok (fp_nodes (bpage buf))"
  shows "if \<exists>s < LeafNodesPerPage. m \<le> leaf (fp_nodes (bpage buf)) s
     then \<exists>s. first_fit (fp_nodes (bpage buf)) m (fsm_target (bpage buf)) s \<and> fsm_search_avail buf m adv ex =
        Some (int s, buf\<lparr>bpage := (bpage buf)\<lparr>fp_next_slot := int s + (if adv then 1 else 0)\<rparr>\<rparr>)
     else fsm_search_avail buf m adv ex = Some (-1, buf)"
  using fsm_search_round_ok [OF assms, of m adv ex] by (subst (1 2) fsm_search_avail.simps) (auto split: if_splits)

lemma fsm_search_avail_any:
  assumes pg: "fsm_page (fp_nodes (bpage buf))" and env: "ex \<or> fsm_page (fp_nodes (meanwhile buf (bpage buf)))"
  obtains r buf' where "fsm_search_avail buf m adv ex = Some (r, buf')" "fsm_page (fp_nodes (bpage buf'))"
    "r = -1 \<or> (\<exists>s < LeafNodesPerPage. r = int s \<and> m \<le> leaf (fp_nodes (bpage buf')) s)"
  using fsm_search_round_any [OF assms, of m adv]
proof (elim disjE exE conjE)
  assume "fsm_search_round buf m adv ex = Some (Some (-1), buf)"
  then show thesis using that [of "-1" buf] pg by (simp add: fsm_search_avail.simps [of buf])
next
  fix s let ?b = "buf\<lparr>bpage := (bpage buf)\<lparr>fp_next_slot := int s + (if adv then 1 else 0)\<rparr>\<rparr>"
  assume "s < LeafNodesPerPage" "m \<le> leaf (fp_nodes (bpage buf)) s" "fsm_search_round buf m adv ex = Some (Some (int s), ?b)"
  then show thesis using that [of "int s" ?b] pg by (simp add: fsm_search_avail.simps [of buf])
next
  fix b assume b: "fsm_search_round buf m adv ex = Some (None, b)" "fsm_ok (fp_nodes (bpage b))"
  have s: "fsm_search_avail buf m adv ex = fsm_search_avail b m adv True"
    using b(1) by (simp add: fsm_search_avail.simps [of buf])
  show thesis
  proof (cases "\<exists>s < LeafNodesPerPage. m \<le> leaf (fp_nodes (bpage b)) s")
    case True
    then obtain x where "first_fit (fp_nodes (bpage b)) m (fsm_target (bpage b)) x"
      "fsm_search_avail b m adv True = Some (int x, b\<lparr>bpage := (bpage b)\<lparr>fp_next_slot := int x + (if adv then 1 else 0)\<rparr>\<rparr>)"
      using fsm_search_avail_ok [OF b(2), of m adv True] by auto
    then show ?thesis using that s b(2) by (auto simp: first_fit_def fsm_ok_def)
  next
    case False
    then show ?thesis using that [of "-1" b] s fsm_search_avail_ok [OF b(2), of m adv True] b(2) by (auto simp: fsm_ok_def)
  qed
qed

section \<open>Truncation\<close>

lemma fsm_clear_loop_eq:
  "i + n \<le> length nodes \<Longrightarrow> fsm_clear_loop n i nodes c =
     Some (c \<or> (\<exists>k \<in> {i..<i + n}. nodes ! k \<noteq> 0), take i nodes @ replicate n 0 @ drop (i + n) nodes)"
proof (induction n arbitrary: i nodes c)
  case (Suc n)
  have e: "take (Suc i) (nodes[i := 0]) @ replicate n 0 @ drop (Suc i + n) (nodes[i := 0]) =
      take i nodes @ replicate (Suc n) 0 @ drop (i + Suc n) nodes"
    using Suc.prems by (simp add: take_Suc_conv_app_nth)
  have "{i..<i + Suc n} = insert i {Suc i..<Suc i + n}" by auto
  moreover have "(\<exists>k \<in> {Suc i..<Suc i + n}. nodes[i := 0] ! k \<noteq> 0) \<longleftrightarrow> (\<exists>k \<in> {Suc i..<Suc i + n}. nodes ! k \<noteq> 0)"
    by (rule bex_cong) auto
  ultimately have k: "(c \<or> nodes ! i \<noteq> 0) \<or> (\<exists>k \<in> {Suc i..<Suc i + n}. nodes[i := 0] ! k \<noteq> 0) \<longleftrightarrow>
      c \<or> (\<exists>k \<in> {i..<i + Suc n}. nodes ! k \<noteq> 0)" by (simp only: bex_simps) blast
  have "fsm_clear_loop (Suc n) i nodes c = fsm_clear_loop n (Suc i) (nodes[i := 0]) (c \<or> nodes ! i \<noteq> 0)"
    using Suc.prems by simp
  then show ?case using Suc.IH [of "Suc i" "nodes[i := 0]" "c \<or> nodes ! i \<noteq> 0"] Suc.prems
    unfolding e k by simp
qed simp

lemma fsm_truncate_avail_spec:
  assumes pg: "fsm_page (fp_nodes page)" and n: "n \<le> LeafNodesPerPage"
  obtains c page' where "fsm_truncate_avail page n = Some (c, page')" "fsm_page (fp_nodes page')"
    "\<forall>s < LeafNodesPerPage. leaf (fp_nodes page') s = (if s < n then leaf (fp_nodes page) s else 0)"
    "c \<or> page' = page" "fsm_ok (fp_nodes page) \<or> c \<longrightarrow> fsm_ok (fp_nodes page')"
proof -
  let ?i = "NonLeafNodesPerPage + n" and ?nodes = "fp_nodes page"
  let ?new = "take ?i ?nodes @ replicate (NodesPerPage - ?i) 0"
  have len: "?i + (NodesPerPage - ?i) = length ?nodes" using pg n by (simp add: fsm_page_def fsm_sizes)
  define c where "c = (\<exists>k \<in> {?i..<?i + (NodesPerPage - ?i)}. ?nodes ! k \<noteq> 0)"
  have loop: "fsm_clear_loop (NodesPerPage - ?i) ?i ?nodes False = Some (c, ?new)"
    using fsm_clear_loop_eq [of ?i "NodesPerPage - ?i" ?nodes False] len by (simp add: c_def)
  have newpg: "fsm_page ?new" using len pg by (simp add: fsm_page_def)
  have nth: "?new ! k = (if k < ?i then ?nodes ! k else 0)" if "k < NodesPerPage" for k
    using that len pg by (simp add: nth_append fsm_page_def)
  have lf: "leaf ?new s = (if s < n then leaf ?nodes s else 0)" if "s < LeafNodesPerPage" for s
    using nth [of "NonLeafNodesPerPage + s"] that by (simp add: leaf_def fsm_sizes)
  show thesis
  proof (cases c)
    case True
    have "\<forall>s < LeafNodesPerPage. leaf (rebuild_all ?new) s = (if s < n then leaf ?nodes s else 0)"
      using lf by (simp add: leaf_def rebuild_above)
    then show ?thesis
      using that [of True "page\<lparr>fp_nodes := rebuild_all ?new\<rparr>"] True loop newpg
      by (simp add: fsm_truncate_avail_def Let_def fsm_rebuild_page_eq rebuild_ok)
  next
    case False
    have "?new ! k = ?nodes ! k" if "k < NodesPerPage" for k
      using that False nth [OF that] len pg unfolding c_def fsm_page_def by (auto split: if_splits)
    then have same: "?new = ?nodes" using newpg pg by (intro nth_equalityI) (auto simp: fsm_page_def)
    have "leaf ?nodes s = (if s < n then leaf ?nodes s else 0)" if "s < LeafNodesPerPage" for s
      using lf [OF that] unfolding same .
    then show ?thesis
      using that [of False page] False loop pg unfolding same by (simp add: fsm_truncate_avail_def Let_def)
  qed
qed

section \<open>The page as a map from slots to categories\<close>

text \<open>
  What the users of a page rely on: a slot that was set reads back, and no other slot changes. The
  map keeps the promise on sound pages and on corrupt ones.
\<close>

locale slot_map =
  fixes ok :: "'p \<Rightarrow> bool" and get :: "'p \<Rightarrow> nat \<Rightarrow> 'v option"
    and put :: "'p \<Rightarrow> nat \<Rightarrow> 'v \<Rightarrow> (bool \<times> 'p) option" and slots :: nat
  assumes put_defined: "ok p \<Longrightarrow> s < slots \<Longrightarrow> \<exists>c p'. put p s v = Some (c, p') \<and> ok p'"
    and get_put: "ok p \<Longrightarrow> s < slots \<Longrightarrow> s' < slots \<Longrightarrow> put p s v = Some (c, p') \<Longrightarrow>
      get p' s' = (if s' = s then Some v else get p s')"
begin

fun puts :: "(nat \<times> 'v) list \<Rightarrow> 'p \<Rightarrow> 'p option" where
  "puts [] p = Some p"
| "puts ((s, v) # xs) p = do { (_, p) \<leftarrow> put p s v; puts xs p }"

text \<open>A sequence of updates is defined, and afterwards each slot holds what was put there last.\<close>

lemma puts_get:
  assumes "ok p" "\<forall>(s, v) \<in> set xs. s < slots"
  shows "\<exists>p'. puts xs p = Some p' \<and> ok p' \<and>
    (\<forall>s < slots. get p' s = (case map_of (rev xs) s of Some v \<Rightarrow> Some v | None \<Rightarrow> get p s))"
  using assms
proof (induction xs arbitrary: p)
  case (Cons x xs)
  obtain s v where x: "x = (s, v)" by (cases x)
  then obtain c p1 where p1: "put p s v = Some (c, p1)" "ok p1" using put_defined Cons.prems by fastforce
  from Cons.IH [OF p1(2)] Cons.prems obtain p' where
    p': "puts xs p1 = Some p'" "ok p'" "\<forall>s < slots. get p' s = (case map_of (rev xs) s of Some v \<Rightarrow> Some v | None \<Rightarrow> get p1 s)"
    by auto
  have "get p' s' = (case map_of (rev (x # xs)) s' of Some v \<Rightarrow> Some v | None \<Rightarrow> get p s')" if "s' < slots" for s'
    using p'(3) that get_put [OF Cons.prems(1) _ that p1(1)] Cons.prems(2) x
    by (auto simp: map_add_def split: option.split)
  then show ?case using p1 p'(1,2) x by simp
qed simp

end

lemma leaf_get: "fsm_page (fp_nodes page) \<Longrightarrow> s < LeafNodesPerPage \<Longrightarrow> fsm_get_avail page s = Some (leaf (fp_nodes page) s)"
  using leaf_bounds by (simp add: fsm_get_avail_def leaf_def fsm_page_def)

lemma same_leaves_leaf:
  assumes "same_leaves (nodes[NonLeafNodesPerPage + s := v]) nodes'" "fsm_page nodes" "s < LeafNodesPerPage" "s' < LeafNodesPerPage"
  shows "leaf nodes' s' = (if s' = s then v else leaf nodes s')"
  using assms leaf_bounds [of s] leaf_bounds [of s'] by (simp add: same_leaves_def leaf_def fsm_page_def nth_list_update)

interpretation any_page: slot_map "\<lambda>page. fsm_page (fp_nodes page)" fsm_get_avail fsm_set_avail LeafNodesPerPage
proof
  fix p :: FSMPageData and s v assume "fsm_page (fp_nodes p)" "s < LeafNodesPerPage"
  then show "\<exists>c p'. fsm_set_avail p s v = Some (c, p') \<and> fsm_page (fp_nodes p')"
    using fsm_set_avail_any by metis
next
  fix p :: FSMPageData and s s' v c p'
  assume a: "fsm_page (fp_nodes p)" "s < LeafNodesPerPage" "s' < LeafNodesPerPage" "fsm_set_avail p s v = Some (c, p')"
  from fsm_set_avail_any [OF a(1,2), of v] a(4)
  have "fsm_page (fp_nodes p')" "same_leaves ((fp_nodes p)[NonLeafNodesPerPage + s := v]) (fp_nodes p')" by auto
  then show "fsm_get_avail p' s' = (if s' = s then Some v else fsm_get_avail p s')"
    using same_leaves_leaf [OF _ a(1-3)] a by (simp add: leaf_get)
qed

interpretation sound_page: slot_map "\<lambda>page. fsm_ok (fp_nodes page)" fsm_get_avail fsm_set_avail LeafNodesPerPage
proof
  fix p :: FSMPageData and s v assume "fsm_ok (fp_nodes p)" "s < LeafNodesPerPage"
  then show "\<exists>c p'. fsm_set_avail p s v = Some (c, p') \<and> fsm_ok (fp_nodes p')"
    by (simp add: fsm_set_avail_ok rebuild_ok fsm_ok_page)
next
  fix p :: FSMPageData and s s' v c p'
  assume "fsm_ok (fp_nodes p)" "s < LeafNodesPerPage" "s' < LeafNodesPerPage" "fsm_set_avail p s v = Some (c, p')"
  then show "fsm_get_avail p' s' = (if s' = s then Some v else fsm_get_avail p s')"
    using any_page.get_put [of p s s' v c p'] by (simp add: fsm_ok_def)
qed

section \<open>Properties\<close>

text \<open>
  C16: \<open>fsm_rebuild_page\<close> repairs any page, however corrupt: afterwards every upper node is the maximum
  of its children, the slots and the search hint are untouched, and it reports a change exactly when
  there was one.
\<close>

theorem fsm_rebuild_repairs:
  assumes "length (fp_nodes page) = NodesPerPage"
  shows "\<exists>page'. fsm_rebuild_page page = Some (page' \<noteq> page, page') \<and> fsm_ok (fp_nodes page') \<and>
    same_leaves (fp_nodes page) (fp_nodes page') \<and> fp_next_slot page' = fp_next_slot page"
proof -
  let ?p = "page\<lparr>fp_nodes := rebuild_all (fp_nodes page)\<rparr>"
  have pg: "fsm_page (fp_nodes page)" using assms by (simp add: fsm_page_def)
  have "(?p \<noteq> page) = (rebuild_all (fp_nodes page) \<noteq> fp_nodes page)" by (cases page) simp
  then show ?thesis using fsm_rebuild_page_eq [OF pg] rebuild_ok [OF pg] rebuild_leaves by (intro exI [of _ ?p]) simp
qed

definition demo_page :: FSMPageData where
  "demo_page = \<lparr>fp_next_slot = 7, fp_nodes = (replicate NodesPerPage 0)[0 := 9]\<rparr>"

theorem fsm_rebuild_repairs_witness:
  "\<exists>page'. fsm_rebuild_page demo_page = Some (page' \<noteq> demo_page, page') \<and> fsm_ok (fp_nodes page') \<and>
    same_leaves (fp_nodes demo_page) (fp_nodes page') \<and> fp_next_slot page' = 7"
  using fsm_rebuild_repairs [of demo_page] by (simp add: demo_page_def)

text \<open>
  C14: on a sound page \<open>fsm_set_avail\<close>, which walks only from the leaf to the first ancestor that
  already fits, gives the same page as writing the leaf and rebuilding all upper nodes; it reports a
  change exactly when the slot had another value.
\<close>

theorem fsm_set_avail_rebuilds:
  assumes "fsm_ok (fp_nodes page)" "slot < LeafNodesPerPage"
  shows "\<exists>c page'. fsm_set_avail page slot v = Some (c, page') \<and> fsm_ok (fp_nodes page') \<and>
    (c \<longleftrightarrow> fsm_get_avail page slot \<noteq> Some v) \<and>
    fsm_rebuild_page (page\<lparr>fp_nodes := (fp_nodes page)[NonLeafNodesPerPage + slot := v]\<rparr>) =
      Some (fp_nodes page' \<noteq> (fp_nodes page)[NonLeafNodesPerPage + slot := v], page')"
proof -
  have pg: "fsm_page (fp_nodes page)" using assms(1) by (simp add: fsm_ok_def)
  show ?thesis using fsm_set_avail_ok [OF assms, of v] pg assms(2)
    by (simp add: fsm_rebuild_page_eq rebuild_ok leaf_get leaf_def)
qed

definition empty_page :: FSMPageData where
  "empty_page = \<lparr>fp_next_slot = 0, fp_nodes = replicate NodesPerPage 0\<rparr>"

lemma empty_page_ok: "fsm_ok (fp_nodes empty_page)"
  by (simp add: empty_page_def fsm_ok_def fsm_page_def node_max_def fsm_sizes)

theorem fsm_set_avail_rebuilds_witness:
  "\<exists>c page'. fsm_set_avail empty_page 3 200 = Some (c, page') \<and> fsm_ok (fp_nodes page') \<and> c"
  using fsm_set_avail_rebuilds [OF empty_page_ok, of 3 200] by (auto simp: leaf_get empty_page_def fsm_page_def leaf_def fsm_sizes)

text \<open>
  \<open>fsm_set_avail\<close> on a page in any state, corrupt or not: the slot has the new value, no other
  slot changed, and the root does not hide the new value from a search.
\<close>

theorem fsm_set_avail_corrupt:
  assumes "length (fp_nodes page) = NodesPerPage" "slot < LeafNodesPerPage"
  shows "\<exists>c page' r. fsm_set_avail page slot v = Some (c, page') \<and> fsm_get_max_avail page' = Some r \<and> v \<le> r \<and>
    (\<forall>s < LeafNodesPerPage. fsm_get_avail page' s = (if s = slot then Some v else fsm_get_avail page s))"
proof -
  have pg: "fsm_page (fp_nodes page)" using assms(1) by (simp add: fsm_page_def)
  from fsm_set_avail_any [OF pg assms(2), of v] obtain c page' where
    r: "fsm_set_avail page slot v = Some (c, page')" "fsm_page (fp_nodes page')" "v \<le> fp_nodes page' ! 0" by metis
  then show ?thesis using any_page.get_put [OF pg assms(2) _ r(1)]
    by (auto simp: fsm_get_max_avail_def fsm_page_def fsm_sizes)
qed

theorem fsm_set_avail_corrupt_witness:
  "\<exists>c page' r. fsm_set_avail demo_page 5 30 = Some (c, page') \<and> fsm_get_max_avail page' = Some r \<and> 30 \<le> r \<and>
    fsm_get_avail page' 5 = Some 30"
  using fsm_set_avail_corrupt [of demo_page 5 30] by (fastforce simp: demo_page_def fsm_sizes)

text \<open>
  C13: on a sound page \<open>fsm_search_avail\<close> answers -1 exactly when no slot has the wanted category, and
  otherwise the first suitable slot to the right of the hint, going around the end of the page, as
  the comment in the code claims for its example. The hint moves to the slot found, or past it.
\<close>

theorem fsm_search_finds_first:
  assumes "fsm_ok (fp_nodes (bpage buf))"
  shows "if \<exists>s < LeafNodesPerPage. m \<le> leaf (fp_nodes (bpage buf)) s
    then \<exists>s. first_fit (fp_nodes (bpage buf)) m (fsm_target (bpage buf)) s \<and> fsm_search_avail buf m adv ex =
      Some (int s, buf\<lparr>bpage := (bpage buf)\<lparr>fp_next_slot := int s + (if adv then 1 else 0)\<rparr>\<rparr>)
    else fsm_search_avail buf m adv ex = Some (-1, buf)"
  by (rule fsm_search_avail_ok [OF assms])

theorem fsm_search_finds_first_witness:
  "fsm_search_avail \<lparr>bpage = empty_page, bdirty = False, meanwhile = id\<rparr> 4 True False =
     Some (-1, \<lparr>bpage = empty_page, bdirty = False, meanwhile = id\<rparr>)"
  using fsm_search_finds_first [of "\<lparr>bpage = empty_page, bdirty = False, meanwhile = id\<rparr>" 4 True False]
    empty_page_ok by (auto simp: empty_page_def leaf_def fsm_sizes split: if_splits)

text \<open>
  C15: \<open>fsm_search_avail\<close> returns on every page, corrupt or not, whatever other backends do to the page
  while it waits for the exclusive lock: it restarts at most once. A slot it returns has the wanted
  category.
\<close>

theorem fsm_search_terminates:
  assumes "length (fp_nodes (bpage buf)) = NodesPerPage"
    "length (fp_nodes (meanwhile buf (bpage buf))) = NodesPerPage"
  shows "\<exists>r buf'. fsm_search_avail buf m adv ex = Some (r, buf') \<and>
    (r = -1 \<or> (\<exists>s < LeafNodesPerPage. r = int s \<and> m \<le> leaf (fp_nodes (bpage buf')) s))"
  using fsm_search_avail_any [of buf ex m adv] assms by (metis fsm_page_def)

theorem fsm_search_terminates_witness:
  "\<exists>r buf'. fsm_search_avail \<lparr>bpage = demo_page, bdirty = False, meanwhile = (\<lambda>_. empty_page)\<rparr> 4 True False = Some (r, buf') \<and>
    (r = -1 \<or> (\<exists>s < LeafNodesPerPage. r = int s \<and> 4 \<le> leaf (fp_nodes (bpage buf')) s))"
  by (rule fsm_search_terminates) (simp_all add: demo_page_def empty_page_def)

end
