(* ===== verification/FreeSpace.thy ===== *)
theory FreeSpace
  imports FsmSearch
begin

text \<open>
  The free space map of a relation (\<open>storage/freespace/freespace.c\<close>): a tree of map pages of three
  levels in one file, the categories in which free space is measured, and the search for a heap page
  with enough room. The state is the file of map pages and the length of the heap; what other
  backends do to a page while its lock is given up is a parameter. Numbers of pages and blocks are
  natural numbers; the bounds at the end of the theory keep them within their C types.
\<close>

section \<open>Categories\<close>

definition FSM_CATEGORIES :: nat where "FSM_CATEGORIES = 256"
definition FSM_CAT_STEP :: nat where "FSM_CAT_STEP = BLCKSZ div FSM_CATEGORIES"
definition MaxFSMRequestSize :: nat where "MaxFSMRequestSize = BLCKSZ - 32"

definition fsm_space_avail_to_cat :: "nat \<Rightarrow> uint8" where
  "fsm_space_avail_to_cat avail =
     (if avail \<ge> MaxFSMRequestSize then 255
      else let cat = avail div FSM_CAT_STEP in of_nat (if cat > 254 then 254 else cat))"

definition fsm_space_cat_to_avail :: "uint8 \<Rightarrow> nat" where
  "fsm_space_cat_to_avail cat = (if cat = 255 then MaxFSMRequestSize else unat cat * FSM_CAT_STEP)"

datatype fsm_error = InvalidRequestSize nat

definition fsm_space_needed_to_cat :: "nat \<Rightarrow> fsm_error + uint8" where
  "fsm_space_needed_to_cat needed =
     (if needed > MaxFSMRequestSize then Inl (InvalidRequestSize needed)
      else if needed = 0 then Inr 1
      else let cat = (needed + FSM_CAT_STEP - 1) div FSM_CAT_STEP in
        Inr (of_nat (if cat > 255 then 255 else cat)))"

section \<open>Addresses\<close>

abbreviation SlotsPerFSMPage :: nat where "SlotsPerFSMPage \<equiv> LeafNodesPerPage"

definition FSM_TREE_DEPTH :: nat where "FSM_TREE_DEPTH = (if SlotsPerFSMPage \<ge> 1626 then 3 else 4)"
definition FSM_ROOT_LEVEL :: nat where "FSM_ROOT_LEVEL = FSM_TREE_DEPTH - 1"
definition FSM_BOTTOM_LEVEL :: nat where "FSM_BOTTOM_LEVEL = 0"

record FSMAddress =
  level :: nat
  logpageno :: nat

definition FSM_ROOT_ADDRESS :: FSMAddress where
  "FSM_ROOT_ADDRESS = \<lparr>level = FSM_ROOT_LEVEL, logpageno = 0\<rparr>"

definition fsm_logical_to_physical :: "FSMAddress \<Rightarrow> nat" where
  "fsm_logical_to_physical addr =
     (let leafno = ((\<lambda>n. n * SlotsPerFSMPage) ^^ level addr) (logpageno addr);
          (pages, _) = ((\<lambda>(pages, leafno). (pages + leafno + 1, leafno div SlotsPerFSMPage)) ^^ FSM_TREE_DEPTH) (0, leafno)
      in pages - level addr - 1)"

definition fsm_get_location :: "nat \<Rightarrow> FSMAddress \<times> nat" where
  "fsm_get_location heapblk =
     (\<lparr>level = FSM_BOTTOM_LEVEL, logpageno = heapblk div SlotsPerFSMPage\<rparr>, heapblk mod SlotsPerFSMPage)"

definition fsm_get_heap_blk :: "FSMAddress \<Rightarrow> nat \<Rightarrow> nat" where
  "fsm_get_heap_blk addr slot = logpageno addr * SlotsPerFSMPage + slot"

definition fsm_get_parent :: "FSMAddress \<Rightarrow> FSMAddress \<times> nat" where
  "fsm_get_parent child =
     (\<lparr>level = level child + 1, logpageno = logpageno child div SlotsPerFSMPage\<rparr>, logpageno child mod SlotsPerFSMPage)"

definition fsm_get_child :: "FSMAddress \<Rightarrow> nat \<Rightarrow> FSMAddress" where
  "fsm_get_child parent slot = \<lparr>level = level parent - 1, logpageno = logpageno parent * SlotsPerFSMPage + slot\<rparr>"

section \<open>The map of a relation\<close>

record relation =
  fsm_fork :: "FSMPageData list"
  heap_nblocks :: nat
  others :: "FSMPageData \<Rightarrow> FSMPageData"

definition zero_page :: FSMPageData where
  "zero_page = \<lparr>fp_next_slot = 0, fp_nodes = replicate NodesPerPage 0\<rparr>"

definition fsm_extend :: "relation \<Rightarrow> nat \<Rightarrow> relation" where
  "fsm_extend rel fsm_nblocks =
     rel\<lparr>fsm_fork := fsm_fork rel @ replicate (fsm_nblocks - length (fsm_fork rel)) zero_page\<rparr>"

text \<open>The block of the page, or \<open>None\<close> for an invalid buffer.\<close>

definition fsm_readbuf :: "relation \<Rightarrow> FSMAddress \<Rightarrow> bool \<Rightarrow> nat option \<times> relation" where
  "fsm_readbuf rel addr ext =
     (let blkno = fsm_logical_to_physical addr in
      if blkno \<ge> length (fsm_fork rel) then
        (if ext then (Some blkno, fsm_extend rel (blkno + 1)) else (None, rel))
      else (Some blkno, rel))"

definition write_page :: "relation \<Rightarrow> nat \<Rightarrow> FSMPageData \<Rightarrow> relation" where
  "write_page rel blk page = rel\<lparr>fsm_fork := (fsm_fork rel)[blk := page]\<rparr>"

definition buffer_of :: "relation \<Rightarrow> FSMPageData \<Rightarrow> fsm_buffer" where
  "buffer_of rel page = \<lparr>bpage = page, bdirty = False, meanwhile = others rel\<rparr>"

definition fsm_does_block_exist :: "relation \<Rightarrow> nat \<Rightarrow> bool" where
  "fsm_does_block_exist rel blknumber = (blknumber < heap_nblocks rel)"

definition fsm_set_and_search :: "relation \<Rightarrow> FSMAddress \<Rightarrow> nat \<Rightarrow> uint8 \<Rightarrow> uint8 \<Rightarrow> (int \<times> relation) option" where
  "fsm_set_and_search rel addr slot newValue minValue =
     (case fsm_readbuf rel addr True of
        (None, rel) \<Rightarrow> None
      | (Some blk, rel) \<Rightarrow> do {
          page \<leftarrow> arr_get (fsm_fork rel) blk;
          (_, page) \<leftarrow> fsm_set_avail page slot newValue;
          if minValue \<noteq> 0 then do {
            (newslot, buf) \<leftarrow> fsm_search_avail (buffer_of rel page) minValue (level addr = FSM_BOTTOM_LEVEL) True;
            Some (newslot, write_page rel blk (bpage buf))
          } else Some (-1, write_page rel blk page)
        })"

section \<open>The search\<close>

datatype search_result = Found nat | InvalidBlock | Continue nat FSMAddress

text \<open>
  One turn of the loop of \<open>fsm_search\<close>. The last assignment of the branch that found a slot, which
  takes the child of the address, is also reached after the address was reset to the root.
\<close>

definition fsm_search_slot :: "relation \<Rightarrow> uint8 \<Rightarrow> FSMAddress \<Rightarrow> (int \<times> uint8 \<times> relation) option" where
  "fsm_search_slot rel min_cat addr =
     (case fsm_readbuf rel addr False of
        (None, rel) \<Rightarrow> Some (-1, 0, rel)
      | (Some blk, rel) \<Rightarrow> do {
          page \<leftarrow> arr_get (fsm_fork rel) blk;
          (slot, buf) \<leftarrow> fsm_search_avail (buffer_of rel page) min_cat (level addr = FSM_BOTTOM_LEVEL) False;
          max_avail \<leftarrow> (if slot = -1 then fsm_get_max_avail (bpage buf) else Some 0);
          Some (slot, max_avail, write_page rel blk (bpage buf))
        })"

definition fsm_search_step ::
  "relation \<Rightarrow> uint8 \<Rightarrow> nat \<Rightarrow> FSMAddress \<Rightarrow> (search_result \<times> relation) option" where
  "fsm_search_step rel min_cat restarts addr = do {
     (slot, max_avail, rel) \<leftarrow> fsm_search_slot rel min_cat addr;
     if slot \<noteq> -1 then
       if level addr = FSM_BOTTOM_LEVEL then
         (let blkno = fsm_get_heap_blk addr (nat slot) in
          if fsm_does_block_exist rel blkno then Some (Found blkno, rel)
          else do {
            let blk = fsm_logical_to_physical addr;
            page \<leftarrow> arr_get (fsm_fork rel) blk;
            (_, page) \<leftarrow> fsm_set_avail page (nat slot) 0;
            let rel = write_page rel blk page;
            if restarts > 10000 then Some (InvalidBlock, rel)
            else Some (Continue (restarts + 1) (fsm_get_child FSM_ROOT_ADDRESS (nat slot)), rel)
          })
       else Some (Continue restarts (fsm_get_child addr (nat slot)), rel)
     else if level addr = FSM_ROOT_LEVEL then Some (InvalidBlock, rel)
     else do {
       let (parent, parentslot) = fsm_get_parent addr;
       (_, rel) \<leftarrow> fsm_set_and_search rel parent parentslot max_avail 0;
       if restarts > 10000 then Some (InvalidBlock, rel)
       else Some (Continue (restarts + 1) FSM_ROOT_ADDRESS, rel)
     }
   }"

lemma fsm_search_step_decreases:
  "fsm_search_step rel c n addr = Some (Continue n' addr', rel') \<Longrightarrow>
   n < n' \<and> n \<le> 10000 \<or> n' = n \<and> level addr' < level addr"
  by (auto simp: fsm_search_step_def fsm_get_child_def FSM_BOTTOM_LEVEL_def Let_def split: if_splits prod.splits)

function fsm_search_loop :: "relation \<Rightarrow> uint8 \<Rightarrow> nat \<Rightarrow> FSMAddress \<Rightarrow> (nat option \<times> relation) option" where
  "fsm_search_loop rel min_cat restarts addr = do {
     (r, rel) \<leftarrow> fsm_search_step rel min_cat restarts addr;
     case r of
       Found blkno \<Rightarrow> Some (Some blkno, rel)
     | InvalidBlock \<Rightarrow> Some (None, rel)
     | Continue restarts addr \<Rightarrow> fsm_search_loop rel min_cat restarts addr
   }"
  by pat_completeness auto
termination
  by (relation "measures [\<lambda>(_, _, n, _). 10001 - n, \<lambda>(_, _, _, a). level a]")
    (auto dest!: fsm_search_step_decreases)

declare fsm_search_loop.simps [simp del]

definition fsm_search :: "relation \<Rightarrow> uint8 \<Rightarrow> (nat option \<times> relation) option" where
  "fsm_search rel min_cat = fsm_search_loop rel min_cat 0 FSM_ROOT_ADDRESS"


section \<open>Vacuuming the upper levels\<close>

text \<open>
  The slots \<open>ss\<close> of the page in block \<open>blk\<close>: each gets what the recursive call, here \<open>f\<close>, returns for
  the child; after the end of the file the rest is cleared.
\<close>

fun fsm_vacuum_slots :: "(relation \<Rightarrow> nat \<Rightarrow> (uint8 \<times> bool \<times> relation) option) \<Rightarrow> nat \<Rightarrow> nat list \<Rightarrow>
    bool \<Rightarrow> relation \<Rightarrow> relation option" where
  "fsm_vacuum_slots f blk [] eof rel = Some rel"
| "fsm_vacuum_slots f blk (slot # ss) eof rel = do {
     (child_avail, eof, rel) \<leftarrow> (if \<not> eof then f rel slot else Some (0, eof, rel));
     page \<leftarrow> arr_get (fsm_fork rel) blk;
     avail \<leftarrow> fsm_get_avail page slot;
     if avail \<noteq> child_avail then do {
       (_, page) \<leftarrow> fsm_set_avail page slot child_avail;
       fsm_vacuum_slots f blk ss eof (write_page rel blk page)
     } else fsm_vacuum_slots f blk ss eof rel
   }"

text \<open>The address at level \<open>l\<close> above a heap block and the slot there, by repeated \<open>fsm_get_parent\<close>.\<close>

definition fsm_ancestor :: "nat \<Rightarrow> nat \<Rightarrow> FSMAddress \<times> nat" where
  "fsm_ancestor l heapblk = ((\<lambda>(addr, _). fsm_get_parent addr) ^^ l) (fsm_get_location heapblk)"

definition fsm_vacuum_range :: "nat \<Rightarrow> nat \<Rightarrow> nat \<Rightarrow> nat \<Rightarrow> nat list" where
  "fsm_vacuum_range l no start_blk end_blk =
     (let (fsm_start, fsm_start_slot) = fsm_ancestor l start_blk;
          (fsm_end, fsm_end_slot) = fsm_ancestor l (end_blk - 1);
          start_slot = (if logpageno fsm_start = no then fsm_start_slot
                        else if logpageno fsm_start > no then SlotsPerFSMPage else 0);
          end_slot = (if logpageno fsm_end = no then int fsm_end_slot
                      else if logpageno fsm_end > no then int SlotsPerFSMPage - 1 else -1)
      in [start_slot ..< nat (end_slot + 1)])"

primrec fsm_vacuum_page :: "nat \<Rightarrow> nat \<Rightarrow> nat \<Rightarrow> nat \<Rightarrow> relation \<Rightarrow> (uint8 \<times> bool \<times> relation) option" where
  "fsm_vacuum_page 0 no start_blk end_blk rel =
     (case fsm_readbuf rel \<lparr>level = 0, logpageno = no\<rparr> False of
        (None, rel) \<Rightarrow> Some (0, True, rel)
      | (Some blk, rel) \<Rightarrow> do {
          page \<leftarrow> arr_get (fsm_fork rel) blk;
          max_avail \<leftarrow> fsm_get_max_avail page;
          Some (max_avail, False, write_page rel blk (page\<lparr>fp_next_slot := 0\<rparr>))
        })"
| "fsm_vacuum_page (Suc l) no start_blk end_blk rel =
     (case fsm_readbuf rel \<lparr>level = Suc l, logpageno = no\<rparr> False of
        (None, rel) \<Rightarrow> Some (0, True, rel)
      | (Some blk, rel) \<Rightarrow> do {
          rel \<leftarrow> fsm_vacuum_slots
            (\<lambda>rel slot. fsm_vacuum_page l (logpageno (fsm_get_child \<lparr>level = Suc l, logpageno = no\<rparr> slot)) start_blk end_blk rel)
            blk (fsm_vacuum_range (Suc l) no start_blk end_blk) False rel;
          page \<leftarrow> arr_get (fsm_fork rel) blk;
          max_avail \<leftarrow> fsm_get_max_avail page;
          Some (max_avail, False, write_page rel blk (page\<lparr>fp_next_slot := 0\<rparr>))
        })"

section \<open>The interface\<close>

definition InvalidBlockNumber :: nat where "InvalidBlockNumber = 2 ^ 32 - 1"

definition GetPageWithFreeSpace :: "relation \<Rightarrow> nat \<Rightarrow> (fsm_error + nat option \<times> relation) option" where
  "GetPageWithFreeSpace rel spaceNeeded =
     (case fsm_space_needed_to_cat spaceNeeded of
        Inl e \<Rightarrow> Some (Inl e)
      | Inr min_cat \<Rightarrow> map_option Inr (fsm_search rel min_cat))"

definition RecordAndGetPageWithFreeSpace ::
  "relation \<Rightarrow> nat \<Rightarrow> nat \<Rightarrow> nat \<Rightarrow> (fsm_error + nat option \<times> relation) option" where
  "RecordAndGetPageWithFreeSpace rel oldPage oldSpaceAvail spaceNeeded =
     (let old_cat = fsm_space_avail_to_cat oldSpaceAvail in
      case fsm_space_needed_to_cat spaceNeeded of
        Inl e \<Rightarrow> Some (Inl e)
      | Inr search_cat \<Rightarrow> do {
          let (addr, slot) = fsm_get_location oldPage;
          (search_slot, rel) \<leftarrow> fsm_set_and_search rel addr slot old_cat search_cat;
          if search_slot \<noteq> -1 \<and> fsm_does_block_exist rel (fsm_get_heap_blk addr (nat search_slot))
          then Some (Inr (Some (fsm_get_heap_blk addr (nat search_slot)), rel))
          else map_option Inr (fsm_search rel search_cat)
        })"

definition RecordPageWithFreeSpace :: "relation \<Rightarrow> nat \<Rightarrow> nat \<Rightarrow> relation option" where
  "RecordPageWithFreeSpace rel heapBlk spaceAvail =
     (let new_cat = fsm_space_avail_to_cat spaceAvail; (addr, slot) = fsm_get_location heapBlk in
      map_option snd (fsm_set_and_search rel addr slot new_cat 0))"

definition XLogRecordPageWithFreeSpace :: "relation \<Rightarrow> nat \<Rightarrow> nat \<Rightarrow> relation option" where
  "XLogRecordPageWithFreeSpace rel heapBlk spaceAvail =
     (let new_cat = fsm_space_avail_to_cat spaceAvail;
          (addr, slot) = fsm_get_location heapBlk;
          blkno = fsm_logical_to_physical addr;
          rel = fsm_extend rel (blkno + 1) in do {
        page \<leftarrow> arr_get (fsm_fork rel) blkno;
        (_, page) \<leftarrow> fsm_set_avail page slot new_cat;
        Some (write_page rel blkno page)
      })"

definition GetRecordedFreeSpace :: "relation \<Rightarrow> nat \<Rightarrow> nat option" where
  "GetRecordedFreeSpace rel heapBlk =
     (let (addr, slot) = fsm_get_location heapBlk in
      case fsm_readbuf rel addr False of
        (None, _) \<Rightarrow> Some 0
      | (Some blk, rel) \<Rightarrow> do {
          page \<leftarrow> arr_get (fsm_fork rel) blk;
          cat \<leftarrow> fsm_get_avail page slot;
          Some (fsm_space_cat_to_avail cat)
        })"

text \<open>The new length of the map, or \<open>None\<close> when there is nothing to truncate. An empty file stands for a map that does not exist.\<close>

definition FreeSpaceMapPrepareTruncateRel :: "relation \<Rightarrow> nat \<Rightarrow> (nat option \<times> relation) option" where
  "FreeSpaceMapPrepareTruncateRel rel nblocks =
     (if fsm_fork rel = [] then Some (None, rel)
      else let (first_removed_address, first_removed_slot) = fsm_get_location nblocks in
        if first_removed_slot > 0 then
          (case fsm_readbuf rel first_removed_address False of
             (None, rel) \<Rightarrow> Some (None, rel)
           | (Some blk, rel) \<Rightarrow> do {
               page \<leftarrow> arr_get (fsm_fork rel) blk;
               (_, page) \<leftarrow> fsm_truncate_avail page first_removed_slot;
               Some (Some (fsm_logical_to_physical first_removed_address + 1), write_page rel blk page)
             })
        else let new_nfsmblocks = fsm_logical_to_physical first_removed_address in
          if length (fsm_fork rel) \<le> new_nfsmblocks then Some (None, rel)
          else Some (Some new_nfsmblocks, rel))"

definition FreeSpaceMapVacuum :: "relation \<Rightarrow> relation option" where
  "FreeSpaceMapVacuum rel = map_option (\<lambda>(_, _, rel). rel) (fsm_vacuum_page FSM_ROOT_LEVEL 0 0 InvalidBlockNumber rel)"

definition FreeSpaceMapVacuumRange :: "relation \<Rightarrow> nat \<Rightarrow> nat \<Rightarrow> relation option" where
  "FreeSpaceMapVacuumRange rel start_blk end_blk =
     (if end_blk > start_blk
      then map_option (\<lambda>(_, _, rel). rel) (fsm_vacuum_page FSM_ROOT_LEVEL 0 start_blk end_blk rel)
      else Some rel)"

section \<open>Sizes\<close>

lemma fs_sizes: "FSM_CAT_STEP = 32" "MaxFSMRequestSize = 8160" "FSM_TREE_DEPTH = 3" "FSM_ROOT_LEVEL = 2" "FSM_BOTTOM_LEVEL = 0"
  by (simp_all add: FSM_CAT_STEP_def BLCKSZ_def FSM_CATEGORIES_def MaxFSMRequestSize_def FSM_TREE_DEPTH_def
      FSM_ROOT_LEVEL_def FSM_BOTTOM_LEVEL_def fsm_sizes)

lemma unat_of_nat_uint8 [simp]: "n < 256 \<Longrightarrow> unat (of_nat n :: uint8) = n"
  by (simp add: unat_of_nat take_bit_eq_mod)

text \<open>A category that admits a request guarantees the room, and rounding down never promises too much.\<close>

lemma cat_admits:
  assumes "fsm_space_needed_to_cat needed = Inr m" "m \<le> c"
  shows "needed \<le> fsm_space_cat_to_avail c"
proof -
  have m: "unat m \<le> unat c" using assms(2) by (simp add: word_le_nat_alt)
  have c: "unat c = 255 \<longleftrightarrow> c = 255" using word_unat_eq_iff [of c 255] by simp
  have "unat c < 2 ^ LENGTH(8)" by (rule unsigned_less)
  then show ?thesis using assms(1) m c
    by (auto simp: fsm_space_needed_to_cat_def fsm_space_cat_to_avail_def fs_sizes Let_def split: if_splits)
qed

lemma cat_rounds_down:
  "fsm_space_cat_to_avail (fsm_space_avail_to_cat avail) \<le> avail"
proof -
  have "(of_nat n :: uint8) \<noteq> 255" if "n < 255" for n
  proof
    assume "(of_nat n :: uint8) = 255"
    then have "unat (of_nat n :: uint8) = 255" by simp
    then show False using that by simp
  qed
  then show ?thesis
    by (auto simp: fsm_space_cat_to_avail_def fsm_space_avail_to_cat_def fs_sizes Let_def)
qed

section \<open>Physical positions\<close>

definition pos :: "nat \<Rightarrow> nat" where
  "pos n = n + n div SlotsPerFSMPage + n div SlotsPerFSMPage div SlotsPerFSMPage"

lemma physical:
  "fsm_logical_to_physical \<lparr>level = 0, logpageno = p\<rparr> = pos p + 2"
  "fsm_logical_to_physical \<lparr>level = 1, logpageno = p\<rparr> = pos (p * SlotsPerFSMPage) + 1"
  "fsm_logical_to_physical \<lparr>level = 2, logpageno = p\<rparr> = pos (p * SlotsPerFSMPage * SlotsPerFSMPage)"
proof -
  have d: "x * SlotsPerFSMPage div SlotsPerFSMPage = x" for x by (simp add: fsm_sizes)
  show "fsm_logical_to_physical \<lparr>level = 0, logpageno = p\<rparr> = pos p + 2"
    "fsm_logical_to_physical \<lparr>level = 1, logpageno = p\<rparr> = pos (p * SlotsPerFSMPage) + 1"
    "fsm_logical_to_physical \<lparr>level = 2, logpageno = p\<rparr> = pos (p * SlotsPerFSMPage * SlotsPerFSMPage)"
    by (simp_all add: fsm_logical_to_physical_def pos_def fs_sizes numeral_3_eq_3 numeral_2_eq_2 d)
qed

lemma pos_mono: "a \<le> b \<Longrightarrow> pos a \<le> pos b"
  unfolding pos_def by (intro add_mono div_le_mono) auto

lemma pos_gap: "a < b \<Longrightarrow> pos a + (b - a) \<le> pos b"
  unfolding pos_def using div_le_mono [of a b SlotsPerFSMPage]
    div_le_mono [of "a div SlotsPerFSMPage" "b div SlotsPerFSMPage" SlotsPerFSMPage] by linarith

text \<open>Before a page of level 1 there is a gap of one position, before a page of level 2 one of two.\<close>

lemma pos_gap1:
  assumes "a < q * SlotsPerFSMPage" shows "pos a + 2 \<le> pos (q * SlotsPerFSMPage)"
proof -
  have "a div SlotsPerFSMPage < q" using assms by (simp add: less_mult_imp_div_less)
  moreover have "a div SlotsPerFSMPage div SlotsPerFSMPage \<le> q div SlotsPerFSMPage"
    using calculation by (intro div_le_mono) simp
  moreover have "pos (q * SlotsPerFSMPage) = q * SlotsPerFSMPage + q + q div SlotsPerFSMPage"
    by (simp add: pos_def fsm_sizes)
  ultimately show ?thesis using assms unfolding pos_def [of a] by linarith
qed

lemma pos_gap2:
  assumes "a < q * SlotsPerFSMPage * SlotsPerFSMPage" shows "pos a + 3 \<le> pos (q * SlotsPerFSMPage * SlotsPerFSMPage)"
proof -
  have 1: "a div SlotsPerFSMPage < q * SlotsPerFSMPage" using assms by (simp add: less_mult_imp_div_less)
  then have 2: "a div SlotsPerFSMPage div SlotsPerFSMPage < q" by (simp add: less_mult_imp_div_less)
  have "q * SlotsPerFSMPage * SlotsPerFSMPage div SlotsPerFSMPage = q * SlotsPerFSMPage"
    "q * SlotsPerFSMPage div SlotsPerFSMPage = q" by (simp_all add: fsm_sizes)
  then have "pos (q * SlotsPerFSMPage * SlotsPerFSMPage) = q * SlotsPerFSMPage * SlotsPerFSMPage + q * SlotsPerFSMPage + q"
    by (simp only: pos_def)
  then show ?thesis using assms 1 2 unfolding pos_def [of a] by linarith
qed

lemma physical_injective:
  assumes "level a \<le> FSM_ROOT_LEVEL" "level b \<le> FSM_ROOT_LEVEL" "fsm_logical_to_physical a = fsm_logical_to_physical b"
  shows "a = (b :: FSMAddress)"
proof -
  obtain la p where a: "a = \<lparr>level = la, logpageno = p\<rparr>" by (cases a)
  obtain lb q where b: "b = \<lparr>level = lb, logpageno = q\<rparr>" by (cases b)
  have inj: "pos x = pos y \<Longrightarrow> x = y" for x y
    using pos_gap [of x y] pos_gap [of y x] by (cases x y rule: linorder_cases) auto
  have 01: "pos x + 2 \<noteq> pos (y * SlotsPerFSMPage) + 1" for x y
    using pos_gap1 [of x y] pos_mono [of "y * SlotsPerFSMPage" x] by (cases "x < y * SlotsPerFSMPage") auto
  have 02: "pos x + 2 \<noteq> pos (y * SlotsPerFSMPage * SlotsPerFSMPage)" for x y
    using pos_gap2 [of x y] pos_mono [of "y * SlotsPerFSMPage * SlotsPerFSMPage" x]
    by (cases "x < y * SlotsPerFSMPage * SlotsPerFSMPage") auto
  have 12: "pos x + 1 \<noteq> pos (y * SlotsPerFSMPage * SlotsPerFSMPage)" for x y
    using pos_gap2 [of x y] pos_mono [of "y * SlotsPerFSMPage * SlotsPerFSMPage" x]
    by (cases "x < y * SlotsPerFSMPage * SlotsPerFSMPage") auto
  have S: "0 < SlotsPerFSMPage" by (simp add: fsm_sizes)
  have l: "la = 0 \<or> la = 1 \<or> la = 2" "lb = 0 \<or> lb = 1 \<or> lb = 2" using assms(1,2) by (auto simp: a b fs_sizes)
  have "la = lb \<and> p = q"
    using l assms(3) 01 [of p q] 01 [of q p] 02 [of p q] 02 [of q p] 12 [of "p * SlotsPerFSMPage" q] 12 [of "q * SlotsPerFSMPage" p]
      inj [of p q] inj [of "p * SlotsPerFSMPage" "q * SlotsPerFSMPage"]
      inj [of "p * SlotsPerFSMPage * SlotsPerFSMPage" "q * SlotsPerFSMPage * SlotsPerFSMPage"] S
    unfolding a b by (elim disjE) (simp_all only: physical, auto)
  then show ?thesis by (simp add: a b)
qed

section \<open>What is recorded\<close>

definition fsm_rel :: "relation \<Rightarrow> bool" where
  "fsm_rel rel \<longleftrightarrow> (\<forall>p \<in> set (fsm_fork rel). fsm_page (fp_nodes p)) \<and>
     (\<forall>p. fsm_page (fp_nodes p) \<longrightarrow> fsm_page (fp_nodes (others rel p)))"

definition entry :: "relation \<Rightarrow> FSMAddress \<Rightarrow> nat \<Rightarrow> uint8" where
  "entry rel addr slot =
     (let blk = fsm_logical_to_physical addr in
      if blk < length (fsm_fork rel) then leaf (fp_nodes (fsm_fork rel ! blk)) slot else 0)"

definition cat_of :: "relation \<Rightarrow> nat \<Rightarrow> uint8" where
  "cat_of rel b = (case fsm_get_location b of (addr, slot) \<Rightarrow> entry rel addr slot)"

lemma location: "fsm_get_location b = (\<lparr>level = 0, logpageno = b div SlotsPerFSMPage\<rparr>, b mod SlotsPerFSMPage)"
  by (simp add: fsm_get_location_def fs_sizes)

lemma slot_less: "b mod SlotsPerFSMPage < SlotsPerFSMPage" by (simp add: fsm_sizes)

lemma location_heap_blk:
  "level addr = 0 \<Longrightarrow> slot < SlotsPerFSMPage \<Longrightarrow> fsm_get_location (fsm_get_heap_blk addr slot) = (addr, slot)"
  by (cases addr) (simp add: location fsm_get_heap_blk_def)

lemma heap_blk_location: "(case fsm_get_location b of (addr, slot) \<Rightarrow> fsm_get_heap_blk addr slot) = b"
  by (simp add: location fsm_get_heap_blk_def)

lemma parent_child:
  "0 < level addr \<Longrightarrow> slot < SlotsPerFSMPage \<Longrightarrow> fsm_get_parent (fsm_get_child addr slot) = (addr, slot)"
  by (cases addr) (simp add: fsm_get_parent_def fsm_get_child_def)

lemma fsm_rel_page: "fsm_rel rel \<Longrightarrow> blk < length (fsm_fork rel) \<Longrightarrow> fsm_page (fp_nodes (fsm_fork rel ! blk))"
  by (simp add: fsm_rel_def)

lemma fsm_rel_write: "fsm_rel rel \<Longrightarrow> fsm_page (fp_nodes page) \<Longrightarrow> fsm_rel (write_page rel blk page)"
  using set_update_subset_insert [of "fsm_fork rel" blk page] by (auto simp: fsm_rel_def write_page_def)

lemma recorded:
  assumes "fsm_rel rel" shows "GetRecordedFreeSpace rel b = Some (fsm_space_cat_to_avail (cat_of rel b))"
proof -
  let ?a = "\<lparr>level = 0, logpageno = b div SlotsPerFSMPage\<rparr>"
  have z: "fsm_space_cat_to_avail 0 = 0" by (simp add: fsm_space_cat_to_avail_def)
  show ?thesis
    using fsm_rel_page [OF assms, of "fsm_logical_to_physical ?a"] slot_less [of b]
    by (auto simp: GetRecordedFreeSpace_def location cat_of_def entry_def fsm_readbuf_def Let_def leaf_get z)
qed

lemma zero_page_leaf: "s < SlotsPerFSMPage \<Longrightarrow> leaf (fp_nodes zero_page) s = 0" "fsm_page (fp_nodes zero_page)"
  by (simp_all add: zero_page_def leaf_def fsm_page_def fsm_sizes)

text \<open>Extending the file with zero pages records nothing.\<close>

lemma extend_spec:
  assumes "fsm_rel rel"
  shows "fsm_rel (fsm_extend rel n)" "n \<le> length (fsm_fork (fsm_extend rel n))"
    "s < SlotsPerFSMPage \<Longrightarrow> entry (fsm_extend rel n) addr s = entry rel addr s"
    "heap_nblocks (fsm_extend rel n) = heap_nblocks rel" "others (fsm_extend rel n) = others rel"
  using assms zero_page_leaf by (auto simp: fsm_rel_def fsm_extend_def entry_def Let_def nth_append)

lemma entry_write:
  assumes "level addr \<le> FSM_ROOT_LEVEL" "level addr' \<le> FSM_ROOT_LEVEL" "fsm_logical_to_physical addr < length (fsm_fork rel)"
  shows "entry (write_page rel (fsm_logical_to_physical addr) page) addr' s =
    (if addr' = addr then leaf (fp_nodes page) s else entry rel addr' s)"
  using assms physical_injective [OF assms(1,2)] by (auto simp: entry_def write_page_def Let_def nth_list_update)

text \<open>Setting an entry: it has the new category, every other entry keeps its own.\<close>

definition records :: "relation \<Rightarrow> FSMAddress \<Rightarrow> nat \<Rightarrow> uint8 \<Rightarrow> relation \<Rightarrow> bool" where
  "records rel addr slot v rel' \<longleftrightarrow> fsm_rel rel' \<and> heap_nblocks rel' = heap_nblocks rel \<and> others rel' = others rel \<and>
     (\<forall>addr' s. level addr' \<le> FSM_ROOT_LEVEL \<longrightarrow> s < SlotsPerFSMPage \<longrightarrow>
        entry rel' addr' s = (if addr' = addr \<and> s = slot then v else entry rel addr' s))"

lemma set_page_records:
  assumes rel: "fsm_rel rel" and addr: "level addr \<le> FSM_ROOT_LEVEL" and slot: "slot < SlotsPerFSMPage"
    and blk: "fsm_logical_to_physical addr < length (fsm_fork rel)"
  obtains c page where "fsm_set_avail (fsm_fork rel ! fsm_logical_to_physical addr) slot v = Some (c, page)"
    "fsm_page (fp_nodes page)" "v \<le> fp_nodes page ! 0"
    "records rel addr slot v (write_page rel (fsm_logical_to_physical addr) page)"
proof -
  let ?blk = "fsm_logical_to_physical addr"
  have pg: "fsm_page (fp_nodes (fsm_fork rel ! ?blk))" using fsm_rel_page [OF rel blk] .
  from fsm_set_avail_any [OF pg slot, of v] obtain c page where
    p: "fsm_set_avail (fsm_fork rel ! ?blk) slot v = Some (c, page)" "fsm_page (fp_nodes page)" "v \<le> fp_nodes page ! 0"
      "same_leaves ((fp_nodes (fsm_fork rel ! ?blk))[NonLeafNodesPerPage + slot := v]) (fp_nodes page)" by metis
  have "entry (write_page rel ?blk page) addr' s = (if addr' = addr \<and> s = slot then v else entry rel addr' s)"
    if "level addr' \<le> FSM_ROOT_LEVEL" "s < SlotsPerFSMPage" for addr' s
  proof -
    have "entry rel addr s = leaf (fp_nodes (fsm_fork rel ! ?blk)) s" using blk by (simp add: entry_def)
    then show ?thesis using entry_write [OF addr that(1) blk] same_leaves_leaf [OF p(4) pg slot that(2)]
      by (cases "s = slot") simp_all
  qed
  then have "records rel addr slot v (write_page rel ?blk page)"
    using fsm_rel_write [OF rel p(2)] by (simp add: records_def) (simp add: write_page_def)
  then show thesis using that p by blast
qed

lemma readbuf_extend:
  assumes "fsm_rel rel"
  obtains rel1 where "fsm_readbuf rel addr True = (Some (fsm_logical_to_physical addr), rel1)" "fsm_rel rel1"
    "fsm_logical_to_physical addr < length (fsm_fork rel1)" "heap_nblocks rel1 = heap_nblocks rel" "others rel1 = others rel"
    "\<forall>addr' s. s < SlotsPerFSMPage \<longrightarrow> entry rel1 addr' s = entry rel addr' s"
proof (cases "fsm_logical_to_physical addr < length (fsm_fork rel)")
  case True
  then show ?thesis using that [of rel] assms by (simp add: fsm_readbuf_def Let_def)
next
  case False
  then show ?thesis
    using that [of "fsm_extend rel (fsm_logical_to_physical addr + 1)"] extend_spec [OF assms, where n = "fsm_logical_to_physical addr + 1"]
    by (simp add: fsm_readbuf_def Let_def Suc_le_eq)
qed

lemma fsm_set_and_search_records:
  assumes rel: "fsm_rel rel" and addr: "level addr \<le> FSM_ROOT_LEVEL" and slot: "slot < SlotsPerFSMPage"
  obtains rel' where "fsm_set_and_search rel addr slot v 0 = Some (-1, rel')" "records rel addr slot v rel'"
proof -
  from readbuf_extend [OF rel, of addr] obtain rel1 where
    r: "fsm_readbuf rel addr True = (Some (fsm_logical_to_physical addr), rel1)" "fsm_rel rel1"
    "fsm_logical_to_physical addr < length (fsm_fork rel1)" "heap_nblocks rel1 = heap_nblocks rel" "others rel1 = others rel"
    "\<forall>addr' s. s < SlotsPerFSMPage \<longrightarrow> entry rel1 addr' s = entry rel addr' s" .
  from set_page_records [OF r(2) addr slot r(3), of v] obtain c page where
    p: "fsm_set_avail (fsm_fork rel1 ! fsm_logical_to_physical addr) slot v = Some (c, page)"
      "records rel1 addr slot v (write_page rel1 (fsm_logical_to_physical addr) page)" by metis
  have "records rel addr slot v (write_page rel1 (fsm_logical_to_physical addr) page)"
    using p(2) r(4,5,6) by (simp add: records_def)
  then show thesis using that r(1,3) p(1) by (simp add: fsm_set_and_search_def)
qed


section \<open>The search\<close>

definition same_rel :: "relation \<Rightarrow> relation \<Rightarrow> bool" where
  "same_rel rel rel' \<longleftrightarrow> fsm_rel rel' \<and> heap_nblocks rel' = heap_nblocks rel \<and> others rel' = others rel"

lemma same_rel_trans: "same_rel a b \<Longrightarrow> same_rel b c \<Longrightarrow> same_rel a c"
  by (simp add: same_rel_def)

lemma records_same_rel: "records rel addr slot v rel' \<Longrightarrow> same_rel rel rel'"
  by (simp add: records_def same_rel_def)

lemma same_rel_write: "fsm_rel rel \<Longrightarrow> fsm_page (fp_nodes page) \<Longrightarrow> same_rel rel (write_page rel blk page)"
  using fsm_rel_write [of rel page blk] by (simp add: same_rel_def) (simp add: write_page_def)

lemma search_page:
  assumes rel: "fsm_rel rel" and pg: "fsm_page (fp_nodes page)"
  obtains r buf where "fsm_search_avail (buffer_of rel page) m adv ex = Some (r, buf)" "fsm_page (fp_nodes (bpage buf))"
    "r = -1 \<or> (\<exists>s < SlotsPerFSMPage. r = int s \<and> m \<le> leaf (fp_nodes (bpage buf)) s)"
proof -
  have p: "fsm_page (fp_nodes (bpage (buffer_of rel page)))" using pg by (simp add: buffer_of_def)
  have e: "ex \<or> fsm_page (fp_nodes (meanwhile (buffer_of rel page) (bpage (buffer_of rel page))))"
    using rel pg by (simp add: buffer_of_def fsm_rel_def)
  show thesis using fsm_search_avail_any [OF p e, of m adv] that by blast
qed

lemma fsm_search_slot_spec:
  assumes rel: "fsm_rel rel"
  obtains slot mx rel' where "fsm_search_slot rel c addr = Some (slot, mx, rel')" "same_rel rel rel'"
    "slot = -1 \<or> (\<exists>s < SlotsPerFSMPage. slot = int s \<and> fsm_logical_to_physical addr < length (fsm_fork rel') \<and> c \<le> entry rel' addr s)"
proof (cases "fsm_logical_to_physical addr < length (fsm_fork rel)")
  case False
  then show ?thesis using that [of "-1" 0 rel] rel by (simp add: fsm_search_slot_def fsm_readbuf_def Let_def same_rel_def)
next
  case True
  let ?blk = "fsm_logical_to_physical addr"
  obtain r buf where s: "fsm_search_avail (buffer_of rel (fsm_fork rel ! ?blk)) c (level addr = FSM_BOTTOM_LEVEL) False = Some (r, buf)"
    "fsm_page (fp_nodes (bpage buf))" "r = -1 \<or> (\<exists>s < SlotsPerFSMPage. r = int s \<and> c \<le> leaf (fp_nodes (bpage buf)) s)"
    using search_page [OF rel fsm_rel_page [OF rel True]] by metis
  obtain mx where m: "fsm_get_max_avail (bpage buf) = Some mx"
    using s(2) by (simp add: fsm_get_max_avail_def fsm_page_def fsm_sizes)
  let ?rel = "write_page rel ?blk (bpage buf)"
  have "fsm_search_slot rel c addr = Some (r, if r = -1 then mx else 0, ?rel)"
    using True s(1) m by (simp add: fsm_search_slot_def fsm_readbuf_def Let_def)
  moreover have "entry ?rel addr s = leaf (fp_nodes (bpage buf)) s" "?blk < length (fsm_fork ?rel)" for s
    using True by (simp_all add: entry_def write_page_def)
  ultimately show ?thesis using that same_rel_write [OF rel s(2)] s(3) by metis
qed

definition step_post :: "uint8 \<Rightarrow> relation \<Rightarrow> search_result \<times> relation \<Rightarrow> bool" where
  "step_post c rel = (\<lambda>(r, rel'). same_rel rel rel' \<and>
     (case r of Found b \<Rightarrow> b < heap_nblocks rel \<and> c \<le> cat_of rel' b
      | InvalidBlock \<Rightarrow> True
      | Continue _ a \<Rightarrow> level a \<le> FSM_ROOT_LEVEL))"

lemma fsm_search_step_spec:
  assumes rel: "fsm_rel rel" and addr: "level addr \<le> FSM_ROOT_LEVEL"
  shows "\<exists>x. fsm_search_step rel c n addr = Some x \<and> step_post c rel x"
proof -
  obtain slot mx rel1 where s: "fsm_search_slot rel c addr = Some (slot, mx, rel1)" "same_rel rel rel1"
    "slot = -1 \<or> (\<exists>s < SlotsPerFSMPage. slot = int s \<and> fsm_logical_to_physical addr < length (fsm_fork rel1) \<and> c \<le> entry rel1 addr s)"
    using fsm_search_slot_spec [OF rel] by metis
  have rel1: "fsm_rel rel1" using s(2) by (simp add: same_rel_def)
  show ?thesis
  proof (cases "slot = -1")
    case True
    show ?thesis
    proof (cases "level addr = FSM_ROOT_LEVEL")
      case l: True
      then show ?thesis using True s by (simp add: fsm_search_step_def step_post_def)
    next
      case False
      obtain parent ps where p: "fsm_get_parent addr = (parent, ps)" by (cases "fsm_get_parent addr")
      then have pl: "level parent \<le> FSM_ROOT_LEVEL" "ps < SlotsPerFSMPage"
        using addr False slot_less by (auto simp: fsm_get_parent_def)
      obtain rel2 where r: "fsm_set_and_search rel1 parent ps mx 0 = Some (-1, rel2)" "records rel1 parent ps mx rel2"
        using fsm_set_and_search_records [OF rel1 pl] .
      then show ?thesis using True False s p same_rel_trans [OF s(2) records_same_rel [OF r(2)]]
        by (simp add: fsm_search_step_def step_post_def FSM_ROOT_ADDRESS_def)
    qed
  next
    case False
    then obtain k where k: "k < SlotsPerFSMPage" "slot = int k" "fsm_logical_to_physical addr < length (fsm_fork rel1)" "c \<le> entry rel1 addr k"
      using s(3) by blast
    show ?thesis
    proof (cases "level addr = FSM_BOTTOM_LEVEL")
      case l: True
      then have l0: "level addr = 0" by (simp add: fs_sizes)
      have cat: "cat_of rel1 (fsm_get_heap_blk addr k) = entry rel1 addr k"
        by (simp add: cat_of_def location_heap_blk [OF l0 k(1)])
      obtain d page where p: "fsm_set_avail (fsm_fork rel1 ! fsm_logical_to_physical addr) k 0 = Some (d, page)"
        "records rel1 addr k 0 (write_page rel1 (fsm_logical_to_physical addr) page)"
        using set_page_records [OF rel1 addr k(1,3)] by metis
      note same = same_rel_trans [OF s(2) records_same_rel [OF p(2)]]
      have child: "level (fsm_get_child FSM_ROOT_ADDRESS k) \<le> FSM_ROOT_LEVEL"
        by (simp add: fsm_get_child_def FSM_ROOT_ADDRESS_def)
      show ?thesis using False l s k p(1) same cat child
        by (auto simp: fsm_search_step_def step_post_def Let_def fsm_does_block_exist_def same_rel_def)
    next
      case l: False
      then show ?thesis using False s k addr
        by (simp add: fsm_search_step_def step_post_def fsm_get_child_def)
    qed
  qed
qed

lemma fsm_search_loop_spec:
  assumes "fsm_rel rel" "level addr \<le> FSM_ROOT_LEVEL"
  shows "\<exists>r rel'. fsm_search_loop rel c n addr = Some (r, rel') \<and> same_rel rel rel' \<and>
    (\<forall>b. r = Some b \<longrightarrow> b < heap_nblocks rel \<and> c \<le> cat_of rel' b)"
  using assms
proof (induction rel c n addr rule: fsm_search_loop.induct)
  case (1 rel c n addr)
  obtain x rel1 where s: "fsm_search_step rel c n addr = Some (x, rel1)" "step_post c rel (x, rel1)"
    using fsm_search_step_spec [OF 1(2,3)] by fastforce
  show ?case
  proof (cases x)
    case (Continue n' addr')
    then have "level addr' \<le> FSM_ROOT_LEVEL" "fsm_rel rel1" "same_rel rel rel1"
      using s(2) by (auto simp: step_post_def same_rel_def)
    then show ?thesis using 1(1) [OF s(1) refl Continue] s(1) Continue same_rel_trans
      by (simp add: fsm_search_loop.simps [of rel]) (metis same_rel_def)
  qed (use s in \<open>auto simp: fsm_search_loop.simps [of rel] step_post_def\<close>)
qed

lemma fsm_set_and_search_found:
  assumes rel: "fsm_rel rel" and addr: "level addr \<le> FSM_ROOT_LEVEL" and slot: "slot < SlotsPerFSMPage" and m: "m \<noteq> 0"
  obtains r rel' where "fsm_set_and_search rel addr slot v m = Some (r, rel')" "same_rel rel rel'"
    "r = -1 \<or> (\<exists>s < SlotsPerFSMPage. r = int s \<and> m \<le> entry rel' addr s)"
proof -
  let ?blk = "fsm_logical_to_physical addr"
  obtain rel1 where r: "fsm_readbuf rel addr True = (Some ?blk, rel1)" "fsm_rel rel1" "?blk < length (fsm_fork rel1)"
    "same_rel rel rel1" using readbuf_extend [OF rel, of addr] by (metis same_rel_def)
  obtain c page where p: "fsm_set_avail (fsm_fork rel1 ! ?blk) slot v = Some (c, page)" "fsm_page (fp_nodes page)"
    using set_page_records [OF r(2) addr slot r(3)] by metis
  obtain k buf where s: "fsm_search_avail (buffer_of rel1 page) m (level addr = FSM_BOTTOM_LEVEL) True = Some (k, buf)"
    "fsm_page (fp_nodes (bpage buf))" "k = -1 \<or> (\<exists>s < SlotsPerFSMPage. k = int s \<and> m \<le> leaf (fp_nodes (bpage buf)) s)"
    using search_page [OF r(2) p(2)] by metis
  have "entry (write_page rel1 ?blk (bpage buf)) addr s = leaf (fp_nodes (bpage buf)) s" for s
    using r(3) by (simp add: entry_def write_page_def)
  moreover have "fsm_set_and_search rel addr slot v m = Some (k, write_page rel1 ?blk (bpage buf))"
    using r(1,3) p(1) s(1) m by (simp add: fsm_set_and_search_def)
  ultimately show thesis using that same_rel_trans [OF r(4) same_rel_write [OF r(2) s(2)]] s(3) by metis
qed

lemma needed_nonzero: "fsm_space_needed_to_cat n = Inr m \<Longrightarrow> m \<noteq> 0"
proof -
  assume "fsm_space_needed_to_cat n = Inr m"
  then have "0 < unat m" by (auto simp: fsm_space_needed_to_cat_def fs_sizes Let_def split: if_splits)
  then show ?thesis by auto
qed

lemma needed_error: "fsm_space_needed_to_cat n = (if n \<le> MaxFSMRequestSize then Inr (projr (fsm_space_needed_to_cat n)) else Inl (InvalidRequestSize n))"
  by (simp add: fsm_space_needed_to_cat_def Let_def)

section \<open>Bounds\<close>

text \<open>
  For a heap block number, the page numbers that occur on the way fit an \<open>int\<close> and a
  \<open>BlockNumber\<close>: the leaf page, its parent, and the product of a page of level 1 and the slots.
\<close>

lemma fsm_address_bounds:
  assumes "b < 2 ^ 32"
  shows "logpageno (fst (fsm_get_location b)) < 2 ^ 21" "fsm_logical_to_physical (fst (fsm_get_location b)) < 2 ^ 21"
    "snd (fsm_get_location b) < 2 ^ 16" "p < SlotsPerFSMPage \<Longrightarrow> p * SlotsPerFSMPage < 2 ^ 31"
proof -
  have d: "b div SlotsPerFSMPage < 1055534" using assms by (simp add: fsm_sizes)
  then have "b div SlotsPerFSMPage div SlotsPerFSMPage < 260" by (simp add: fsm_sizes)
  then have "b div SlotsPerFSMPage div SlotsPerFSMPage div SlotsPerFSMPage = 0" by (simp add: fsm_sizes)
  then show "logpageno (fst (fsm_get_location b)) < 2 ^ 21" "fsm_logical_to_physical (fst (fsm_get_location b)) < 2 ^ 21"
    using d \<open>b div SlotsPerFSMPage div SlotsPerFSMPage < 260\<close> by (simp_all add: location physical pos_def)
  show "snd (fsm_get_location b) < 2 ^ 16" using slot_less [of b] by (simp add: location fsm_sizes)
  show "p * SlotsPerFSMPage < 2 ^ 31" if "p < SlotsPerFSMPage" using that by (simp add: fsm_sizes)
qed

section \<open>Properties\<close>

text \<open>
  What a search for room guarantees: the block exists and the room recorded for it is enough.
\<close>

definition room_found :: "relation \<Rightarrow> nat \<Rightarrow> nat option \<times> relation \<Rightarrow> bool" where
  "room_found rel needed = (\<lambda>(r, rel'). fsm_rel rel' \<and>
     (case r of None \<Rightarrow> True
      | Some b \<Rightarrow> b < heap_nblocks rel \<and> (\<exists>v. GetRecordedFreeSpace rel' b = Some v \<and> needed \<le> v)))"

lemma search_room:
  assumes "fsm_rel rel" "fsm_space_needed_to_cat needed = Inr c"
  shows "\<exists>x. fsm_search rel c = Some x \<and> room_found rel needed x"
proof -
  have "level FSM_ROOT_ADDRESS \<le> FSM_ROOT_LEVEL" by (simp add: FSM_ROOT_ADDRESS_def)
  from fsm_search_loop_spec [OF assms(1) this, of c 0] obtain r rel' where
    s: "fsm_search rel c = Some (r, rel')" "same_rel rel rel'" "\<forall>b. r = Some b \<longrightarrow> b < heap_nblocks rel \<and> c \<le> cat_of rel' b"
    by (auto simp: fsm_search_def)
  have "fsm_rel rel'" using s(2) by (simp add: same_rel_def)
  then show ?thesis using s cat_admits [OF assms(2)] by (auto simp: room_found_def recorded split: option.split)
qed

text \<open>
  C17: the two searches for a heap page with enough room. A request beyond the largest tuple is
  refused; every other request returns, whatever the map says, after at most the fixed number of
  restarts; and a block they return exists and has at least the wanted room recorded for it.
\<close>

theorem free_space_search_sound:
  assumes "fsm_rel rel"
  shows "(if needed \<le> MaxFSMRequestSize
      then (\<exists>x. GetPageWithFreeSpace rel needed = Some (Inr x) \<and> room_found rel needed x) \<and>
           (\<exists>x. RecordAndGetPageWithFreeSpace rel old avail needed = Some (Inr x) \<and> room_found rel needed x)
      else GetPageWithFreeSpace rel needed = Some (Inl (InvalidRequestSize needed)) \<and>
           RecordAndGetPageWithFreeSpace rel old avail needed = Some (Inl (InvalidRequestSize needed)))"
proof (cases "needed \<le> MaxFSMRequestSize")
  case False
  then show ?thesis by (simp add: GetPageWithFreeSpace_def RecordAndGetPageWithFreeSpace_def fsm_space_needed_to_cat_def Let_def)
next
  case True
  then obtain c where c: "fsm_space_needed_to_cat needed = Inr c" using needed_error [of needed] by metis
  let ?a = "\<lparr>level = 0, logpageno = old div SlotsPerFSMPage\<rparr>" and ?s = "old mod SlotsPerFSMPage"
  obtain r rel1 where r: "fsm_set_and_search rel ?a ?s (fsm_space_avail_to_cat avail) c = Some (r, rel1)" "same_rel rel rel1"
    "r = -1 \<or> (\<exists>s < SlotsPerFSMPage. r = int s \<and> c \<le> entry rel1 ?a s)"
    using fsm_set_and_search_found [OF assms _ slot_less needed_nonzero [OF c], of ?a old] by auto
  have rel1: "fsm_rel rel1" "heap_nblocks rel1 = heap_nblocks rel" using r(2) by (simp_all add: same_rel_def)
  have "\<exists>x. RecordAndGetPageWithFreeSpace rel old avail needed = Some (Inr x) \<and> room_found rel needed x"
  proof (cases "r \<noteq> -1 \<and> fsm_does_block_exist rel1 (fsm_get_heap_blk ?a (nat r))")
    case found: True
    then obtain s where s: "s < SlotsPerFSMPage" "r = int s" "c \<le> entry rel1 ?a s" using r(3) by auto
    then have "c \<le> cat_of rel1 (fsm_get_heap_blk ?a s)" by (simp add: cat_of_def location_heap_blk)
    then have "room_found rel needed (Some (fsm_get_heap_blk ?a s), rel1)"
      using cat_admits [OF c] found s rel1 by (simp add: room_found_def recorded fsm_does_block_exist_def)
    then show ?thesis using found r(1) c s by (simp add: RecordAndGetPageWithFreeSpace_def location)
  next
    case False
    obtain x where x: "fsm_search rel1 c = Some x" "room_found rel1 needed x" using search_room [OF rel1(1) c] by blast
    have "RecordAndGetPageWithFreeSpace rel old avail needed = Some (Inr x)"
      unfolding RecordAndGetPageWithFreeSpace_def location Let_def
      by (simp add: c r(1) if_not_P [OF False] x(1) del: de_Morgan_conj)
    moreover have "room_found rel1 needed = room_found rel needed" by (simp only: room_found_def rel1(2))
    ultimately show ?thesis using x(2) by auto
  qed
  moreover have "\<exists>x. GetPageWithFreeSpace rel needed = Some (Inr x) \<and> room_found rel needed x"
    using search_room [OF assms c] c by (auto simp: GetPageWithFreeSpace_def)
  ultimately show ?thesis using True by simp
qed

definition demo_rel :: relation where
  "demo_rel = \<lparr>fsm_fork = [zero_page], heap_nblocks = 3, others = id\<rparr>"

lemma demo_rel_ok: "fsm_rel demo_rel"
  by (simp add: demo_rel_def fsm_rel_def zero_page_leaf)

theorem free_space_search_sound_witness:
  "\<exists>x. GetPageWithFreeSpace demo_rel 100 = Some (Inr x) \<and> room_found demo_rel 100 x"
  using free_space_search_sound [OF demo_rel_ok, of 100 1 200] by (simp add: fs_sizes)

text \<open>Recording the room of a block changes the record of that block only.\<close>

lemma record_spec:
  assumes "fsm_rel rel"
  shows "\<exists>rel'. RecordPageWithFreeSpace rel b avail = Some rel' \<and>
    fsm_space_cat_to_avail (fsm_space_avail_to_cat avail) \<le> avail \<and>
    fsm_rel rel' \<and> GetRecordedFreeSpace rel' b' =
      (if b' = b then Some (fsm_space_cat_to_avail (fsm_space_avail_to_cat avail)) else GetRecordedFreeSpace rel b')"
proof -
  let ?a = "\<lambda>b. \<lparr>level = 0, logpageno = b div SlotsPerFSMPage\<rparr>" and ?s = "\<lambda>b. b mod SlotsPerFSMPage"
  obtain rel' where r: "fsm_set_and_search rel (?a b) (?s b) (fsm_space_avail_to_cat avail) 0 = Some (-1, rel')"
    "records rel (?a b) (?s b) (fsm_space_avail_to_cat avail) rel'"
    using fsm_set_and_search_records [OF assms _ slot_less, of "?a b" b] by auto
  have "?a b' = ?a b \<and> ?s b' = ?s b \<longleftrightarrow> b' = b" by (metis FSMAddress.ext_inject div_mult_mod_eq)
  then have "cat_of rel' b' = (if b' = b then fsm_space_avail_to_cat avail else cat_of rel b')"
    using r(2) slot_less [of b'] by (simp add: cat_of_def location records_def)
  moreover have "fsm_rel rel'" using r(2) by (simp add: records_def)
  ultimately show ?thesis using r(1) assms cat_rounds_down
    by (simp add: RecordPageWithFreeSpace_def location recorded)
qed

text \<open>
  Recording the free space of a block and reading it back gives the recorded room rounded down to
  its category, and the record of no other block changes, although the blocks share pages and the file
  grows on demand.
\<close>

theorem record_then_get:
  assumes "fsm_rel rel"
  shows "\<exists>rel'. RecordPageWithFreeSpace rel b avail = Some rel' \<and>
    fsm_space_cat_to_avail (fsm_space_avail_to_cat avail) \<le> avail \<and>
    GetRecordedFreeSpace rel' b' =
      (if b' = b then Some (fsm_space_cat_to_avail (fsm_space_avail_to_cat avail)) else GetRecordedFreeSpace rel b')"
  using record_spec [OF assms, of b avail b'] by blast

theorem record_then_get_witness:
  "\<exists>rel'. RecordPageWithFreeSpace demo_rel 9000 70 = Some rel' \<and> GetRecordedFreeSpace rel' 9000 = Some 64"
  using record_then_get [OF demo_rel_ok, of 9000 70 9000]
  by (auto simp: fsm_space_cat_to_avail_def fsm_space_avail_to_cat_def fs_sizes)

text \<open>
  No two pages of the tree share a block of the file, and the numbering is inverted by the other
  address functions: a heap block is found again from its location, and a page from its parent.
\<close>

theorem fsm_addresses_distinct:
  assumes "level a \<le> FSM_ROOT_LEVEL" "level b \<le> FSM_ROOT_LEVEL" "slot < SlotsPerFSMPage"
  shows "(fsm_logical_to_physical a = fsm_logical_to_physical b \<longleftrightarrow> a = b) \<and>
    (case fsm_get_location blk of (addr, s) \<Rightarrow> fsm_get_heap_blk addr s = blk) \<and>
    (level a = 0 \<or> fsm_get_parent (fsm_get_child a slot) = (a, slot)) \<and>
    (0 < level a \<or> fsm_get_location (fsm_get_heap_blk a slot) = (a, slot))"
  using physical_injective [OF assms(1,2)] heap_blk_location [of blk] parent_child [of a slot]
    location_heap_blk [of a slot] assms(3) by (auto simp: location)

theorem fsm_addresses_distinct_witness:
  "fsm_logical_to_physical \<lparr>level = 0, logpageno = 4069\<rparr> \<noteq> fsm_logical_to_physical \<lparr>level = 1, logpageno = 1\<rparr> \<and>
   fsm_get_parent (fsm_get_child \<lparr>level = 1, logpageno = 1\<rparr> 17) = (\<lparr>level = 1, logpageno = 1\<rparr>, 17)"
  using fsm_addresses_distinct [of "\<lparr>level = 1, logpageno = 1\<rparr>" "\<lparr>level = 0, logpageno = 4069\<rparr>" 17 5]
  by (auto simp: fs_sizes fsm_sizes)

text \<open>
  C18: when the search finds a slot whose heap block does not exist it clears the slot and means to
  start again from the root, but it goes on with the root's child of the number of that slot: the
  assignment of the child address follows the reset of the address.
\<close>

theorem fsm_search_restarts_below_root:
  assumes "fsm_rel rel" "level addr = 0" "fsm_search_slot rel c addr = Some (int s, mx, rel1)"
    "heap_nblocks rel \<le> fsm_get_heap_blk addr s" "n \<le> 10000"
  shows "\<exists>rel'. fsm_search_step rel c n addr = Some (Continue (n + 1) \<lparr>level = 1, logpageno = s\<rparr>, rel') \<and>
    entry rel' addr s = 0 \<and> \<lparr>level = 1, logpageno = s\<rparr> \<noteq> FSM_ROOT_ADDRESS"
proof -
  have s: "same_rel rel rel1" "s < SlotsPerFSMPage" "fsm_logical_to_physical addr < length (fsm_fork rel1)"
    using fsm_search_slot_spec [OF assms(1), of c addr] assms(3) by fastforce+
  have l: "level addr \<le> FSM_ROOT_LEVEL" using assms(2) by simp
  obtain d page where p: "fsm_set_avail (fsm_fork rel1 ! fsm_logical_to_physical addr) s 0 = Some (d, page)"
    "records rel1 addr s 0 (write_page rel1 (fsm_logical_to_physical addr) page)"
    using set_page_records [OF _ l s(2,3)] s(1) by (metis same_rel_def)
  have "entry (write_page rel1 (fsm_logical_to_physical addr) page) addr s = 0"
    using p(2) l s(2) by (simp add: records_def)
  moreover have "fsm_get_child FSM_ROOT_ADDRESS s = \<lparr>level = 1, logpageno = s\<rparr>"
    by (simp add: fsm_get_child_def FSM_ROOT_ADDRESS_def fs_sizes)
  moreover have "\<not> fsm_does_block_exist rel1 (fsm_get_heap_blk addr s)"
    using assms(4) s(1) by (simp add: fsm_does_block_exist_def same_rel_def)
  ultimately show ?thesis using assms(2,3,5) p(1) s(3)
    by (simp add: fsm_search_step_def fs_sizes Let_def) (simp add: FSM_ROOT_ADDRESS_def fs_sizes)
qed

definition stale_rel :: relation where
  "stale_rel = \<lparr>fsm_fork = [zero_page, zero_page, zero_page\<lparr>fp_next_slot := 5\<rparr>], heap_nblocks = 3, others = id\<rparr>"

lemma stale_search: "fsm_search_slot stale_rel 0 \<lparr>level = 0, logpageno = 0\<rparr> =
   Some (int 5, 0, write_page stale_rel 2 (zero_page\<lparr>fp_next_slot := 6\<rparr>))"
proof -
  let ?p = "zero_page\<lparr>fp_next_slot := 5\<rparr>"
  have "fsm_climb (fp_nodes ?p) 0 (fsm_target ?p + NonLeafNodesPerPage) = Some 4100"
    by (subst fsm_climb.simps) (simp add: fsm_target_def zero_page_def fsm_sizes)
  moreover have "fsm_descend (fp_nodes ?p) 0 4100 = Some (Leaf 4100)"
    by (subst fsm_descend.simps) (simp add: fsm_sizes)
  moreover have "arr_get (fp_nodes ?p) 0 = Some 0" by (simp add: zero_page_def fsm_sizes)
  ultimately have "fsm_search_avail (buffer_of stale_rel ?p) 0 True False =
      Some (5, buffer_of stale_rel (zero_page\<lparr>fp_next_slot := 6\<rparr>))"
    by (subst fsm_search_avail.simps) (simp add: fsm_search_round_def buffer_of_def fsm_sizes)
  moreover have "fsm_logical_to_physical \<lparr>level = 0, logpageno = 0\<rparr> = 2" by (simp add: physical pos_def)
  ultimately show ?thesis
    by (simp add: fsm_search_slot_def fsm_readbuf_def stale_rel_def fs_sizes buffer_of_def)
qed

theorem fsm_search_restarts_below_root_witness:
  "\<exists>rel'. fsm_search_step stale_rel 0 0 \<lparr>level = 0, logpageno = 0\<rparr> = Some (Continue 1 \<lparr>level = 1, logpageno = 5\<rparr>, rel') \<and>
     \<lparr>level = 1, logpageno = 5\<rparr> \<noteq> FSM_ROOT_ADDRESS"
proof -
  have "fsm_rel stale_rel" using zero_page_leaf(2) by (simp add: stale_rel_def fsm_rel_def)
  from fsm_search_restarts_below_root [OF this _ stale_search, of 0] show ?thesis
    by (auto simp: stale_rel_def fsm_get_heap_blk_def)
qed

end
