(* ===== verification/Bitmapset.thy ===== *)
theory Bitmapset
  imports Prelude
begin

text \<open>
  Sets of small integers as arrays of 64-bit words (\<open>nodes/bitmapset.c\<close>). A set is a null pointer
  or a nonempty array of words; the array is modelled by its contents, so the functions that
  recycle an argument and those that copy it are functions on values. A negative member is an error.
  Member numbers are mathematical integers: the code keeps them in an \<open>int\<close>.
\<close>

section \<open>Words\<close>

type_synonym bitmapword = uint64

definition BITS_PER_BITMAPWORD :: nat where "BITS_PER_BITMAPWORD = 64"

definition WORDNUM :: "nat \<Rightarrow> nat" where "WORDNUM x = x div BITS_PER_BITMAPWORD"
definition BITNUM :: "nat \<Rightarrow> nat" where "BITNUM x = x mod BITS_PER_BITMAPWORD"

definition RIGHTMOST_ONE :: "bitmapword \<Rightarrow> bitmapword" where "RIGHTMOST_ONE x = x AND (- x)"
definition HAS_MULTIPLE_ONES :: "bitmapword \<Rightarrow> bool" where "HAS_MULTIPLE_ONES x = (RIGHTMOST_ONE x \<noteq> x)"

text \<open>The bit scan and count operations the compiler provides; the scans need a nonzero word.\<close>

definition pg_rightmost_one_pos64 :: "uint64 \<Rightarrow> nat" where
  "pg_rightmost_one_pos64 w = length (takeWhile (\<lambda>i. \<not> bit w i) [0..<64])"

definition pg_leftmost_one_pos64 :: "uint64 \<Rightarrow> nat" where
  "pg_leftmost_one_pos64 w = 63 - length (takeWhile (\<lambda>i. \<not> bit w i) (rev [0..<64]))"

definition pg_popcount64 :: "uint64 \<Rightarrow> nat" where
  "pg_popcount64 w = length (filter (bit w) [0..<64])"

section \<open>Representation\<close>

type_synonym Bitmapset = "bitmapword list option"

datatype bms_error = NegativeMember | EmptySet | MultipleMembers

datatype BMS_Comparison = BMS_EQUAL | BMS_SUBSET1 | BMS_SUBSET2 | BMS_DIFFERENT

datatype BMS_Membership = BMS_EMPTY_SET | BMS_SINGLETON | BMS_MULTIPLE

definition bms_is_valid_set :: "Bitmapset \<Rightarrow> bool" where
  "bms_is_valid_set a = (case a of None \<Rightarrow> True | Some words \<Rightarrow> words \<noteq> [] \<and> last words \<noteq> 0)"

text \<open>
  The loops that combine the words of two arrays in place: the words both arrays have are combined,
  the others of the first are kept. And the index of the last word that is not zero, or -1.
\<close>

fun combine_words :: "(bitmapword \<Rightarrow> bitmapword \<Rightarrow> bitmapword) \<Rightarrow> bitmapword list \<Rightarrow> bitmapword list \<Rightarrow> bitmapword list" where
  "combine_words f (r # rs) (w # ws) = f r w # combine_words f rs ws"
| "combine_words f rs _ = rs"

fun last_nonzero :: "int \<Rightarrow> int \<Rightarrow> bitmapword list \<Rightarrow> int" where
  "last_nonzero i lastnonzero [] = lastnonzero"
| "last_nonzero i lastnonzero (w # ws) = last_nonzero (i + 1) (if w \<noteq> 0 then i else lastnonzero) ws"

definition trim_words :: "bitmapword list \<Rightarrow> Bitmapset" where
  "trim_words words = (let lastnonzero = last_nonzero 0 (-1) words in
     if lastnonzero = -1 then None else Some (take (nat (lastnonzero + 1)) words))"

section \<open>Copying and comparing\<close>

definition bms_copy :: "Bitmapset \<Rightarrow> Bitmapset" where
  "bms_copy a = a"

fun words_equal :: "bitmapword list \<Rightarrow> bitmapword list \<Rightarrow> bool" where
  "words_equal (a # as) (b # bs) = (if a \<noteq> b then False else words_equal as bs)"
| "words_equal _ _ = True"

definition bms_equal :: "Bitmapset \<Rightarrow> Bitmapset \<Rightarrow> bool" where
  "bms_equal a b = (case (a, b) of
     (None, None) \<Rightarrow> True
   | (None, Some _) \<Rightarrow> False
   | (Some _, None) \<Rightarrow> False
   | (Some aw, Some bw) \<Rightarrow> if length aw \<noteq> length bw then False else words_equal aw bw)"

text \<open>The loop of \<open>bms_compare\<close> runs from the last word down.\<close>

fun compare_words :: "bitmapword list \<Rightarrow> bitmapword list \<Rightarrow> int" where
  "compare_words (a # as) (b # bs) = (if a \<noteq> b then (if a > b then 1 else -1) else compare_words as bs)"
| "compare_words _ _ = 0"

definition bms_compare :: "Bitmapset \<Rightarrow> Bitmapset \<Rightarrow> int" where
  "bms_compare a b = (case (a, b) of
     (None, None) \<Rightarrow> 0
   | (None, Some _) \<Rightarrow> -1
   | (Some _, None) \<Rightarrow> 1
   | (Some aw, Some bw) \<Rightarrow>
       if length aw \<noteq> length bw then (if length aw > length bw then 1 else -1)
       else compare_words (rev aw) (rev bw))"

definition bms_make_singleton :: "int \<Rightarrow> bms_error + Bitmapset" where
  "bms_make_singleton x =
     (if x < 0 then Inl NegativeMember
      else let wordnum = WORDNUM (nat x); bitnum = BITNUM (nat x) in
        Inr (Some ((replicate (wordnum + 1) 0)[wordnum := push_bit bitnum 1])))"

section \<open>Set operations\<close>

definition bms_union :: "Bitmapset \<Rightarrow> Bitmapset \<Rightarrow> Bitmapset" where
  "bms_union a b = (case (a, b) of
     (None, _) \<Rightarrow> bms_copy b
   | (Some _, None) \<Rightarrow> bms_copy a
   | (Some aw, Some bw) \<Rightarrow>
       let (result, other) = (if length aw \<le> length bw then (bw, aw) else (aw, bw)) in
       Some (combine_words (OR) result other))"

definition bms_intersect :: "Bitmapset \<Rightarrow> Bitmapset \<Rightarrow> Bitmapset" where
  "bms_intersect a b = (case (a, b) of
     (Some aw, Some bw) \<Rightarrow>
       let (result, other) = (if length aw \<le> length bw then (aw, bw) else (bw, aw)) in
       trim_words (combine_words (AND) result other)
   | _ \<Rightarrow> None)"

fun words_nonempty_difference :: "bitmapword list \<Rightarrow> bitmapword list \<Rightarrow> bool" where
  "words_nonempty_difference (a # as) (b # bs) = (if (a AND NOT b) \<noteq> 0 then True else words_nonempty_difference as bs)"
| "words_nonempty_difference _ _ = False"

definition bms_nonempty_difference :: "Bitmapset \<Rightarrow> Bitmapset \<Rightarrow> bool" where
  "bms_nonempty_difference a b = (case (a, b) of
     (None, _) \<Rightarrow> False
   | (Some _, None) \<Rightarrow> True
   | (Some aw, Some bw) \<Rightarrow> if length aw > length bw then True else words_nonempty_difference aw bw)"

definition bms_difference :: "Bitmapset \<Rightarrow> Bitmapset \<Rightarrow> Bitmapset" where
  "bms_difference a b = (case (a, b) of
     (None, _) \<Rightarrow> None
   | (Some _, None) \<Rightarrow> bms_copy a
   | (Some aw, Some bw) \<Rightarrow>
       if \<not> bms_nonempty_difference a b then None
       else let result = combine_words (\<lambda>r w. r AND NOT w) aw bw in
         if length aw > length bw then Some result
         else Some (take (nat (last_nonzero 0 (-1) result + 1)) result))"

definition bms_is_subset :: "Bitmapset \<Rightarrow> Bitmapset \<Rightarrow> bool" where
  "bms_is_subset a b = (case (a, b) of
     (None, _) \<Rightarrow> True
   | (Some _, None) \<Rightarrow> False
   | (Some aw, Some bw) \<Rightarrow> if length aw > length bw then False else \<not> words_nonempty_difference aw bw)"

fun subset_compare_words :: "BMS_Comparison \<Rightarrow> bitmapword list \<Rightarrow> bitmapword list \<Rightarrow> BMS_Comparison" where
  "subset_compare_words result (a # as) (b # bs) =
     (if (a AND NOT b) \<noteq> 0 \<and> result = BMS_SUBSET1 then BMS_DIFFERENT
      else let result = (if (a AND NOT b) \<noteq> 0 then BMS_SUBSET2 else result) in
        if (b AND NOT a) \<noteq> 0 \<and> result = BMS_SUBSET2 then BMS_DIFFERENT
        else let result = (if (b AND NOT a) \<noteq> 0 then BMS_SUBSET1 else result) in
          subset_compare_words result as bs)"
| "subset_compare_words result _ _ = result"

text \<open>
  The loop returns early only with \<open>BMS_DIFFERENT\<close>, which the checks of the extra words would also
  return.
\<close>

definition bms_subset_compare :: "Bitmapset \<Rightarrow> Bitmapset \<Rightarrow> BMS_Comparison" where
  "bms_subset_compare a b = (case (a, b) of
     (None, None) \<Rightarrow> BMS_EQUAL
   | (None, Some _) \<Rightarrow> BMS_SUBSET1
   | (Some _, None) \<Rightarrow> BMS_SUBSET2
   | (Some aw, Some bw) \<Rightarrow>
       let result = subset_compare_words BMS_EQUAL aw bw in
       if result = BMS_DIFFERENT then BMS_DIFFERENT
       else if length aw > length bw then (if result = BMS_SUBSET1 then BMS_DIFFERENT else BMS_SUBSET2)
       else if length aw < length bw then (if result = BMS_SUBSET2 then BMS_DIFFERENT else BMS_SUBSET1)
       else result)"

section \<open>Members\<close>

definition bms_is_member :: "int \<Rightarrow> Bitmapset \<Rightarrow> bms_error + bool" where
  "bms_is_member x a =
     (if x < 0 then Inl NegativeMember
      else case a of
        None \<Rightarrow> Inr False
      | Some words \<Rightarrow>
          let wordnum = WORDNUM (nat x); bitnum = BITNUM (nat x) in
          if wordnum \<ge> length words then Inr False
          else Inr ((words ! wordnum AND push_bit bitnum 1) \<noteq> 0))"

fun count_words :: "bitmapword list \<Rightarrow> nat" where
  "count_words [] = 0"
| "count_words (w # ws) = (if w \<noteq> 0 then pg_popcount64 w else 0) + count_words ws"

definition bms_member_index :: "Bitmapset \<Rightarrow> int \<Rightarrow> bms_error + int" where
  "bms_member_index a x =
     (case bms_is_member x a of
        Inl e \<Rightarrow> Inl e
      | Inr False \<Rightarrow> Inr (-1)
      | Inr True \<Rightarrow>
          (case a of
             None \<Rightarrow> Inr (-1)
           | Some words \<Rightarrow>
               let wordnum = WORDNUM (nat x); bitnum = BITNUM (nat x); wmask = push_bit bitnum 1 - 1 in
               Inr (int (count_words (take wordnum words) + pg_popcount64 (words ! wordnum AND wmask)))))"

fun words_overlap :: "bitmapword list \<Rightarrow> bitmapword list \<Rightarrow> bool" where
  "words_overlap (a # as) (b # bs) = (if (a AND b) \<noteq> 0 then True else words_overlap as bs)"
| "words_overlap _ _ = False"

definition bms_overlap :: "Bitmapset \<Rightarrow> Bitmapset \<Rightarrow> bool" where
  "bms_overlap a b = (case (a, b) of (Some aw, Some bw) \<Rightarrow> words_overlap aw bw | _ \<Rightarrow> False)"

fun overlap_list_loop :: "bitmapword list \<Rightarrow> int list \<Rightarrow> bms_error + bool" where
  "overlap_list_loop words [] = Inr False"
| "overlap_list_loop words (x # xs) =
     (if x < 0 then Inl NegativeMember
      else if WORDNUM (nat x) < length words \<and> (words ! WORDNUM (nat x) AND push_bit (BITNUM (nat x)) 1) \<noteq> 0
      then Inr True else overlap_list_loop words xs)"

definition bms_overlap_list :: "Bitmapset \<Rightarrow> int list \<Rightarrow> bms_error + bool" where
  "bms_overlap_list a b = (case a of None \<Rightarrow> Inr False | Some words \<Rightarrow> overlap_list_loop words b)"

text \<open>The shared loop of the two singleton functions: \<open>None\<close> when a second member is met.\<close>

fun singleton_loop :: "nat \<Rightarrow> int \<Rightarrow> bitmapword list \<Rightarrow> int option" where
  "singleton_loop wordnum result [] = Some result"
| "singleton_loop wordnum result (w # ws) =
     (if w \<noteq> 0 then
        (if result \<ge> 0 \<or> HAS_MULTIPLE_ONES w then None
         else singleton_loop (wordnum + 1) (int (wordnum * BITS_PER_BITMAPWORD + pg_rightmost_one_pos64 w)) ws)
      else singleton_loop (wordnum + 1) result ws)"

definition bms_singleton_member :: "Bitmapset \<Rightarrow> bms_error + int" where
  "bms_singleton_member a = (case a of
     None \<Rightarrow> Inl EmptySet
   | Some words \<Rightarrow> (case singleton_loop 0 (-1) words of None \<Rightarrow> Inl MultipleMembers | Some r \<Rightarrow> Inr r))"

text \<open>\<open>None\<close> for the result false.\<close>

definition bms_get_singleton_member :: "Bitmapset \<Rightarrow> int option" where
  "bms_get_singleton_member a = (case a of None \<Rightarrow> None | Some words \<Rightarrow> singleton_loop 0 (-1) words)"

definition bms_num_members :: "Bitmapset \<Rightarrow> nat" where
  "bms_num_members a = (case a of None \<Rightarrow> 0 | Some words \<Rightarrow> count_words words)"

fun membership_loop :: "BMS_Membership \<Rightarrow> bitmapword list \<Rightarrow> BMS_Membership" where
  "membership_loop result [] = result"
| "membership_loop result (w # ws) =
     (if w \<noteq> 0 then
        (if result \<noteq> BMS_EMPTY_SET \<or> HAS_MULTIPLE_ONES w then BMS_MULTIPLE else membership_loop BMS_SINGLETON ws)
      else membership_loop result ws)"

definition bms_membership :: "Bitmapset \<Rightarrow> BMS_Membership" where
  "bms_membership a = (case a of None \<Rightarrow> BMS_EMPTY_SET | Some words \<Rightarrow> membership_loop BMS_EMPTY_SET words)"

section \<open>Updates in place\<close>

definition enlarge_words :: "nat \<Rightarrow> bitmapword list \<Rightarrow> bitmapword list" where
  "enlarge_words wordnum words =
     (if wordnum \<ge> length words then words @ replicate (wordnum + 1 - length words) 0 else words)"

definition bms_add_member :: "Bitmapset \<Rightarrow> int \<Rightarrow> bms_error + Bitmapset" where
  "bms_add_member a x =
     (if x < 0 then Inl NegativeMember
      else case a of
        None \<Rightarrow> bms_make_singleton x
      | Some words \<Rightarrow>
          let wordnum = WORDNUM (nat x); bitnum = BITNUM (nat x); words = enlarge_words wordnum words in
          Inr (Some (words[wordnum := words ! wordnum OR push_bit bitnum 1])))"

text \<open>The search of \<open>bms_del_member\<close> for the last word that is not zero, from word \<open>i - 1\<close> down.\<close>

fun trim_below :: "nat \<Rightarrow> bitmapword list \<Rightarrow> Bitmapset" where
  "trim_below 0 words = None"
| "trim_below (Suc i) words = (if words ! i \<noteq> 0 then Some (take (i + 1) words) else trim_below i words)"

definition bms_del_member :: "Bitmapset \<Rightarrow> int \<Rightarrow> bms_error + Bitmapset" where
  "bms_del_member a x =
     (if x < 0 then Inl NegativeMember
      else case a of
        None \<Rightarrow> Inr None
      | Some words \<Rightarrow>
          let wordnum = WORDNUM (nat x); bitnum = BITNUM (nat x) in
          if wordnum \<ge> length words then Inr a
          else let words = words[wordnum := words ! wordnum AND NOT (push_bit bitnum 1)] in
            if words ! wordnum = 0 \<and> wordnum = length words - 1 then Inr (trim_below wordnum words)
            else Inr (Some words))"

definition bms_add_members :: "Bitmapset \<Rightarrow> Bitmapset \<Rightarrow> Bitmapset" where
  "bms_add_members a b = (case (a, b) of
     (None, _) \<Rightarrow> bms_copy b
   | (Some _, None) \<Rightarrow> a
   | (Some aw, Some bw) \<Rightarrow>
       let (result, other) = (if length aw < length bw then (bw, aw) else (aw, bw)) in
       Some (combine_words (OR) result other))"

text \<open>The array of \<open>a\<close> is overwritten by the words of \<open>b\<close> and then has the length of \<open>b\<close>.\<close>

definition bms_replace_members :: "Bitmapset \<Rightarrow> Bitmapset \<Rightarrow> Bitmapset" where
  "bms_replace_members a b = (case (a, b) of
     (None, _) \<Rightarrow> bms_copy b
   | (Some _, None) \<Rightarrow> None
   | (Some aw, Some bw) \<Rightarrow>
       let aw = (if length aw < length bw then aw @ replicate (length bw - length aw) 0 else aw) in
       Some (take (length bw) (combine_words (\<lambda>r w. w) aw bw)))"

fun fill_words :: "nat \<Rightarrow> nat \<Rightarrow> bitmapword list \<Rightarrow> bitmapword list" where
  "fill_words wordnum 0 words = words"
| "fill_words wordnum (Suc n) words = fill_words (wordnum + 1) n (words[wordnum := NOT 0])"

definition bms_add_range :: "Bitmapset \<Rightarrow> int \<Rightarrow> int \<Rightarrow> bms_error + Bitmapset" where
  "bms_add_range a lower upper =
     (if upper < lower then Inr a
      else if lower < 0 then Inl NegativeMember
      else let
        uwordnum = WORDNUM (nat upper);
        words = (case a of None \<Rightarrow> replicate (uwordnum + 1) 0 | Some words \<Rightarrow> enlarge_words uwordnum words);
        lwordnum = WORDNUM (nat lower);
        lbitnum = BITNUM (nat lower);
        ushiftbits = BITS_PER_BITMAPWORD - (BITNUM (nat upper) + 1);
        lmask = NOT (push_bit lbitnum 1 - 1);
        umask = drop_bit ushiftbits (NOT 0)
      in if lwordnum = uwordnum
         then Inr (Some (words[lwordnum := words ! lwordnum OR (lmask AND umask)]))
         else let
           words = words[lwordnum := words ! lwordnum OR lmask];
           words = fill_words (lwordnum + 1) (uwordnum - (lwordnum + 1)) words
         in Inr (Some (words[uwordnum := words ! uwordnum OR umask])))"

definition bms_int_members :: "Bitmapset \<Rightarrow> Bitmapset \<Rightarrow> Bitmapset" where
  "bms_int_members a b = (case (a, b) of
     (Some aw, Some bw) \<Rightarrow>
       let shortlen = min (length aw) (length bw) in
       trim_words (take shortlen (combine_words (AND) aw bw))
   | _ \<Rightarrow> None)"

definition bms_del_members :: "Bitmapset \<Rightarrow> Bitmapset \<Rightarrow> Bitmapset" where
  "bms_del_members a b = (case (a, b) of
     (None, _) \<Rightarrow> None
   | (Some _, None) \<Rightarrow> a
   | (Some aw, Some bw) \<Rightarrow>
       let result = combine_words (\<lambda>r w. r AND NOT w) aw bw in
       if length aw > length bw then Some result else trim_words result)"

definition bms_join :: "Bitmapset \<Rightarrow> Bitmapset \<Rightarrow> Bitmapset" where
  "bms_join a b = (case (a, b) of
     (None, _) \<Rightarrow> b
   | (Some _, None) \<Rightarrow> a
   | (Some aw, Some bw) \<Rightarrow>
       let (result, other) = (if length aw < length bw then (bw, aw) else (aw, bw)) in
       Some (combine_words (OR) result other))"

section \<open>Iteration\<close>

fun next_member_loop :: "nat \<Rightarrow> bitmapword \<Rightarrow> bitmapword list \<Rightarrow> int" where
  "next_member_loop wordnum wmask [] = -2"
| "next_member_loop wordnum wmask (w # ws) =
     (let w = w AND wmask in
      if w \<noteq> 0 then int (wordnum * BITS_PER_BITMAPWORD + pg_rightmost_one_pos64 w)
      else next_member_loop (wordnum + 1) (NOT 0) ws)"

text \<open>The argument of \<open>bms_next_member\<close> must not be below -1.\<close>

definition bms_next_member :: "Bitmapset \<Rightarrow> int \<Rightarrow> int" where
  "bms_next_member a prevbit = (case a of
     None \<Rightarrow> -2
   | Some words \<Rightarrow>
       let prevbit = nat (prevbit + 1); wmask = push_bit (BITNUM prevbit) (NOT 0); wordnum = WORDNUM prevbit in
       next_member_loop wordnum wmask (drop wordnum words))"

text \<open>The words below \<open>n\<close> from the top down; \<open>None\<close> when a word outside the array is read.\<close>

fun prev_member_loop :: "nat \<Rightarrow> bitmapword \<Rightarrow> bitmapword list \<Rightarrow> int option" where
  "prev_member_loop 0 wmask words = Some (-2)"
| "prev_member_loop (Suc wordnum) wmask words =
     (case arr_get words wordnum of
        None \<Rightarrow> None
      | Some w \<Rightarrow>
          let w = w AND wmask in
          if w \<noteq> 0 then Some (int (wordnum * BITS_PER_BITMAPWORD + pg_leftmost_one_pos64 w))
          else prev_member_loop wordnum (NOT 0) words)"

definition bms_prev_member :: "Bitmapset \<Rightarrow> int \<Rightarrow> int option" where
  "bms_prev_member a prevbit = (case a of
     None \<Rightarrow> Some (-2)
   | Some words \<Rightarrow>
       if prevbit = 0 then Some (-2)
       else let
         prevbit = (if prevbit = -1 then length words * BITS_PER_BITMAPWORD - 1 else nat (prevbit - 1));
         ushiftbits = BITS_PER_BITMAPWORD - (BITNUM prevbit + 1);
         wmask = drop_bit ushiftbits (NOT 0)
       in prev_member_loop (WORDNUM prevbit + 1) wmask words)"

text \<open>The iteration pattern of the callers, with the number of rounds bounded by \<open>n\<close>.\<close>

fun iterate_members :: "nat \<Rightarrow> Bitmapset \<Rightarrow> int \<Rightarrow> int list option" where
  "iterate_members 0 a x = None"
| "iterate_members (Suc n) a x =
     (let x = bms_next_member a x in
      if x \<ge> 0 then map_option ((#) x) (iterate_members n a x) else Some [])"

text \<open>A match function returns zero for a match.\<close>

definition bitmap_match :: "Bitmapset \<Rightarrow> Bitmapset \<Rightarrow> int" where
  "bitmap_match key1 key2 = (if bms_equal key1 key2 then 0 else 1)"


section \<open>The members of a set\<close>

definition in_words :: "bitmapword list \<Rightarrow> nat \<Rightarrow> bool" where
  "in_words words n = (n div 64 < length words \<and> bit (words ! (n div 64)) (n mod 64))"

definition bms_members :: "Bitmapset \<Rightarrow> nat set" where
  "bms_members a = (case a of None \<Rightarrow> {} | Some words \<Rightarrow> {n. in_words words n})"

lemma bms_members_simps [simp]:
  "bms_members None = {}"
  "bms_members (Some ws) = {n. in_words ws n}"
  by (simp_all add: bms_members_def)

lemma valid_simps [simp]:
  "bms_is_valid_set None"
  "bms_is_valid_set (Some ws) \<longleftrightarrow> ws \<noteq> [] \<and> last ws \<noteq> 0"
  by (simp_all add: bms_is_valid_set_def)

lemma in_words_at: "j < 64 \<Longrightarrow> in_words ws (i * 64 + j) \<longleftrightarrow> i < length ws \<and> bit (ws ! i) j"
  by (simp add: in_words_def)

lemma word64_eqI: "(\<And>j. j < 64 \<Longrightarrow> bit v j = bit w j) \<Longrightarrow> v = (w :: bitmapword)"
  by (rule bit_word_eqI) simp

lemma word64_nonzero: "(w :: bitmapword) \<noteq> 0 \<longleftrightarrow> (\<exists>j < 64. bit w j)"
  using word64_eqI[of w 0] by auto

lemma in_words_last: "ws \<noteq> [] \<Longrightarrow> last ws \<noteq> 0 \<Longrightarrow> \<exists>n. in_words ws n \<and> n div 64 = length ws - 1"
proof -
  assume "ws \<noteq> []" "last ws \<noteq> 0"
  then obtain j where "j < 64" "bit (ws ! (length ws - 1)) j"
    by (auto simp: word64_nonzero last_conv_nth)
  then show ?thesis using \<open>ws \<noteq> []\<close>
    by (intro exI[of _ "(length ws - 1) * 64 + j"]) (simp add: in_words_at)
qed

lemma in_words_eqI: "length v = length w \<Longrightarrow> (\<And>n. in_words v n = in_words w n) \<Longrightarrow> v = w"
proof (rule nth_equalityI)
  fix i assume *: "length v = length w" "\<And>n. in_words v n = in_words w n" "i < length v"
  show "v ! i = w ! i"
    by (rule word64_eqI) (use * in_words_at[of _ _ i] in metis)
qed simp

lemma in_words_length_le:
  assumes "ws \<noteq> []" "last ws \<noteq> 0" "\<And>n. in_words ws n \<Longrightarrow> in_words vs n"
  shows "length ws \<le> length vs"
proof -
  obtain n where n: "in_words ws n" "n div 64 = length ws - 1" using in_words_last[OF assms(1,2)] by blast
  have "n div 64 < length vs" using assms(3)[OF n(1)] by (simp add: in_words_def)
  with n(2) assms(1) show ?thesis by (cases ws) auto
qed

text \<open>The representation is canonical: a set has one valid representation.\<close>

lemma bms_canonical:
  assumes "bms_is_valid_set a" "bms_is_valid_set b" "bms_members a = bms_members b"
  shows "a = b"
proof (cases a; cases b)
  fix v w assume ab: "a = Some v" "b = Some w"
  then have eq: "in_words v n = in_words w n" for n using assms(3) by auto
  have "length v = length w"
    using assms(1,2) ab eq by (intro antisym in_words_length_le) auto
  then show ?thesis using ab in_words_eqI eq by simp
qed (use assms in_words_last in auto)

lemma bms_members_empty: "bms_is_valid_set a \<Longrightarrow> bms_members a = {} \<longleftrightarrow> a = None"
  using bms_canonical[of a None] by auto

lemma finite_bms_members [simp]: "finite (bms_members a)"
proof (cases a)
  case (Some ws)
  have "bms_members a \<subseteq> {..< length ws * 64}"
    by (auto simp: Some in_words_def div_less_iff_less_mult)
  then show ?thesis using finite_subset by blast
qed simp

section \<open>Word loops\<close>

lemma length_combine_words [simp]: "length (combine_words f rs ws) = length rs"
  by (induction f rs ws rule: combine_words.induct) auto

lemma nth_combine_words:
  "i < length rs \<Longrightarrow> combine_words f rs ws ! i = (if i < length ws then f (rs ! i) (ws ! i) else rs ! i)"
  by (induction f rs ws arbitrary: i rule: combine_words.induct) (auto simp: nth_Cons')

lemma last_nonzero_snoc [simp]:
  "last_nonzero i l (ws @ [w]) = (if w \<noteq> 0 then i + int (length ws) else last_nonzero i l ws)"
  by (induction i l ws rule: last_nonzero.induct) auto

lemma last_nonzero_range: "last_nonzero 0 (-1) ws \<ge> -1 \<and> last_nonzero 0 (-1) ws < int (length ws)"
  by (induction ws rule: rev_induct) auto

lemma in_words_append_zero [simp]: "in_words (ws @ [0]) n = in_words ws n"
  by (auto simp: in_words_def nth_append)

lemma in_words_append_zeros [simp]: "in_words (ws @ replicate k 0) n = in_words ws n"
  by (auto simp: in_words_def nth_append)

lemma trim_words_snoc [simp]:
  "trim_words [] = None"
  "trim_words (ws @ [w]) = (if w \<noteq> 0 then Some (ws @ [w]) else trim_words ws)"
  using last_nonzero_range[of ws] by (auto simp: trim_words_def Let_def)

lemma valid_trim_words [simp]: "bms_is_valid_set (trim_words ws)"
  by (induction ws rule: rev_induct) auto

lemma members_trim_words [simp]: "bms_members (trim_words ws) = {n. in_words ws n}"
proof (induction ws rule: rev_induct)
  case (snoc w ws)
  then show ?case by (cases "w = 0") simp_all
qed (simp add: in_words_def)

lemma trim_words_last: "ws \<noteq> [] \<Longrightarrow> last ws \<noteq> 0 \<Longrightarrow> trim_words ws = Some ws"
  by (cases ws rule: rev_cases) auto

lemma in_words_or: "length ws \<le> length rs \<Longrightarrow> in_words (combine_words (OR) rs ws) n = (in_words rs n \<or> in_words ws n)"
  by (auto simp: nth_combine_words in_words_def bit_or_iff split: if_splits)

lemma in_words_and: "length rs \<le> length ws \<Longrightarrow> in_words (combine_words (AND) rs ws) n = (in_words rs n \<and> in_words ws n)"
  by (auto simp: nth_combine_words in_words_def bit_and_iff split: if_splits)

lemma in_words_andnot: "in_words (combine_words (\<lambda>r w. r AND NOT w) rs ws) n = (in_words rs n \<and> \<not> in_words ws n)"
  by (auto simp: nth_combine_words in_words_def bit_and_iff bit_not_iff split: if_splits)

lemma last_combine:
  assumes "rs \<noteq> []"
  shows "last (combine_words f rs ws) =
    (if length rs \<le> length ws then f (last rs) (ws ! (length rs - 1)) else last rs)"
proof -
  obtain k where k: "length rs = Suc k" using assms by (cases rs) auto
  then have "combine_words f rs ws \<noteq> []" by (metis length_combine_words list.size(3) nat.distinct(1))
  then show ?thesis using assms k by (simp add: last_conv_nth nth_combine_words Suc_le_eq)
qed

lemma or_nonzero: "(v :: bitmapword) \<noteq> 0 \<Longrightarrow> v OR w \<noteq> 0"
  by (auto simp: word64_nonzero bit_or_iff)

lemma take_and_combine: "length ws \<le> length rs \<Longrightarrow> take (length ws) (combine_words (AND) rs ws) = combine_words (AND) ws rs"
  by (rule nth_equalityI) (auto simp: nth_combine_words and.commute)


section \<open>Refinement of the set operations\<close>

lemma bms_copy_id [simp]: "bms_copy a = a"
  by (simp add: bms_copy_def)

lemma combine_or_valid:
  "rs \<noteq> [] \<Longrightarrow> last rs \<noteq> 0 \<Longrightarrow> combine_words (OR) rs ws \<noteq> [] \<and> last (combine_words (OR) rs ws) \<noteq> 0"
  using length_combine_words[of "(OR)" rs ws] by (auto simp: last_combine or_nonzero simp del: length_combine_words)

lemma valid_union [simp]: "bms_is_valid_set a \<Longrightarrow> bms_is_valid_set b \<Longrightarrow> bms_is_valid_set (bms_union a b)"
  by (cases a; cases b) (simp_all add: bms_union_def combine_or_valid)

lemma members_union [simp]: "bms_members (bms_union a b) = bms_members a \<union> bms_members b"
  by (cases a; cases b) (auto simp: bms_union_def in_words_or)

lemma valid_intersect [simp]: "bms_is_valid_set (bms_intersect a b)"
  by (cases a; cases b) (simp_all add: bms_intersect_def)

lemma members_intersect [simp]: "bms_members (bms_intersect a b) = bms_members a \<inter> bms_members b"
  by (cases a; cases b) (auto simp: bms_intersect_def in_words_and)

lemma words_nonempty_difference_iff:
  "words_nonempty_difference v w \<longleftrightarrow> (\<exists>i < length v. i < length w \<and> (v ! i AND NOT (w ! i)) \<noteq> 0)"
  by (induction v w rule: words_nonempty_difference.induct) (auto simp: Ex_less_Suc2 less_Suc_eq_0_disj)

lemma nonempty_difference_iff:
  assumes "bms_is_valid_set a" "bms_is_valid_set b"
  shows "bms_nonempty_difference a b \<longleftrightarrow> \<not> bms_members a \<subseteq> bms_members b"
proof (cases a; cases b)
  fix v assume "a = Some v" "b = None"
  then show ?thesis using bms_members_empty[OF assms(1)] by (auto simp: bms_nonempty_difference_def)
next
  fix v w assume ab: "a = Some v" "b = Some w"
  show ?thesis
  proof (cases "length v > length w")
    case True
    then show ?thesis using ab assms in_words_length_le[of v w]
      by (fastforce simp: bms_nonempty_difference_def)
  next
    case False
    have "words_nonempty_difference v w \<longleftrightarrow> (\<exists>i < length v. \<exists>j < 64. bit (v ! i) j \<and> \<not> bit (w ! i) j)"
      using False by (auto simp: words_nonempty_difference_iff word64_nonzero bit_and_iff bit_not_iff)
    also have "\<dots> \<longleftrightarrow> (\<exists>n. in_words v n \<and> \<not> in_words w n)"
    proof
      assume "\<exists>i < length v. \<exists>j < 64. bit (v ! i) j \<and> \<not> bit (w ! i) j"
      then obtain i j where "i < length v" "j < 64" "bit (v ! i) j" "\<not> bit (w ! i) j" by blast
      then show "\<exists>n. in_words v n \<and> \<not> in_words w n"
        by (intro exI[of _ "i * 64 + j"]) (simp add: in_words_at)
    next
      assume "\<exists>n. in_words v n \<and> \<not> in_words w n"
      then obtain n where "in_words v n" "\<not> in_words w n" by blast
      then show "\<exists>i < length v. \<exists>j < 64. bit (v ! i) j \<and> \<not> bit (w ! i) j"
        using False by (intro exI[of _ "n div 64"] conjI exI[of _ "n mod 64"]) (auto simp: in_words_def)
    qed
    finally show ?thesis using ab False by (auto simp: bms_nonempty_difference_def)
  qed
qed (use assms in \<open>auto simp: bms_nonempty_difference_def\<close>)

lemma valid_some_andnot:
  "v \<noteq> [] \<Longrightarrow> last v \<noteq> 0 \<Longrightarrow> length w < length v \<Longrightarrow>
    combine_words f v w \<noteq> [] \<and> last (combine_words f v w) \<noteq> 0"
  using length_combine_words[of f v w] by (auto simp: last_combine simp del: length_combine_words)

lemma del_members_refines:
  assumes "bms_is_valid_set a" "bms_is_valid_set b"
  shows "bms_is_valid_set (bms_del_members a b)" "bms_members (bms_del_members a b) = bms_members a - bms_members b"
  using assms by (cases a; cases b; auto simp: bms_del_members_def Let_def valid_some_andnot in_words_andnot)+

lemma difference_del_members:
  assumes "bms_is_valid_set a" "bms_is_valid_set b"
  shows "bms_difference a b = bms_del_members a b"
proof (cases "bms_nonempty_difference a b")
  case False
  then have "bms_members (bms_del_members a b) = {}"
    using del_members_refines[OF assms] nonempty_difference_iff[OF assms] by auto
  then have "bms_del_members a b = None" using del_members_refines(1)[OF assms] bms_members_empty by blast
  then show ?thesis using False
    by (auto simp: bms_difference_def bms_nonempty_difference_def split: option.splits)
next
  case True
  then have "bms_del_members a b \<noteq> None"
    using del_members_refines[OF assms] nonempty_difference_iff[OF assms] by auto
  then show ?thesis using True
    by (auto simp: bms_difference_def bms_del_members_def trim_words_def Let_def split: option.splits if_splits)
qed

lemma valid_difference [simp]: "bms_is_valid_set a \<Longrightarrow> bms_is_valid_set b \<Longrightarrow> bms_is_valid_set (bms_difference a b)"
  by (simp add: difference_del_members del_members_refines)

lemma members_difference [simp]:
  "bms_is_valid_set a \<Longrightarrow> bms_is_valid_set b \<Longrightarrow> bms_members (bms_difference a b) = bms_members a - bms_members b"
  by (simp add: difference_del_members del_members_refines)

lemma valid_add_members [simp]: "bms_is_valid_set a \<Longrightarrow> bms_is_valid_set b \<Longrightarrow> bms_is_valid_set (bms_add_members a b)"
  by (cases a; cases b) (simp_all add: bms_add_members_def combine_or_valid)

lemma members_add_members [simp]: "bms_members (bms_add_members a b) = bms_members a \<union> bms_members b"
  by (cases a; cases b) (auto simp: bms_add_members_def in_words_or)

lemma int_members_intersect: "bms_int_members a b = bms_intersect a b"
proof (cases a; cases b)
  fix v w assume ab: "a = Some v" "b = Some w"
  show ?thesis
    using take_and_combine[of w v] by (auto simp: ab bms_int_members_def bms_intersect_def Let_def min_def)
qed (simp_all add: bms_int_members_def bms_intersect_def)

lemma join_add_members: "bms_join a b = bms_add_members a b"
  by (cases a; cases b) (simp_all add: bms_join_def bms_add_members_def)

lemma replace_members_copy: "bms_replace_members a b = b"
proof (cases a; cases b)
  fix v w assume ab: "a = Some v" "b = Some w"
  have "take (length w) (combine_words (\<lambda>r x. x) u w) = w" if "length w \<le> length u" for u
    using that by (intro nth_equalityI) (auto simp: nth_combine_words)
  then show ?thesis by (simp add: ab bms_replace_members_def Let_def)
qed (simp_all add: bms_replace_members_def)

section \<open>Single members and ranges\<close>

lemmas bms_nums = WORDNUM_def BITNUM_def BITS_PER_BITMAPWORD_def

lemma bit_push_one: "bit (2 ^ j :: bitmapword) k \<longleftrightarrow> k = j \<and> j < 64"
  by (auto simp: bit_exp_iff)

lemma in_words_update: "i < length ws \<Longrightarrow>
    in_words (ws[i := w]) n = (if n div 64 = i then bit w (n mod 64) else in_words ws n)"
  by (auto simp: in_words_def nth_list_update)

lemma same_place: "(n div 64 = m div 64 \<and> n mod 64 = m mod 64) = (n = (m :: nat))"
  by (metis div_mult_mod_eq)

lemma in_words_zeros [simp]: "\<not> in_words (replicate k 0) n"
  by (simp add: in_words_def)

lemma last_list_update_nonzero: "ws \<noteq> [] \<Longrightarrow> last ws \<noteq> 0 \<Longrightarrow> w \<noteq> 0 \<Longrightarrow> last (ws[i := w]) \<noteq> (0 :: bitmapword)"
  by (cases "i < length ws") (auto simp: last_conv_nth nth_list_update list_update_beyond)

lemma enlarge_words_length [simp]: "length (enlarge_words i ws) = max (length ws) (i + 1)"
  by (simp add: enlarge_words_def)

lemma in_words_enlarge [simp]: "in_words (enlarge_words i ws) n = in_words ws n"
  by (simp add: enlarge_words_def)

text \<open>A grown array is valid again once the word that made it grow has been set.\<close>

lemma last_enlarge_update:
  assumes "ws \<noteq> [] \<Longrightarrow> last ws \<noteq> 0" "w \<noteq> 0"
  shows "last ((enlarge_words i ws)[i := w]) \<noteq> (0 :: bitmapword)"
proof (cases "i \<ge> length ws")
  case True
  then have "length (enlarge_words i ws) = i + 1" by simp
  then show ?thesis using assms(2) by (metis add_diff_cancel_right' last_conv_nth length_list_update
        less_add_one list.size(3) nth_list_update_eq zero_neq_one add_is_0)
next
  case False
  then have "enlarge_words i ws = ws" "ws \<noteq> []" by (auto simp: enlarge_words_def)
  then show ?thesis using assms last_list_update_nonzero by simp
qed

lemma make_singleton_enlarge: "bms_make_singleton (int n) =
    Inr (Some ((enlarge_words (WORDNUM n) [])[WORDNUM n := (enlarge_words (WORDNUM n) []) ! WORDNUM n OR push_bit (BITNUM n) 1]))"
  by (simp add: bms_make_singleton_def enlarge_words_def Let_def del: replicate.simps)

lemma add_bit_refines:
  fixes n :: nat and ws :: "bitmapword list"
  assumes "ws \<noteq> [] \<Longrightarrow> last ws \<noteq> 0"
  defines "us \<equiv> (enlarge_words (WORDNUM n) ws)[WORDNUM n := (enlarge_words (WORDNUM n) ws) ! WORDNUM n OR push_bit (BITNUM n) 1]"
  shows "us \<noteq> [] \<and> last us \<noteq> 0" "in_words us m \<longleftrightarrow> m = n \<or> in_words ws m"
proof -
  have "push_bit (BITNUM n) (1 :: bitmapword) \<noteq> 0"
    by (auto simp: word64_nonzero bit_push_one bms_nums)
  then have "x OR push_bit (BITNUM n) 1 \<noteq> 0" for x :: bitmapword
    using or_nonzero[of "push_bit (BITNUM n) 1" x] by (simp add: or.commute)
  moreover have "us \<noteq> []" using enlarge_words_length[of "WORDNUM n" ws] unfolding us_def
    by (metis add_is_0 length_0_conv list_update_nonempty max.cobounded2 le_zero_eq zero_neq_one)
  ultimately show "us \<noteq> [] \<and> last us \<noteq> 0"
    unfolding us_def using last_enlarge_update[OF assms(1)] by auto
  have "in_words (enlarge_words (WORDNUM n) ws) m \<longleftrightarrow> bit (enlarge_words (WORDNUM n) ws ! WORDNUM n) (m mod 64)"
    if "m div 64 = n div 64"
    using that by (simp add: in_words_def bms_nums less_max_iff_disj)
  then show "in_words us m \<longleftrightarrow> m = n \<or> in_words ws m"
    unfolding us_def using same_place[of m n]
    by (auto simp: in_words_update bit_or_iff bit_push_one bms_nums)
qed

lemma add_member_refines:
  assumes "bms_is_valid_set a"
  obtains c where "bms_add_member a (int n) = Inr c" "bms_is_valid_set c" "bms_members c = insert n (bms_members a)"
proof (cases a)
  case None
  with that add_bit_refines[of "[]" n] show ?thesis
    by (auto simp: bms_add_member_def make_singleton_enlarge in_words_def)
next
  case (Some ws)
  with that assms add_bit_refines[of ws n] show ?thesis
    by (auto simp: bms_add_member_def Let_def)
qed

lemma make_singleton_refines:
  obtains c where "bms_make_singleton (int n) = Inr c" "bms_is_valid_set c" "bms_members c = {n}"
  using add_member_refines[of None n] by (auto simp: bms_add_member_def)

lemma trim_below_trim: "i \<le> length ws \<Longrightarrow> trim_below i ws = trim_words (take i ws)"
  by (induction i) (auto simp: take_Suc_conv_app_nth)

lemma del_member_refines:
  assumes "bms_is_valid_set a"
  obtains c where "bms_del_member a (int n) = Inr c" "bms_is_valid_set c" "bms_members c = bms_members a - {n}"
proof (cases a)
  case None
  with that show ?thesis by (auto simp: bms_del_member_def)
next
  case (Some ws)
  let ?i = "n div 64"
  define us where "us = ws[?i := ws ! ?i AND NOT (push_bit (n mod 64) 1)]"
  have mem: "in_words us m \<longleftrightarrow> m \<noteq> n \<and> in_words ws m" if "?i < length ws" for m
    unfolding us_def using that same_place[of m n]
    by (auto simp: in_words_update bit_and_iff bit_not_iff bit_push_one in_words_def nth_list_update)
  have eq: "bms_del_member a (int n) = (if ?i \<ge> length ws then Inr a
      else if us ! ?i = 0 \<and> ?i = length us - 1 then Inr (trim_below ?i us) else Inr (Some us))"
    by (auto simp: Some bms_del_member_def bms_nums us_def Let_def)
  consider (out) "?i \<ge> length ws" | (trim) "?i < length ws" "us ! ?i = 0" "?i = length us - 1"
    | (keep) "?i < length ws" "us ! ?i \<noteq> 0 \<or> ?i \<noteq> length us - 1" by linarith
  then show ?thesis
  proof cases
    case out
    then show ?thesis using that[of a] assms by (auto simp: eq) (auto simp: Some in_words_def)
  next
    case trim
    have "us \<noteq> []" using trim(1) by (auto simp: us_def)
    then have "last us = 0" using trim(2,3) by (metis last_conv_nth)
    then have vs: "us = butlast us @ [0]" "length (butlast us) = ?i"
      using append_butlast_last_id[OF \<open>us \<noteq> []\<close>] trim(3) by simp_all
    have "trim_words us = trim_words (butlast us @ [0])" using vs(1) by (rule arg_cong)
    also have "\<dots> = trim_words (take ?i us)" unfolding trim(3) butlast_conv_take[symmetric] by simp
    also have "\<dots> = trim_below ?i us" by (rule trim_below_trim[symmetric]) (simp add: trim(3))
    finally have "bms_del_member a (int n) = Inr (trim_words us)"
      using trim(1,2,3) unfolding eq by (simp only: not_le[symmetric] if_True if_False simp_thms)
    then show ?thesis by (rule that) (use mem[OF trim(1)] Some in auto)
  next
    case keep
    have us: "us \<noteq> [] \<and> last us \<noteq> 0" using keep assms Some by (auto simp: us_def last_conv_nth nth_list_update)
    have "bms_del_member a (int n) = Inr (Some us)" using keep unfolding eq by auto
    then show ?thesis by (rule that) (use us mem[OF keep(1)] Some in auto)
  qed
qed

lemma negative_member:
  "x < 0 \<Longrightarrow> bms_add_member a x = Inl NegativeMember"
  "x < 0 \<Longrightarrow> bms_del_member a x = Inl NegativeMember"
  "x < 0 \<Longrightarrow> bms_make_singleton x = Inl NegativeMember"
  "x < 0 \<Longrightarrow> bms_is_member x a = Inl NegativeMember"
  "x < 0 \<Longrightarrow> bms_member_index a x = Inl NegativeMember"
  by (simp_all add: bms_add_member_def bms_del_member_def bms_make_singleton_def bms_is_member_def bms_member_index_def)


lemma bit_lower_mask: "k < 64 \<Longrightarrow> bit (NOT (push_bit l 1 - 1) :: bitmapword) k \<longleftrightarrow> l \<le> k"
  by (auto simp: bit_not_iff mask_eq_exp_minus_1[symmetric] bit_mask_iff)

lemma bit_upper_mask: "u < 64 \<Longrightarrow> k < 64 \<Longrightarrow> bit (drop_bit (64 - (u + 1)) (NOT 0) :: bitmapword) k \<longleftrightarrow> k \<le> u"
  by (auto simp: bit_drop_bit_eq bit_not_iff bit_mask_iff)

lemma length_fill_words [simp]: "length (fill_words i n ws) = length ws"
  by (induction i n ws rule: fill_words.induct) auto

lemma nth_fill_words: "k < length ws \<Longrightarrow> fill_words i n ws ! k = (if i \<le> k \<and> k < i + n then NOT 0 else ws ! k)"
  by (induction i n ws rule: fill_words.induct) (auto simp: nth_list_update not_less_eq_eq)

lemma le_by_words: "(n :: nat) \<le> m \<longleftrightarrow> n div 64 < m div 64 \<or> (n div 64 = m div 64 \<and> n mod 64 \<le> m mod 64)"
proof -
  have "n = 64 * (n div 64) + n mod 64" "m = 64 * (m div 64) + m mod 64" "n mod 64 < 64" "m mod 64 < 64" by auto
  then show ?thesis by linarith
qed

definition range_words :: "nat \<Rightarrow> nat \<Rightarrow> bitmapword list \<Rightarrow> bitmapword list" where
  "range_words l u ws =
     (let lmask = NOT (push_bit (l mod 64) 1 - 1); umask = drop_bit (64 - (u mod 64 + 1)) (NOT 0) in
      if l div 64 = u div 64 then ws[l div 64 := ws ! (l div 64) OR (lmask AND umask)]
      else let ws = fill_words (l div 64 + 1) (u div 64 - (l div 64 + 1)) (ws[l div 64 := ws ! (l div 64) OR lmask]) in
        ws[u div 64 := ws ! (u div 64) OR umask])"

lemma add_range_words:
  assumes "l \<le> u"
  shows "bms_add_range a (int l) (int u) =
    Inr (Some (range_words l u (enlarge_words (u div 64) (case a of None \<Rightarrow> [] | Some ws \<Rightarrow> ws))))"
proof -
  have "replicate (u div 64 + 1) 0 = enlarge_words (u div 64) []" by (simp add: enlarge_words_def)
  then show ?thesis using assms
    by (simp add: bms_add_range_def bms_nums range_words_def Let_def del: replicate.simps split: option.split)
qed

lemma bit_range_words:
  assumes "L \<le> U" "U < length ws" "j < 64" "k < length ws" "l < 64" "u < 64"
  shows "bit (range_words (L * 64 + l) (U * 64 + u) ws ! k) j \<longleftrightarrow> bit (ws ! k) j \<or>
    (L < k \<or> L = k \<and> l \<le> j) \<and> (k < U \<or> k = U \<and> j \<le> u)"
proof (cases "L = U")
  case True
  then show ?thesis using assms bit_lower_mask[OF assms(3), of l] bit_upper_mask[OF assms(6,3)]
    by (auto simp: range_words_def nth_list_update bit_or_iff bit_and_iff)
next
  case False
  have "bit (ws[L := ws ! L OR v] ! i) j \<longleftrightarrow> bit (ws ! i) j \<or> i = L \<and> bit v j" if "i < length ws" for i v
    using that assms(1,2) by (auto simp: nth_list_update bit_or_iff)
  then show ?thesis using False assms bit_lower_mask[OF assms(3), of l] bit_upper_mask[OF assms(6,3)]
    by (auto simp: range_words_def Let_def nth_list_update nth_fill_words bit_or_iff bit_not_iff)
qed

lemma in_range_words:
  assumes "l \<le> u" "u div 64 < length ws"
  shows "in_words (range_words l u ws) m \<longleftrightarrow> in_words ws m \<or> (l \<le> m \<and> m \<le> u)"
proof -
  have lu: "l div 64 \<le> u div 64" using assms(1) by (rule div_le_mono)
  have len: "length (range_words l u ws) = length ws" by (simp add: range_words_def Let_def)
  show ?thesis
  proof (cases "m div 64 < length ws")
    case True
    have "bit (range_words l u ws ! (m div 64)) (m mod 64) \<longleftrightarrow> bit (ws ! (m div 64)) (m mod 64) \<or> l \<le> m \<and> m \<le> u"
      using bit_range_words[OF lu assms(2) _ True, of "m mod 64" "l mod 64" "u mod 64"]
      by (simp add: le_by_words[of l m] le_by_words[of m u])
    then show ?thesis using True len by (simp add: in_words_def)
  next
    case False
    then have "\<not> m \<le> u" using assms(2) div_le_mono[of m u 64] by auto
    then show ?thesis using False len by (simp add: in_words_def)
  qed
qed

lemma add_range_refines:
  assumes "bms_is_valid_set a" "l \<le> u"
  obtains c where "bms_add_range a (int l) (int u) = Inr c" "bms_is_valid_set c"
    "bms_members c = bms_members a \<union> {l..u}"
proof -
  define ws where "ws = (case a of None \<Rightarrow> [] | Some ws \<Rightarrow> ws)"
  define c where "c = range_words l u (enlarge_words (u div 64) ws)"
  have ws: "ws \<noteq> [] \<Longrightarrow> last ws \<noteq> 0" "bms_members a = {n. in_words ws n}"
    using assms(1) by (auto simp: ws_def in_words_def split: option.splits)
  have mem: "in_words c m \<longleftrightarrow> in_words ws m \<or> (l \<le> m \<and> m \<le> u)" for m
    unfolding c_def by (subst in_range_words) (auto simp: assms(2))
  have len: "length c = max (length ws) (u div 64 + 1)" by (simp add: c_def range_words_def Let_def)
  have "c \<noteq> [] \<and> last c \<noteq> 0"
  proof (cases "length ws \<le> u div 64")
    case True
    then have "length c = u div 64 + 1" using len by simp
    moreover have "bit (c ! (u div 64)) (u mod 64)" using mem[of u] assms(2) by (simp add: in_words_def)
    moreover have "c \<noteq> []" using \<open>length c = u div 64 + 1\<close> by auto
    ultimately show ?thesis by (auto simp: last_conv_nth)
  next
    case False
    then have "length c = length ws" "ws \<noteq> []" using len by auto
    moreover obtain n where "in_words ws n" "n div 64 = length ws - 1"
      using in_words_last ws(1) \<open>ws \<noteq> []\<close> by blast
    moreover have "in_words c n" using mem \<open>in_words ws n\<close> by simp
    moreover have "c \<noteq> []" using \<open>length c = length ws\<close> \<open>ws \<noteq> []\<close> by auto
    ultimately show ?thesis by (auto simp: last_conv_nth in_words_def)
  qed
  moreover have "bms_add_range a (int l) (int u) = Inr (Some c)"
    using add_range_words[OF assms(2)] by (simp add: c_def ws_def)
  moreover have "bms_members (Some c) = bms_members a \<union> {l..u}" using mem ws(2) by auto
  ultimately show thesis using that[of "Some c"] by simp
qed

end
