(* ===== verification/BitmapsetQuery.thy ===== *)
theory BitmapsetQuery
  imports Bitmapset
begin

text \<open>
  What the queries and the iteration functions of the bitmap sets compute: the bit scans of a word,
  the counts, the next and previous member, and the order of the comparison function.
\<close>

section \<open>Bit scans and counts\<close>

lemma rightmost_one_pos:
  assumes "w \<noteq> 0"
  shows "pg_rightmost_one_pos64 w < 64" "bit w (pg_rightmost_one_pos64 w)"
    "j < pg_rightmost_one_pos64 w \<Longrightarrow> \<not> bit w j"
proof -
  let ?p = "pg_rightmost_one_pos64 w"
  obtain i where "i < 64" "bit w i" using assms word64_nonzero by blast
  then have "takeWhile (\<lambda>i. \<not> bit w i) [0..<64] \<noteq> [0..<64]" by (auto simp: takeWhile_eq_all_conv)
  then show lt: "?p < 64"
    unfolding pg_rightmost_one_pos64_def
    by (metis diff_zero length_takeWhile_le length_upt nat_less_le takeWhile_eq_take take_all_iff linorder_not_less)
  then show "bit w ?p"
    using nth_length_takeWhile[of "\<lambda>i. \<not> bit w i" "[0..<64]"] by (simp add: pg_rightmost_one_pos64_def)
  show "\<not> bit w j" if "j < ?p"
    using that lt nth_mem[of j "takeWhile (\<lambda>i. \<not> bit w i) [0..<64]"] takeWhile_nth[of j "\<lambda>i. \<not> bit w i" "[0..<64]"]
    by (auto simp: pg_rightmost_one_pos64_def dest: set_takeWhileD)
qed

lemma leftmost_one_pos:
  assumes "w \<noteq> 0"
  shows "pg_leftmost_one_pos64 w < 64" "bit w (pg_leftmost_one_pos64 w)"
    "pg_leftmost_one_pos64 w < j \<Longrightarrow> \<not> bit w j"
proof -
  let ?n = "length (takeWhile (\<lambda>i. \<not> bit w i) (rev [0..<64]))"
  obtain i where i: "i < 64" "bit w i" using assms word64_nonzero by blast
  then have "takeWhile (\<lambda>i. \<not> bit w i) (rev [0..<64]) \<noteq> rev [0..<64]" by (auto simp: takeWhile_eq_all_conv)
  then have lt: "?n < 64"
    by (metis diff_zero length_rev length_takeWhile_le length_upt nat_less_le takeWhile_eq_take take_all_iff linorder_not_less)
  show "pg_leftmost_one_pos64 w < 64" by (simp add: pg_leftmost_one_pos64_def)
  show "bit w (pg_leftmost_one_pos64 w)"
    using nth_length_takeWhile[of "\<lambda>i. \<not> bit w i" "rev [0..<64]"] lt by (simp add: pg_leftmost_one_pos64_def rev_nth)
  show "\<not> bit w j" if "pg_leftmost_one_pos64 w < j"
  proof (cases "j < 64")
    case True
    then have "63 - j < ?n" using that by (auto simp: pg_leftmost_one_pos64_def)
    then have "\<not> bit w (rev [0..<64] ! (63 - j))"
      using nth_mem[of "63 - j" "takeWhile (\<lambda>i. \<not> bit w i) (rev [0..<64])"] takeWhile_nth[of "63 - j" "\<lambda>i. \<not> bit w i" "rev [0..<64]"]
      by (auto dest: set_takeWhileD)
    then show ?thesis using True by (simp add: rev_nth)
  next
    case False
    then show ?thesis using bit_imp_le_length[of w j] by auto
  qed
qed

lemma popcount_card: "pg_popcount64 w = card {j. j < 64 \<and> bit w j}"
proof -
  have "pg_popcount64 w = card ({j. bit w j} \<inter> set [0..<64])"
    unfolding pg_popcount64_def by (rule distinct_length_filter) simp
  also have "{j. bit w j} \<inter> set [0..<64] = {j. j < 64 \<and> bit w j}" by auto
  finally show ?thesis .
qed

lemma odd_and_minus: "bit (v :: bitmapword) 0 \<Longrightarrow> v AND (- v) = 1"
proof -
  assume v0: "bit v 0"
  have "v - 1 = v AND NOT 1" by (rule disjunctive_diff) (use v0 in \<open>auto simp: bit_1_iff\<close>)
  then have eq: "- v = NOT (v AND NOT 1)" using minus_eq_not_minus_1[of v] by (simp only:)
  show ?thesis unfolding eq
    by (rule bit_word_eqI) (use v0 in \<open>auto simp only: bit_and_iff bit_not_iff bit_1_iff possible_bit_0\<close>)
qed

lemma shifted_and_minus: "bit (v :: bitmapword) 0 \<Longrightarrow> push_bit p v AND (- push_bit p v) = push_bit p 1"
proof -
  assume v0: "bit v 0"
  have "- push_bit p v = push_bit p (- v)" by (simp add: push_bit_eq_mult)
  then have "push_bit p v AND (- push_bit p v) = push_bit p (v AND (- v))" by (simp only: push_bit_and)
  then show ?thesis using odd_and_minus[OF v0] by (simp only:)
qed

lemma push_drop_bit:
  assumes "\<And>j. j < p \<Longrightarrow> \<not> bit (w :: bitmapword) j"
  shows "push_bit p (drop_bit p w) = w"
proof (rule bit_word_eqI)
  fix n show "bit (push_bit p (drop_bit p w)) n = bit w n" if "n < LENGTH(64)"
    using that assms[of n] by (cases "p \<le> n") (auto simp: bit_push_bit_iff bit_drop_bit_eq)
qed

lemma RIGHTMOST_ONE_eq:
  assumes "w \<noteq> 0"
  shows "RIGHTMOST_ONE w = push_bit (pg_rightmost_one_pos64 w) 1"
proof -
  obtain p where p: "p = pg_rightmost_one_pos64 w" by simp
  have "push_bit p (drop_bit p w) = w" using push_drop_bit rightmost_one_pos(3)[OF assms] p by blast
  moreover have "bit (drop_bit p w) 0" using rightmost_one_pos(2)[OF assms] p by (simp add: bit_drop_bit_eq)
  ultimately have "w AND (- w) = push_bit p 1" using shifted_and_minus[of "drop_bit p w" p] by (simp only:)
  then show ?thesis unfolding RIGHTMOST_ONE_def p .
qed

lemma HAS_MULTIPLE_ONES_iff: "w \<noteq> 0 \<Longrightarrow> HAS_MULTIPLE_ONES w \<longleftrightarrow> (\<exists>j < 64. j \<noteq> pg_rightmost_one_pos64 w \<and> bit w j)"
proof -
  assume w: "w \<noteq> 0"
  have "HAS_MULTIPLE_ONES w \<longleftrightarrow> \<not> (\<forall>j < 64. bit w j = bit (push_bit (pg_rightmost_one_pos64 w) (1 :: bitmapword)) j)"
    unfolding HAS_MULTIPLE_ONES_def RIGHTMOST_ONE_eq[OF w] using word64_eqI by metis
  then show ?thesis using rightmost_one_pos[OF w] by (auto simp: bit_push_one)
qed

section \<open>Queries\<close>

lemma words_equal_iff: "length v = length w \<Longrightarrow> words_equal v w \<longleftrightarrow> v = w"
  by (induction v w rule: words_equal.induct) auto

lemma bms_equal_eq: "bms_equal a b \<longleftrightarrow> a = b"
  by (cases a; cases b) (auto simp: bms_equal_def words_equal_iff)

lemma bms_is_subset_iff:
  "bms_is_valid_set a \<Longrightarrow> bms_is_valid_set b \<Longrightarrow> bms_is_subset a b \<longleftrightarrow> bms_members a \<subseteq> bms_members b"
proof -
  have "bms_is_subset a b = (\<not> bms_nonempty_difference a b)"
    by (cases a; cases b) (auto simp: bms_is_subset_def bms_nonempty_difference_def)
  then show "bms_is_valid_set a \<Longrightarrow> bms_is_valid_set b \<Longrightarrow> ?thesis" by (simp add: nonempty_difference_iff)
qed

lemma bit_test: "j < 64 \<Longrightarrow> (w AND push_bit j 1) \<noteq> (0 :: bitmapword) \<longleftrightarrow> bit w j"
  by (auto simp: word64_nonzero bit_and_iff bit_push_one)

lemma bms_is_member_iff: "bms_is_member (int n) a = Inr (n \<in> bms_members a)"
  using bit_test[of "n mod 64"] by (cases a) (auto simp: bms_is_member_def bms_nums in_words_def Let_def)

lemma words_overlap_iff: "words_overlap v w \<longleftrightarrow> (\<exists>n. in_words v n \<and> in_words w n)"
proof -
  have "words_overlap v w \<longleftrightarrow> (\<exists>i < length v. i < length w \<and> (v ! i AND w ! i) \<noteq> 0)"
    by (induction v w rule: words_overlap.induct) (auto simp: less_Suc_eq_0_disj)
  also have "\<dots> \<longleftrightarrow> (\<exists>i j. j < 64 \<and> in_words v (i * 64 + j) \<and> in_words w (i * 64 + j))"
    unfolding word64_nonzero by (simp add: bit_and_iff in_words_at cong: conj_cong) blast
  also have "\<dots> \<longleftrightarrow> (\<exists>n. in_words v n \<and> in_words w n)"
    by (metis div_mult_mod_eq mod_less_divisor zero_less_numeral)
  finally show ?thesis .
qed

lemma bms_overlap_iff: "bms_overlap a b \<longleftrightarrow> bms_members a \<inter> bms_members b \<noteq> {}"
  by (cases a; cases b) (auto simp: bms_overlap_def words_overlap_iff)

lemma in_words_Cons: "in_words (w # ws) n \<longleftrightarrow> (if n < 64 then bit w n else in_words ws (n - 64))"
  by (cases "n < 64") (simp_all add: in_words_def le_div_geq le_mod_geq not_less)

lemma members_Cons: "{n. in_words (w # ws) n} = {j. j < 64 \<and> bit w j} \<union> (+) 64 ` {n. in_words ws n}"
proof (rule set_eqI)
  fix n show "n \<in> {n. in_words (w # ws) n} \<longleftrightarrow> n \<in> {j. j < 64 \<and> bit w j} \<union> (+) 64 ` {n. in_words ws n}"
    by (cases "n < 64") (auto simp: in_words_Cons image_iff intro: exI[of _ "n - 64"])
qed

lemma finite_in_words [simp]: "finite {n. in_words ws n}"
  using finite_bms_members[of "Some ws"] by simp

lemma count_words_card: "count_words ws = card {n. in_words ws n}"
proof (induction ws)
  case (Cons w ws)
  have "card {n. in_words (w # ws) n} = card {j. j < 64 \<and> bit w j} + card ((+) 64 ` {n. in_words ws n})"
    unfolding members_Cons by (rule card_Un_disjoint) auto
  also have "card ((+) 64 ` {n. in_words ws n}) = card {n. in_words ws n}" by (simp add: card_image)
  finally show ?case using Cons by (simp add: popcount_card)
qed (simp add: in_words_def)

lemma num_members_card: "bms_num_members a = card (bms_members a)"
  by (cases a) (simp_all add: bms_num_members_def count_words_card)

lemma count_words_append: "count_words (v @ w) = count_words v + count_words w"
  by (induction v) auto

lemma member_index_card:
  assumes "n \<in> bms_members a"
  shows "bms_member_index a (int n) = Inr (int (card {m \<in> bms_members a. m < n}))"
proof -
  obtain ws where a: "a = Some ws" and n: "in_words ws n" using assms by (cases a) auto
  let ?i = "n div 64" and ?m = "push_bit (n mod 64) 1 - 1 :: bitmapword"
  let ?vs = "take ?i ws @ [ws ! ?i AND ?m]"
  have i: "?i < length ws" using n by (simp add: in_words_def)
  have "in_words ?vs m \<longleftrightarrow> in_words ws m \<and> m < n" for m
    using i le_by_words[of n m] by (auto simp: in_words_def nth_append bit_and_iff mask_eq_exp_minus_1[symmetric]
        bit_mask_iff not_le[symmetric] simp del: not_le split: if_splits)
  then have "card {m \<in> bms_members a. m < n} = count_words ?vs" by (simp add: a count_words_card)
  also have "\<dots> = count_words (take ?i ws) + pg_popcount64 (ws ! ?i AND ?m)"
    by (auto simp: count_words_append pg_popcount64_def)
  finally show ?thesis using assms by (simp add: bms_member_index_def bms_is_member_iff a bms_nums Let_def)
qed

lemma member_index_absent: "n \<notin> bms_members a \<Longrightarrow> bms_member_index a (int n) = Inr (-1)"
  by (simp add: bms_member_index_def bms_is_member_iff)

lemma overlap_list_iff:
  "\<forall>x \<in> set xs. 0 \<le> x \<Longrightarrow> bms_overlap_list a xs = Inr (\<exists>x \<in> set xs. nat x \<in> bms_members a)"
proof (cases a)
  case (Some ws)
  assume "\<forall>x \<in> set xs. 0 \<le> x"
  then have "overlap_list_loop ws xs = Inr (\<exists>x \<in> set xs. in_words ws (nat x))"
  proof (induction xs)
    case (Cons x xs)
    then show ?case using bit_test[of "nat x mod 64" "ws ! (nat x div 64)"]
      by (auto simp: bms_nums in_words_def)
  qed simp
  then show ?thesis by (simp add: Some bms_overlap_list_def)
qed (simp add: bms_overlap_list_def)

lemma Min_offset: "finite A \<Longrightarrow> A \<noteq> {} \<Longrightarrow> Min ((+) k ` A) = k + Min (A :: nat set)"
  by (rule hom_Min_commute[symmetric]) (auto simp: min_def)

lemma some_member_count: "(\<exists>n. in_words ws n) \<longleftrightarrow> count_words ws \<noteq> 0"
  by (simp add: count_words_card)

lemma popcount_zero: "pg_popcount64 w = 0 \<longleftrightarrow> w = 0"
  using word64_nonzero[of w] by (auto simp: popcount_card)

lemma Min_words_zero: "count_words ws \<noteq> 0 \<Longrightarrow> Min {n. in_words (0 # ws) n} = 64 + Min {n. in_words ws n}"
  using Min_offset[of "{n. in_words ws n}" 64] by (simp add: members_Cons count_words_card)

lemma Min_words_nonzero: "w \<noteq> 0 \<Longrightarrow> Min {n. in_words (w # ws) n} = pg_rightmost_one_pos64 w"
proof (rule Min_eqI)
  assume w: "w \<noteq> 0"
  show "pg_rightmost_one_pos64 w \<in> {n. in_words (w # ws) n}"
    using rightmost_one_pos[OF w] by (simp add: in_words_Cons)
  show "pg_rightmost_one_pos64 w \<le> n" if "n \<in> {n. in_words (w # ws) n}" for n
    using that rightmost_one_pos[OF w] by (cases "n < 64") (force simp: in_words_Cons not_less)+
qed simp

lemma card_one_iff: "p \<in> B \<Longrightarrow> card B = 1 \<longleftrightarrow> (\<forall>x \<in> B. x = p)"
  by (metis card_1_singletonE is_singletonI' is_singleton_altdef singletonD empty_iff)

lemma HAS_MULTIPLE_ONES_count: "w \<noteq> 0 \<Longrightarrow> HAS_MULTIPLE_ONES w \<longleftrightarrow> pg_popcount64 w \<noteq> 1"
proof -
  assume w: "w \<noteq> 0"
  have "pg_rightmost_one_pos64 w \<in> {j. j < 64 \<and> bit w j}" using rightmost_one_pos[OF w] by simp
  from card_one_iff[OF this] show ?thesis
    unfolding popcount_card HAS_MULTIPLE_ONES_iff[OF w] by blast
qed

lemma singleton_loop_found: "r \<ge> 0 \<Longrightarrow> singleton_loop i r ws = (if count_words ws \<noteq> 0 then None else Some r)"
  by (induction ws arbitrary: i) (auto simp: popcount_zero)

lemma singleton_loop_count: "singleton_loop i (-1) ws =
    (if count_words ws = 0 then Some (-1) else if count_words ws = 1 then Some (int (i * 64 + Min {n. in_words ws n})) else None)"
proof (induction ws arbitrary: i)
  case (Cons w ws)
  show ?case
  proof (cases "w = 0")
    case True
    then show ?thesis using Cons by (simp add: Min_words_zero)
  next
    case False
    then have "pg_popcount64 w \<noteq> 0" by (simp add: popcount_zero)
    then show ?thesis using False HAS_MULTIPLE_ONES_count[OF False] Min_words_nonzero[OF False, of ws]
      by (auto simp: singleton_loop_found bms_nums)
  qed
qed simp

lemma membership_found: "membership_loop BMS_SINGLETON ws = (if count_words ws \<noteq> 0 then BMS_MULTIPLE else BMS_SINGLETON)"
  by (induction ws) (auto simp: popcount_zero)

lemma membership_count: "membership_loop BMS_EMPTY_SET ws =
    (if count_words ws = 0 then BMS_EMPTY_SET else if count_words ws = 1 then BMS_SINGLETON else BMS_MULTIPLE)"
proof (induction ws)
  case (Cons w ws)
  show ?case
  proof (cases "w = 0")
    case False
    then have "pg_popcount64 w \<noteq> 0" by (simp add: popcount_zero)
    then show ?thesis using False HAS_MULTIPLE_ONES_count[OF False] by (auto simp: membership_found)
  qed (use Cons in simp)
qed simp

section \<open>Iteration\<close>

lemma next_member_loop_Min: "next_member_loop i (NOT 0) ws =
    (if count_words ws \<noteq> 0 then int (i * 64 + Min {n. in_words ws n}) else -2)"
proof (induction ws arbitrary: i)
  case (Cons w ws)
  show ?case
  proof (cases "w = 0")
    case True
    then show ?thesis using Cons by (simp add: Min_words_zero)
  next
    case False
    then show ?thesis using Min_words_nonzero[OF False] by (simp add: popcount_zero bms_nums)
  qed
qed simp

lemma in_words_drop: "in_words (drop k ws) n = in_words ws (k * 64 + n)"
  by (auto simp: in_words_def)

lemma next_member_Min:
  "bms_next_member a (int p - 1) =
    (let above = {n \<in> bms_members a. p \<le> n} in if above = {} then -2 else int (Min above))"
proof (cases a)
  case (Some ws)
  let ?i = "p div 64"
  show ?thesis
  proof (cases "?i < length ws")
    case True
    define m :: bitmapword where "m = push_bit (p mod 64) (NOT 0)"
    define us where "us = (ws ! ?i AND m) # drop (?i + 1) ws"
    have m: "bit m j \<longleftrightarrow> p mod 64 \<le> j" if "j < 64" for j
      using that by (auto simp: m_def bit_push_bit_iff bit_not_iff bit_mask_iff)
    have us: "in_words us k \<longleftrightarrow> in_words ws (?i * 64 + k) \<and> p \<le> ?i * 64 + k" for k
    proof (cases "k < 64")
      case True
      then show ?thesis using m[OF True] \<open>?i < length ws\<close> le_by_words[of p "?i * 64 + k"]
        by (auto simp: us_def in_words_Cons in_words_at bit_and_iff)
    next
      case False
      then obtain k' where k: "k = 64 + k'" by (metis le_Suc_ex not_less)
      have "in_words (drop (?i + 1) ws) k' = in_words ws (?i * 64 + k)"
        unfolding in_words_drop k by (rule arg_cong) simp
      moreover have "p \<le> ?i * 64 + k" using div_mult_mod_eq[of p 64] mod_less_divisor[of 64 p] k by linarith
      ultimately show ?thesis by (simp add: us_def in_words_Cons k)
    qed
    have above: "{n \<in> bms_members a. p \<le> n} = (+) (?i * 64) ` {k. in_words us k}"
    proof (intro set_eqI iffI)
      fix n assume n: "n \<in> {n \<in> bms_members a. p \<le> n}"
      then have "?i * 64 \<le> n" using le_by_words[of "?i * 64" n] le_by_words[of p n] by auto
      then have "n = ?i * 64 + (n - ?i * 64)" by simp
      then show "n \<in> (+) (?i * 64) ` {k. in_words us k}" using n us[of "n - ?i * 64"] by (auto simp: Some)
    qed (use us in \<open>auto simp: Some\<close>)
    have "bms_next_member a (int p - 1) = next_member_loop ?i (NOT 0) us"
      using True by (simp add: Some bms_next_member_def bms_nums us_def m_def Let_def Cons_nth_drop_Suc[symmetric])
    then show ?thesis unfolding next_member_loop_Min above by (simp add: Let_def count_words_card Min_offset)
  next
    case False
    then have "{n \<in> bms_members a. p \<le> n} = {}" using div_le_mono[of p _ 64]
      by (auto simp: Some in_words_def)
    then show ?thesis using False by (simp add: Some bms_next_member_def bms_nums)
  qed
qed (simp add: bms_next_member_def)

lemma iterate_members_sorted:
  assumes "card {n \<in> bms_members a. p \<le> n} < k"
  shows "iterate_members k a (int p - 1) = Some (map int (sorted_list_of_set {n \<in> bms_members a. p \<le> n}))"
  using assms
proof (induction k arbitrary: p)
  case (Suc k)
  let ?A = "{n \<in> bms_members a. p \<le> n}"
  show ?case
  proof (cases "?A = {}")
    case True
    then show ?thesis by (simp add: next_member_Min)
  next
    case False
    define m where "m = Min ?A"
    have m: "m \<in> ?A" using Min_in[OF _ False] by (simp add: m_def)
    have rest: "?A - {m} = {n \<in> bms_members a. m + 1 \<le> n}"
      using Min_le[of ?A] m by (fastforce simp: m_def[symmetric])
    have "sorted_list_of_set ?A = m # sorted_list_of_set {n \<in> bms_members a. m + 1 \<le> n}"
      using sorted_list_of_set_nonempty[of ?A] False rest by (simp add: m_def)
    moreover have "card {n \<in> bms_members a. m + 1 \<le> n} < k"
      using Suc.prems card_Diff1_less[OF _ m] unfolding rest by simp
    ultimately show ?thesis using Suc.IH[of "m + 1"] False by (simp add: next_member_Min m_def[symmetric])
  qed
qed simp


lemma sorted_nth_below:
  assumes "finite A" "k < card A"
  shows "card {m \<in> A. m < sorted_list_of_set A ! k} = (k :: nat)"
proof -
  define xs where "xs = sorted_list_of_set A"
  have xs: "set xs = A" "sorted_wrt (<) xs" "distinct xs" "length xs = card A"
    using assms(1) by (simp_all add: xs_def)
  have "{m \<in> A. m < xs ! k} = set (take k xs)"
  proof (intro set_eqI iffI)
    fix m assume "m \<in> {m \<in> A. m < xs ! k}"
    then obtain i where i: "i < length xs" "m = xs ! i" "xs ! i < xs ! k" using xs(1) by (auto simp: in_set_conv_nth)
    have "i < k"
    proof (rule ccontr)
      assume "\<not> i < k"
      then have "xs ! k \<le> xs ! i" using sorted_wrt_nth_less[OF xs(2), of k i] i(1) by (cases "i = k") auto
      then show False using i(3) by simp
    qed
    then show "m \<in> set (take k xs)" using i by (auto simp: in_set_conv_nth)
  next
    fix m assume "m \<in> set (take k xs)"
    then obtain i where "i < k" "m = xs ! i" using assms(2) xs(4) by (auto simp: in_set_conv_nth)
    then show "m \<in> {m \<in> A. m < xs ! k}" using sorted_wrt_nth_less[OF xs(2), of i k] assms(2) xs(1,4) by auto
  qed
  then show ?thesis using xs(3,4) assms(2) by (simp add: distinct_card xs_def)
qed

lemma prev_member_loop_append: "n \<le> length us \<Longrightarrow> prev_member_loop n m (us @ vs) = prev_member_loop n m us"
  by (induction n arbitrary: m) (simp_all add: Let_def nth_append)

lemma in_words_snoc: "in_words (ws @ [w]) n \<longleftrightarrow>
    in_words ws n \<or> (n div 64 = length ws \<and> bit w (n mod 64))"
  by (auto simp: in_words_def nth_append)

lemma Max_words_snoc: "w \<noteq> 0 \<Longrightarrow> Max {n. in_words (ws @ [w]) n} = length ws * 64 + pg_leftmost_one_pos64 w"
proof (rule Max_eqI)
  assume w: "w \<noteq> 0"
  let ?t = "length ws * 64 + pg_leftmost_one_pos64 w"
  have t: "?t div 64 = length ws" "?t mod 64 = pg_leftmost_one_pos64 w" using leftmost_one_pos(1)[OF w] by auto
  then show "?t \<in> {n. in_words (ws @ [w]) n}" using leftmost_one_pos(2)[OF w] by (simp add: in_words_snoc)
  show "n \<le> ?t" if "n \<in> {n. in_words (ws @ [w]) n}" for n
  proof -
    have "n div 64 < length ws \<or> (n div 64 = length ws \<and> n mod 64 \<le> pg_leftmost_one_pos64 w)"
      using that leftmost_one_pos(3)[OF w, of "n mod 64"] unfolding mem_Collect_eq in_words_snoc
      by (auto simp: in_words_def not_le[symmetric])
    then show ?thesis unfolding le_by_words[of n ?t] t .
  qed
qed simp

lemma prev_member_loop_Max: "prev_member_loop (length ws) (NOT 0) ws =
    Some (if \<exists>n. in_words ws n then int (Max {n. in_words ws n}) else -2)"
proof (induction ws rule: rev_induct)
  case (snoc w ws)
  show ?case
  proof (cases "w = 0")
    case True
    have "in_words (ws @ [0]) = in_words ws" by (rule ext) simp
    then show ?thesis using snoc True by (simp add: prev_member_loop_append)
  next
    case False
    have "\<exists>n. in_words (ws @ [w]) n"
      using leftmost_one_pos[OF False] in_words_at[of "pg_leftmost_one_pos64 w" "ws @ [w]" "length ws"] by auto
    then show ?thesis using False Max_words_snoc[OF False, of ws] by (simp add: bms_nums)
  qed
qed (simp add: in_words_def)

lemma prev_member_below:
  assumes "p div 64 < length ws"
  shows "prev_member_loop (p div 64 + 1) (drop_bit (64 - (p mod 64 + 1)) (NOT 0)) ws =
    Some (let below = {n. in_words ws n \<and> n \<le> p} in if below = {} then -2 else int (Max below))"
proof -
  let ?i = "p div 64"
  define m :: bitmapword where "m = drop_bit (64 - (p mod 64 + 1)) (NOT 0)"
  define us where "us = take ?i ws @ [ws ! ?i AND m]"
  have len: "length us = ?i + 1" using assms by (simp add: us_def)
  have "in_words us n \<longleftrightarrow> in_words ws n \<and> n \<le> p" for n
    using bit_upper_mask[of "p mod 64" "n mod 64"] assms le_by_words[of n p]
    unfolding us_def m_def[symmetric] in_words_snoc by (auto simp: in_words_def bit_and_iff)
  then have S: "{n. in_words us n} = {n. in_words ws n \<and> n \<le> p}"
    "(\<exists>n. in_words us n) \<longleftrightarrow> {n. in_words ws n \<and> n \<le> p} \<noteq> {}" by auto
  have "prev_member_loop (?i + 1) m ws = prev_member_loop (?i + 1) (NOT 0) us"
    using assms prev_member_loop_append[of ?i "take ?i ws" "NOT 0" "drop ?i ws"]
      prev_member_loop_append[of ?i "take ?i ws" "NOT 0" "[ws ! ?i AND m]"]
    by (cases "ws ! ?i AND m = 0") (simp_all add: us_def nth_append Let_def)
  also have "\<dots> = Some (if {n. in_words ws n \<and> n \<le> p} \<noteq> {} then int (Max {n. in_words ws n \<and> n \<le> p}) else -2)"
    using prev_member_loop_Max[of us] unfolding len S .
  finally show ?thesis unfolding m_def[symmetric] Let_def by simp
qed

lemma prev_member_Max:
  assumes "p < length ws * 64"
  shows "bms_prev_member (Some ws) (int p + 1) =
    Some (let below = {n \<in> bms_members (Some ws). n \<le> p} in if below = {} then -2 else int (Max below))"
  using prev_member_below[of p ws] assms by (simp add: bms_prev_member_def bms_nums div_less_iff_less_mult)

lemma prev_member_last:
  assumes "ws \<noteq> []"
  shows "bms_prev_member (Some ws) (-1) = Some (if bms_members (Some ws) = {} then -2 else int (Max (bms_members (Some ws))))"
proof -
  obtain k where k: "length ws = Suc k" using assms by (cases ws) auto
  define p where "p = length ws * 64 - 1"
  have p: "p = k * 64 + 63" "p div 64 = k" by (simp_all add: p_def k)
  have "n \<le> p" if "n div 64 < Suc k" for n using that unfolding p(1) by linarith
  then have "{n. in_words ws n \<and> n \<le> p} = {n. in_words ws n}" unfolding in_words_def k by blast
  moreover have "bms_prev_member (Some ws) (-1) =
      prev_member_loop (p div 64 + 1) (drop_bit (64 - (p mod 64 + 1)) (NOT 0)) ws"
    by (simp only: p_def bms_prev_member_def option.case bms_nums Let_def neg_equal_0_iff_equal one_neq_zero if_False if_True refl)
  ultimately show ?thesis using prev_member_below[of p ws] by (simp only: k p(2) lessI Let_def bms_members_simps)
qed

section \<open>Comparison\<close>

text \<open>The order of the comparison function: the greatest number in one set only decides.\<close>

definition dominates :: "nat set \<Rightarrow> nat set \<Rightarrow> bool" where
  "dominates A B \<longleftrightarrow> (\<exists>m \<in> A - B. \<forall>n > m. n \<in> A \<longleftrightarrow> n \<in> B)"

lemma dominates_asym: "dominates A B \<Longrightarrow> \<not> dominates B A"
  unfolding dominates_def by (metis DiffE linorder_neqE_nat)

lemma dominates_irrefl [simp]: "\<not> dominates A A"
  by (simp add: dominates_def)

lemma dominates_total:
  assumes "finite A" "finite B" "A \<noteq> B"
  shows "dominates A B \<or> dominates B A"
proof -
  let ?D = "(A - B) \<union> (B - A)"
  have D: "finite ?D" "?D \<noteq> {}" using assms by auto
  have "\<forall>n > Max ?D. n \<in> A \<longleftrightarrow> n \<in> B" using Max_ge[OF D(1)] by (metis DiffI UnI1 UnI2 leD)
  then show ?thesis using Max_in[OF D] unfolding dominates_def by blast
qed

lemma dominates_trans:
  assumes "dominates A B" "dominates B C"
  shows "dominates A C"
proof -
  obtain m where m: "m \<in> A" "m \<notin> B" "\<forall>n > m. n \<in> A \<longleftrightarrow> n \<in> B" using assms(1) by (auto simp: dominates_def)
  obtain k where k: "k \<in> B" "k \<notin> C" "\<forall>n > k. n \<in> B \<longleftrightarrow> n \<in> C" using assms(2) by (auto simp: dominates_def)
  have "m \<noteq> k" using m k by auto
  then have "max m k \<in> A - C" using m k by (auto simp: max_def)
  moreover have "\<forall>n > max m k. n \<in> A \<longleftrightarrow> n \<in> C" using m(3) k(3) by auto
  ultimately show ?thesis unfolding dominates_def by blast
qed

lemma dominates_Un: "A \<inter> T = {} \<Longrightarrow> B \<inter> T = {} \<Longrightarrow> dominates (A \<union> T) (B \<union> T) = dominates A B"
  unfolding dominates_def by (intro iffI; elim bexE; intro bexI[rotated]; blast)

lemma uint_split: "uint w = 2 ^ Suc j * drop_bit (Suc j) (uint w) + (2 ^ j * of_bool (bit w j) + take_bit j (uint w))"
proof -
  have "bit (uint w) j = bit w j" by (auto simp: bit_uint_iff bit_imp_le_length)
  then show ?thesis using bits_ident[of "Suc j" "uint w"]
    unfolding take_bit_Suc_from_most push_bit_eq_mult by (simp only: mult.commute)
qed

lemma word_less_bits:
  fixes v w :: bitmapword
  assumes "bit w j" "\<not> bit v j" "\<And>k. j < k \<Longrightarrow> bit v k = bit w k"
  shows "v < w"
proof -
  have hi: "drop_bit (Suc j) (uint v) = drop_bit (Suc j) (uint w)"
    by (rule bit_eqI) (simp add: bit_drop_bit_eq bit_uint_iff assms(3))
  have "take_bit j (uint v) < 2 ^ j" "0 \<le> take_bit j (uint w)" by simp_all
  moreover have "uint w = 2 ^ Suc j * drop_bit (Suc j) (uint w) + (2 ^ j + take_bit j (uint w))"
    using uint_split[of w j] assms(1) by simp
  moreover have "uint v = 2 ^ Suc j * drop_bit (Suc j) (uint w) + take_bit j (uint v)"
    using uint_split[of v j] assms(2) unfolding hi by simp
  ultimately have "uint v < uint w" by linarith
  then show ?thesis by (simp add: word_less_def)
qed

lemma word_less_highest:
  fixes v w :: bitmapword
  assumes "v < w"
  shows "\<exists>j < 64. bit w j \<and> \<not> bit v j \<and> (\<forall>k > j. bit v k = bit w k)"
proof -
  let ?D = "{j. j < 64 \<and> bit v j \<noteq> bit w j}"
  have D: "finite ?D" "?D \<noteq> {}" using assms word64_eqI[of v w] by auto
  define j where "j = Max ?D"
  have j: "j < 64" "bit v j \<noteq> bit w j" using Max_in[OF D] by (auto simp: j_def)
  have hi: "bit v k = bit w k" if "k > j" for k
  proof (rule ccontr)
    assume ne: "bit v k \<noteq> bit w k"
    then have "k < 64" using bit_imp_le_length[of v k] bit_imp_le_length[of w k] by auto
    then have "k \<le> j" unfolding j_def using ne by (intro Max_ge[OF D(1)]) simp
    then show False using that by simp
  qed
  have "\<not> bit v j"
  proof
    assume "bit v j"
    then have "w < v" using word_less_bits[of v j w] j(2) hi by auto
    then show False using assms by simp
  qed
  then show ?thesis using j hi by auto
qed

lemma dominates_snoc:
  assumes "length v = length w" "(b :: bitmapword) < a"
  shows "dominates {n. in_words (v @ [a]) n} {n. in_words (w @ [b]) n}"
proof -
  obtain j where j: "j < 64" "bit a j" "\<not> bit b j" "\<forall>k > j. bit b k = bit a k" using word_less_highest[OF assms(2)] by blast
  let ?m = "length v * 64 + j"
  have m: "?m div 64 = length v" "?m mod 64 = j" using j(1) by auto
  have "in_words (v @ [a]) ?m" "\<not> in_words (w @ [b]) ?m"
    unfolding in_words_snoc m using j m assms(1) by (simp_all add: in_words_def)
  moreover have "in_words (v @ [a]) n \<longleftrightarrow> in_words (w @ [b]) n" if "n > ?m" for n
  proof -
    have "length v < n div 64 \<or> n div 64 = length v \<and> j < n mod 64"
      using that le_by_words[of n ?m] unfolding m by (metis linorder_neqE_nat linorder_not_le)
    then show ?thesis unfolding in_words_snoc using j(4) assms(1) by (auto simp: in_words_def)
  qed
  ultimately show ?thesis unfolding dominates_def by blast
qed

lemma dominates_snoc_same:
  assumes "length v = length w"
  shows "dominates {n. in_words (v @ [a]) n} {n. in_words (w @ [a]) n} = dominates {n. in_words v n} {n. in_words w n}"
proof -
  let ?T = "{n. n div 64 = length v \<and> bit a (n mod 64)}"
  have "{n. in_words (v @ [a]) n} = {n. in_words v n} \<union> ?T" "{n. in_words (w @ [a]) n} = {n. in_words w n} \<union> ?T"
    using assms by (auto simp: in_words_snoc)
  moreover have "{n. in_words v n} \<inter> ?T = {}" "{n. in_words w n} \<inter> ?T = {}"
    using assms by (auto simp: in_words_def)
  ultimately show ?thesis using dominates_Un by presburger
qed

lemma compare_words_rev: "length v = length w \<Longrightarrow> compare_words (rev v) (rev w) =
    (if dominates {n. in_words v n} {n. in_words w n} then 1
     else if dominates {n. in_words w n} {n. in_words v n} then -1 else 0)"
proof (induction v arbitrary: w rule: rev_induct)
  case (snoc a v)
  then obtain u b where w: "w = u @ [b]" "length v = length u" by (cases w rule: rev_cases) auto
  consider "a = b" | "b < a" | "a < b" by force
  then show ?case
  proof cases
    case 1
    then show ?thesis using snoc.IH[OF w(2)] w dominates_snoc_same[of v u a] dominates_snoc_same[of u v a] by simp
  next
    case 2
    then show ?thesis using w dominates_snoc[OF w(2) 2] by auto
  next
    case 3
    then show ?thesis using w dominates_snoc[OF w(2)[symmetric] 3] dominates_asym by auto
  qed
qed simp

lemma dominates_longer:
  assumes "v \<noteq> []" "last v \<noteq> 0" "length w < length v"
  shows "dominates {n. in_words v n} {n. in_words w n}"
proof -
  obtain u a where v: "v = u @ [a]" "a \<noteq> 0" using assms by (cases v rule: rev_cases) auto
  define w' where "w' = w @ replicate (length u - length w) 0"
  have "{n. in_words w' n} = {n. in_words w n}" by (simp add: w'_def)
  then have "{n. in_words (w' @ [0]) n} = {n. in_words w n}" by simp
  moreover have "length u = length w'" using assms(3) by (simp add: w'_def v)
  ultimately show ?thesis using dominates_snoc[of u w' 0 a] v by (simp add: word_gt_0)
qed

lemma bms_compare_dominates:
  assumes "bms_is_valid_set a" "bms_is_valid_set b"
  shows "bms_compare a b = (if dominates (bms_members a) (bms_members b) then 1
    else if dominates (bms_members b) (bms_members a) then -1 else 0)"
proof (cases a; cases b)
  fix v assume ab: "a = None" "b = Some v"
  then have "dominates (bms_members b) {}" using dominates_longer[of v "[]"] assms by (simp add: in_words_def)
  then show ?thesis using ab dominates_asym by (auto simp: bms_compare_def)
next
  fix v assume ab: "a = Some v" "b = None"
  then have "dominates (bms_members a) {}" using dominates_longer[of v "[]"] assms by (simp add: in_words_def)
  then show ?thesis using ab by (auto simp: bms_compare_def)
next
  fix v w assume ab: "a = Some v" "b = Some w"
  consider "length v = length w" | "length w < length v" | "length v < length w" by linarith
  then show ?thesis
  proof cases
    case 1
    then show ?thesis using compare_words_rev[OF 1] by (simp add: ab bms_compare_def)
  next
    case 2
    then show ?thesis using dominates_longer[OF _ _ 2] assms by (simp add: ab bms_compare_def)
  next
    case 3
    then show ?thesis using dominates_longer[OF _ _ 3] assms dominates_asym by (auto simp: ab bms_compare_def)
  qed
qed (simp add: bms_compare_def)

text \<open>The comparison result that two inclusions mean.\<close>

definition comparison_of :: "bool \<Rightarrow> bool \<Rightarrow> BMS_Comparison" where
  "comparison_of sub1 sub2 = (if sub1 then (if sub2 then BMS_EQUAL else BMS_SUBSET1)
     else if sub2 then BMS_SUBSET2 else BMS_DIFFERENT)"

lemma subset_compare_loop: "s1 \<or> s2 \<Longrightarrow> subset_compare_words (comparison_of s1 s2) v w =
    comparison_of (s1 \<and> \<not> words_nonempty_difference v w) (s2 \<and> \<not> words_nonempty_difference w v)"
proof (induction v arbitrary: w s1 s2)
  case (Cons a as)
  show ?case
  proof (cases w)
    case (Cons b bs)
    let ?s1 = "s1 \<and> (a AND NOT b) = 0" and ?s2 = "s2 \<and> (b AND NOT a) = 0"
    show ?thesis
    proof (cases "?s1 \<or> ?s2")
      case True
      then have "subset_compare_words (comparison_of s1 s2) (a # as) w = subset_compare_words (comparison_of ?s1 ?s2) as bs"
        using Cons.prems by (auto simp: Cons comparison_of_def Let_def)
      then show ?thesis using Cons.IH[of ?s1 ?s2 bs] True Cons by auto
    next
      case False
      then show ?thesis using Cons.prems by (auto simp: Cons comparison_of_def Let_def)
    qed
  qed (simp add: comparison_of_def)
qed (simp add: comparison_of_def)

lemma subset_compare_comparison:
  assumes "bms_is_valid_set a" "bms_is_valid_set b"
  shows "bms_subset_compare a b = comparison_of (bms_members a \<subseteq> bms_members b) (bms_members b \<subseteq> bms_members a)"
proof -
  have "bms_subset_compare a b = comparison_of (\<not> bms_nonempty_difference a b) (\<not> bms_nonempty_difference b a)"
  proof (cases a; cases b)
    fix v w assume ab: "a = Some v" "b = Some w"
    have "subset_compare_words BMS_EQUAL v w = comparison_of (\<not> words_nonempty_difference v w) (\<not> words_nonempty_difference w v)"
      using subset_compare_loop[of True True v w] by (simp add: comparison_of_def)
    then show ?thesis
      by (auto simp: ab bms_subset_compare_def bms_nonempty_difference_def comparison_of_def Let_def)
  qed (simp_all add: bms_subset_compare_def bms_nonempty_difference_def comparison_of_def)
  then show ?thesis using nonempty_difference_iff assms by simp
qed

end
