(* ===== verification/BitmapsetSpec.thy ===== *)
theory BitmapsetSpec
  imports BitmapsetQuery
begin

text \<open>
  The bitmap sets against their specification, finite sets of natural numbers: the contract that the
  callers rely on as a locale, its interpretation on the functions of the source, and the properties.
\<close>

section \<open>The contract of a set representation\<close>

text \<open>
  What the callers of the functions rely on: each operation acts on the represented sets, keeps the
  invariant, and equal sets have equal representations. The laws of set algebra then hold for the
  representations themselves.
\<close>

locale canonical_set =
  fixes ok :: "'r \<Rightarrow> bool" and elems :: "'r \<Rightarrow> 'e set"
    and uni :: "'r \<Rightarrow> 'r \<Rightarrow> 'r" and isect :: "'r \<Rightarrow> 'r \<Rightarrow> 'r" and diff :: "'r \<Rightarrow> 'r \<Rightarrow> 'r"
  assumes canonical: "ok a \<Longrightarrow> ok b \<Longrightarrow> elems a = elems b \<Longrightarrow> a = b"
    and ok_ops: "ok a \<Longrightarrow> ok b \<Longrightarrow> ok (uni a b)" "ok a \<Longrightarrow> ok b \<Longrightarrow> ok (isect a b)" "ok a \<Longrightarrow> ok b \<Longrightarrow> ok (diff a b)"
    and elems_ops: "ok a \<Longrightarrow> ok b \<Longrightarrow> elems (uni a b) = elems a \<union> elems b"
      "ok a \<Longrightarrow> ok b \<Longrightarrow> elems (isect a b) = elems a \<inter> elems b"
      "ok a \<Longrightarrow> ok b \<Longrightarrow> elems (diff a b) = elems a - elems b"
begin

lemma uni_commute: "ok a \<Longrightarrow> ok b \<Longrightarrow> uni a b = uni b a"
  by (rule canonical) (auto simp: ok_ops elems_ops)

lemma uni_assoc: "ok a \<Longrightarrow> ok b \<Longrightarrow> ok c \<Longrightarrow> uni (uni a b) c = uni a (uni b c)"
  by (rule canonical) (auto simp: ok_ops elems_ops)

lemma isect_uni_distrib: "ok a \<Longrightarrow> ok b \<Longrightarrow> ok c \<Longrightarrow> isect a (uni b c) = uni (isect a b) (isect a c)"
  by (rule canonical) (auto simp: ok_ops elems_ops)

lemma diff_uni: "ok a \<Longrightarrow> ok b \<Longrightarrow> ok c \<Longrightarrow> diff a (uni b c) = diff (diff a b) c"
  by (rule canonical) (auto simp: ok_ops elems_ops)

lemma isect_uni_diff: "ok a \<Longrightarrow> ok b \<Longrightarrow> uni (isect a b) (diff a b) = a"
  by (rule canonical) (auto simp: ok_ops elems_ops)

lemma uni_determined: "ok a \<Longrightarrow> ok b \<Longrightarrow> ok c \<Longrightarrow> elems c = elems a \<union> elems b \<Longrightarrow> c = uni a b"
  by (rule canonical) (auto simp: ok_ops elems_ops)

end

interpretation bms: canonical_set bms_is_valid_set bms_members bms_union bms_intersect bms_difference
  by unfold_locales (simp_all add: bms_canonical)

section \<open>Properties\<close>

text \<open>
  C19: the functions that combine two sets implement union, intersection, difference and replacement
  of the represented sets, for the copying and for the recycling versions, and every result is again
  a valid set: null, or an array whose last word is not zero.
\<close>

theorem bms_set_operations:
  assumes "bms_is_valid_set a" "bms_is_valid_set b"
  shows "bms_members (bms_union a b) = bms_members a \<union> bms_members b \<and> bms_is_valid_set (bms_union a b) \<and>
    bms_members (bms_intersect a b) = bms_members a \<inter> bms_members b \<and> bms_is_valid_set (bms_intersect a b) \<and>
    bms_members (bms_difference a b) = bms_members a - bms_members b \<and> bms_is_valid_set (bms_difference a b) \<and>
    bms_members (bms_add_members a b) = bms_members a \<union> bms_members b \<and> bms_is_valid_set (bms_add_members a b) \<and>
    bms_members (bms_int_members a b) = bms_members a \<inter> bms_members b \<and> bms_is_valid_set (bms_int_members a b) \<and>
    bms_members (bms_del_members a b) = bms_members a - bms_members b \<and> bms_is_valid_set (bms_del_members a b) \<and>
    bms_members (bms_join a b) = bms_members a \<union> bms_members b \<and> bms_is_valid_set (bms_join a b) \<and>
    bms_members (bms_replace_members a b) = bms_members b \<and> bms_is_valid_set (bms_replace_members a b)"
  using assms del_members_refines[OF assms]
  by (simp add: int_members_intersect join_add_members replace_members_copy)

theorem bms_set_operations_witness:
  "bms_members (bms_difference (Some [5, 1]) (Some [1, 1])) = bms_members (Some [5, 1]) - bms_members (Some [1, 1]) \<and>
    bms_difference (Some [5, 1]) (Some [1, 1]) = Some [4]"
  using bms_set_operations[of "Some [5, 1]" "Some [1, 1]"]
  by (simp add: bms_difference_def bms_nonempty_difference_def)

text \<open>
  C20: adding, deleting and creating single members and adding a range have the expected effect on
  the represented set and keep validity, the trimming of emptied words included.
\<close>

theorem bms_member_updates:
  assumes "bms_is_valid_set a"
  shows "(\<exists>c. bms_add_member a (int n) = Inr c \<and> bms_is_valid_set c \<and> bms_members c = insert n (bms_members a)) \<and>
    (\<exists>c. bms_del_member a (int n) = Inr c \<and> bms_is_valid_set c \<and> bms_members c = bms_members a - {n}) \<and>
    (\<exists>c. bms_make_singleton (int n) = Inr c \<and> bms_is_valid_set c \<and> bms_members c = {n}) \<and>
    (\<exists>c. bms_add_range a (int n) (int (n + k)) = Inr c \<and> bms_is_valid_set c \<and> bms_members c = bms_members a \<union> {n..n + k})"
  using add_member_refines[OF assms, of n] del_member_refines[OF assms, of n] make_singleton_refines[of n]
    add_range_refines[OF assms, of n "n + k"] by (metis le_add1)

theorem bms_member_updates_witness:
  "\<exists>c. bms_del_member (Some [8, 0, 4]) (int 130) = Inr c \<and> bms_is_valid_set c \<and>
    bms_members c = bms_members (Some [8, 0, 4]) - {130} \<and> c = Some [8]"
proof -
  have "bms_del_member (Some [8, 0, 4]) (int 130) = Inr (Some [8])" by code_simp
  then show ?thesis using bms_member_updates[of "Some [8, 0, 4]" 130 0] by auto
qed

text \<open>
  C21: the recycling functions return exactly the value of the copying ones, and the set laws hold as
  equations between representations, since a set has only one valid representation.
\<close>

theorem bms_recycling_equals_copying:
  assumes "bms_is_valid_set a" "bms_is_valid_set b" "bms_is_valid_set c"
  shows "bms_add_members a b = bms_union a b \<and> bms_join a b = bms_union b a \<and>
    bms_int_members a b = bms_intersect a b \<and> bms_del_members a b = bms_difference a b \<and>
    bms_replace_members a b = bms_copy b \<and>
    bms_intersect a (bms_join b c) = bms_union (bms_int_members a b) (bms_intersect a c) \<and>
    bms_del_members (bms_difference a b) c = bms_difference a (bms_add_members b c) \<and>
    bms_union (bms_intersect a b) (bms_difference a b) = a"
proof -
  have add: "bms_add_members x y = bms_union x y" if "bms_is_valid_set x" "bms_is_valid_set y" for x y
    using that by (intro bms.uni_determined) simp_all
  show ?thesis
    using assms bms.uni_commute[of a b] bms.isect_uni_distrib[of a b c] bms.diff_uni[of a b c] bms.isect_uni_diff[of a b]
    by (simp add: add join_add_members int_members_intersect replace_members_copy difference_del_members[symmetric])
qed

theorem bms_recycling_equals_copying_witness:
  "bms_join (Some [3]) (Some [0, 1]) = bms_union (Some [0, 1]) (Some [3]) \<and> bms_join (Some [3]) (Some [0, 1]) = Some [3, 1]"
  using bms_recycling_equals_copying[of "Some [3]" "Some [0, 1]" None] by (simp add: bms_union_def)

text \<open>
  C22: the queries answer about the represented sets: equality, inclusion, overlap, the four-way
  inclusion test, the number of members, and the test for zero, one or more members.
\<close>

theorem bms_queries:
  assumes "bms_is_valid_set a" "bms_is_valid_set b"
  shows "bms_equal a b = (bms_members a = bms_members b) \<and>
    bms_is_subset a b = (bms_members a \<subseteq> bms_members b) \<and>
    bms_nonempty_difference a b = (bms_members a - bms_members b \<noteq> {}) \<and>
    bms_overlap a b = (bms_members a \<inter> bms_members b \<noteq> {}) \<and>
    bms_subset_compare a b = comparison_of (bms_members a \<subseteq> bms_members b) (bms_members b \<subseteq> bms_members a) \<and>
    bms_num_members a = card (bms_members a) \<and>
    bms_is_member (int n) a = Inr (n \<in> bms_members a) \<and>
    bms_membership a = (if card (bms_members a) = 0 then BMS_EMPTY_SET
      else if card (bms_members a) = 1 then BMS_SINGLETON else BMS_MULTIPLE)"
proof -
  have eq: "bms_equal a b = (bms_members a = bms_members b)" 
    unfolding bms_equal_eq by (rule iffI) (simp, erule bms_canonical[OF assms])
  have membership: "bms_membership a = (if card (bms_members a) = 0 then BMS_EMPTY_SET
      else if card (bms_members a) = 1 then BMS_SINGLETON else BMS_MULTIPLE)"
    by (cases a) (simp_all add: bms_membership_def membership_count count_words_card)
  have diff: "bms_nonempty_difference a b = (bms_members a - bms_members b \<noteq> {})"
    unfolding nonempty_difference_iff[OF assms] by simp
  show ?thesis
    by (intro conjI eq membership diff bms_is_subset_iff[OF assms] bms_overlap_iff
        subset_compare_comparison[OF assms] num_members_card bms_is_member_iff)
qed

theorem bms_queries_witness:
  "bms_subset_compare (Some [1]) (Some [3, 1]) = comparison_of (bms_members (Some [1]) \<subseteq> bms_members (Some [3, 1]))
      (bms_members (Some [3, 1]) \<subseteq> bms_members (Some [1])) \<and>
    bms_subset_compare (Some [1]) (Some [3, 1]) = BMS_SUBSET1"
  using bms_queries[of "Some [1]" "Some [3, 1]" 0] by (simp add: bms_subset_compare_def)



text \<open>
  \<open>bms_prev_member\<close> started from -1 finds the greatest member, and called with a number within
  the array the greatest member below it; it returns -2 exactly when there is none, and it never
  reads outside the array.
\<close>

theorem bms_prev_member_greatest:
  assumes "bms_is_valid_set (Some words)" "p < length words * 64"
  shows "bms_prev_member (Some words) (-1) = Some (int (Max (bms_members (Some words)))) \<and>
    bms_prev_member (Some words) (int p + 1) =
      Some (let below = {n \<in> bms_members (Some words). n \<le> p} in if below = {} then -2 else int (Max below)) \<and>
    bms_prev_member (Some words) 0 = Some (-2)"
proof -
  have "bms_members (Some words) \<noteq> {}" using bms_members_empty[OF assms(1)] by simp
  moreover have "bms_prev_member (Some words) 0 = Some (-2)" by (simp add: bms_prev_member_def)
  ultimately show ?thesis using prev_member_last[of words] prev_member_Max[OF assms(2)] assms(1)
    unfolding valid_simps by (simp only: simp_thms if_False)
qed

theorem bms_prev_member_greatest_witness:
  "bms_prev_member (Some [8, 0, 4]) (-1) = Some (int (Max (bms_members (Some [8, 0, 4])))) \<and>
    bms_prev_member (Some [8, 0, 4]) (-1) = Some 130"
proof -
  have "bms_prev_member (Some [8, 0, 4]) (-1) = Some 130" by code_simp
  then show ?thesis using bms_prev_member_greatest[of "[8, 0, 4]" 3] by simp
qed

text \<open>
  C24: \<open>bms_compare\<close> orders the sets by the greatest number that is in one of them only. So it
  returns zero exactly for equal sets, changes sign when its arguments are exchanged, and is
  transitive: a total order that a sort can use.
\<close>

theorem bms_compare_total_order:
  assumes "bms_is_valid_set a" "bms_is_valid_set b" "bms_is_valid_set c"
  shows "(bms_compare a b > 0 \<longleftrightarrow> dominates (bms_members a) (bms_members b)) \<and>
    (bms_compare a b = 0 \<longleftrightarrow> a = b) \<and> bms_compare b a = - bms_compare a b \<and>
    (bms_compare a b \<le> 0 \<and> bms_compare b c \<le> 0 \<longrightarrow> bms_compare a c \<le> 0)"
proof -
  let ?d = "\<lambda>x y. dominates (bms_members x) (bms_members y)"
  note cmp = bms_compare_dominates[OF assms(1,2)] bms_compare_dominates[OF assms(2,1)]
    bms_compare_dominates[OF assms(2,3)] bms_compare_dominates[OF assms(1,3)]
  have eq: "\<not> ?d x y \<Longrightarrow> \<not> ?d y x \<Longrightarrow> bms_members x = bms_members y" for x y
    using dominates_total[of "bms_members x" "bms_members y"] by auto
  have "?d a c \<Longrightarrow> ?d a b \<or> ?d b c"
    using eq[of a b] eq[of b c] dominates_asym dominates_trans by metis
  moreover have "a = b" if "\<not> ?d a b" "\<not> ?d b a" using eq[OF that] bms_canonical[OF assms(1,2)] by blast
  ultimately show ?thesis unfolding cmp using dominates_asym by (auto split: if_splits)
qed

theorem bms_compare_total_order_witness:
  "bms_compare (Some [1, 2]) (Some [7, 1]) = - bms_compare (Some [7, 1]) (Some [1, 2]) \<and>
    bms_compare (Some [1, 2]) (Some [7, 1]) = 1"
  using bms_compare_total_order[of "Some [7, 1]" "Some [1, 2]" None] by (simp add: bms_compare_def)

text \<open>
  A negative member is refused with an error by every function that takes one, before the set is
  looked at; and the sole member is returned exactly for a set of one member, with different errors
  for the empty set and for a larger one.
\<close>

theorem bms_errors:
  assumes "x < 0" "bms_is_valid_set a"
  shows "bms_add_member a x = Inl NegativeMember \<and> bms_del_member a x = Inl NegativeMember \<and>
    bms_make_singleton x = Inl NegativeMember \<and> bms_is_member x a = Inl NegativeMember \<and>
    bms_member_index a x = Inl NegativeMember \<and>
    bms_add_range a x y = (if y < x then Inr a else Inl NegativeMember) \<and>
    bms_singleton_member a = (if card (bms_members a) = 0 then Inl EmptySet
      else if card (bms_members a) = 1 then Inr (int (Min (bms_members a))) else Inl MultipleMembers) \<and>
    bms_get_singleton_member a = (if card (bms_members a) = 1 then Some (int (Min (bms_members a))) else None)"
proof -
  have "count_words ws \<noteq> 0" if "a = Some ws" for ws
    using that bms_members_empty[OF assms(2)] by (simp add: count_words_card)
  then show ?thesis using assms negative_member[OF assms(1)]
    by (cases a) (auto simp: bms_add_range_def bms_singleton_member_def bms_get_singleton_member_def
        singleton_loop_count count_words_card[symmetric])
qed

theorem bms_errors_witness:
  "bms_add_member (Some [6]) (-3) = Inl NegativeMember \<and> bms_singleton_member (Some [0, 4]) = Inr 66"
proof -
  have "bms_singleton_member (Some [0, 4]) = Inr 66" by code_simp
  then show ?thesis using bms_errors[of "-3" "Some [6]" 0] by simp
qed

end
