(* ===== verification/Transam.thy ===== *)
theory Transam
  imports Prelude
begin

text \<open>
  Transaction ids and the commit log interface (\<open>access/transam.h\<close>, \<open>access/transam/transam.c\<close>,
  and the parent lookup of \<open>access/transam/subtrans.c\<close>). A transaction id is a 32-bit word that is
  compared modulo \<open>2 ^ 32\<close>. What is stored in the commit log and in the parent table is an argument:
  a function from ids to entries.
\<close>

section \<open>Transaction ids\<close>

type_synonym TransactionId = uint32
type_synonym XLogRecPtr = uint64

definition InvalidTransactionId :: TransactionId where "InvalidTransactionId = 0"
definition BootstrapTransactionId :: TransactionId where "BootstrapTransactionId = 1"
definition FrozenTransactionId :: TransactionId where "FrozenTransactionId = 2"
definition FirstNormalTransactionId :: TransactionId where "FirstNormalTransactionId = 3"

definition TransactionIdIsValid :: "TransactionId \<Rightarrow> bool" where
  "TransactionIdIsValid xid = (xid \<noteq> InvalidTransactionId)"

definition TransactionIdIsNormal :: "TransactionId \<Rightarrow> bool" where
  "TransactionIdIsNormal xid = (xid \<ge> FirstNormalTransactionId)"

definition TransactionIdPrecedes :: "TransactionId \<Rightarrow> TransactionId \<Rightarrow> bool" where
  "TransactionIdPrecedes id1 id2 =
     (if \<not> TransactionIdIsNormal id1 \<or> \<not> TransactionIdIsNormal id2 then id1 < id2
      else sint (id1 - id2) < 0)"

definition TransactionIdPrecedesOrEquals :: "TransactionId \<Rightarrow> TransactionId \<Rightarrow> bool" where
  "TransactionIdPrecedesOrEquals id1 id2 =
     (if \<not> TransactionIdIsNormal id1 \<or> \<not> TransactionIdIsNormal id2 then id1 \<le> id2
      else sint (id1 - id2) \<le> 0)"

definition TransactionIdFollows :: "TransactionId \<Rightarrow> TransactionId \<Rightarrow> bool" where
  "TransactionIdFollows id1 id2 =
     (if \<not> TransactionIdIsNormal id1 \<or> \<not> TransactionIdIsNormal id2 then id1 > id2
      else sint (id1 - id2) > 0)"

definition TransactionIdFollowsOrEquals :: "TransactionId \<Rightarrow> TransactionId \<Rightarrow> bool" where
  "TransactionIdFollowsOrEquals id1 id2 =
     (if \<not> TransactionIdIsNormal id1 \<or> \<not> TransactionIdIsNormal id2 then id1 \<ge> id2
      else sint (id1 - id2) \<ge> 0)"

text \<open>The array of child ids is scanned from its end.\<close>

fun latest_loop :: "TransactionId \<Rightarrow> TransactionId list \<Rightarrow> TransactionId" where
  "latest_loop result [] = result"
| "latest_loop result (x # xs) = latest_loop (if TransactionIdPrecedes result x then x else result) xs"

definition TransactionIdLatest :: "TransactionId \<Rightarrow> TransactionId list \<Rightarrow> TransactionId" where
  "TransactionIdLatest mainxid xids = latest_loop mainxid (rev xids)"

definition TransactionIdAdvance :: "TransactionId \<Rightarrow> TransactionId" where
  "TransactionIdAdvance dest =
     (let dest = dest + 1 in if dest < FirstNormalTransactionId then FirstNormalTransactionId else dest)"

lemma retreat_decreases:
  assumes "dest < FirstNormalTransactionId"
  shows "(dest - 1, dest) \<in> measure (\<lambda>dest. if dest < FirstNormalTransactionId then unat dest + 1 else 0)"
proof (cases "dest = 0")
  case False
  then have "unat (dest - 1) < unat dest" by (metis unat_gt_0 unat_minus_one diff_less zero_less_one)
  then show ?thesis using assms by simp
qed (use assms in \<open>simp add: FirstNormalTransactionId_def\<close>)

lemma advance_decreases:
  assumes "dest < FirstNormalTransactionId"
  shows "(dest + 1, dest) \<in> measure (\<lambda>dest. 3 - unat dest)"
proof -
  have "unat dest < 3" using assms by (simp add: FirstNormalTransactionId_def word_less_nat_alt)
  then have "unat (dest + 1) = unat dest + 1" by (simp add: unat_word_ariths)
  then show ?thesis using \<open>unat dest < 3\<close> by simp
qed

text \<open>Counting down over the special ids: from 0 the id wraps to the greatest one.\<close>

function retreat_loop :: "TransactionId \<Rightarrow> TransactionId" where
  "retreat_loop dest = (if dest < FirstNormalTransactionId then retreat_loop (dest - 1) else dest)"
  by pat_completeness auto
termination
  by (relation "measure (\<lambda>dest. if dest < FirstNormalTransactionId then unat dest + 1 else 0)")
    (simp, rule retreat_decreases)

definition TransactionIdRetreat :: "TransactionId \<Rightarrow> TransactionId" where
  "TransactionIdRetreat dest = retreat_loop (dest - 1)"

definition TransactionIdRetreatedBy :: "TransactionId \<Rightarrow> uint32 \<Rightarrow> TransactionId" where
  "TransactionIdRetreatedBy xid amount = retreat_loop (xid - amount)"

definition TransactionIdOlder :: "TransactionId \<Rightarrow> TransactionId \<Rightarrow> TransactionId" where
  "TransactionIdOlder a b =
     (if \<not> TransactionIdIsValid a then b
      else if \<not> TransactionIdIsValid b then a
      else if TransactionIdPrecedes a b then a else b)"

section \<open>Ids with an epoch\<close>

record FullTransactionId =
  xid_value :: uint64

definition EpochFromFullTransactionId :: "FullTransactionId \<Rightarrow> uint32" where
  "EpochFromFullTransactionId x = ucast (drop_bit 32 (xid_value x))"

definition XidFromFullTransactionId :: "FullTransactionId \<Rightarrow> TransactionId" where
  "XidFromFullTransactionId x = ucast (xid_value x)"

definition FullTransactionIdPrecedes :: "FullTransactionId \<Rightarrow> FullTransactionId \<Rightarrow> bool" where
  "FullTransactionIdPrecedes a b = (xid_value a < xid_value b)"

definition FullTransactionIdFollows :: "FullTransactionId \<Rightarrow> FullTransactionId \<Rightarrow> bool" where
  "FullTransactionIdFollows a b = (xid_value a > xid_value b)"

definition FullTransactionIdFromEpochAndXid :: "uint32 \<Rightarrow> TransactionId \<Rightarrow> FullTransactionId" where
  "FullTransactionIdFromEpochAndXid epoch xid = \<lparr>xid_value = push_bit 32 (ucast epoch) OR ucast xid\<rparr>"

definition FirstNormalFullTransactionId :: FullTransactionId where
  "FirstNormalFullTransactionId = FullTransactionIdFromEpochAndXid 0 FirstNormalTransactionId"

definition FullTransactionIdIsValid :: "FullTransactionId \<Rightarrow> bool" where
  "FullTransactionIdIsValid x = TransactionIdIsValid (XidFromFullTransactionId x)"

text \<open>The loops that step over values whose low half is a special id.\<close>

lemma take_bit_32_64: "take_bit 32 (take_bit 64 (a :: int)) = take_bit 32 a"
  by (simp add: take_bit_take_bit)

lemma low_half_add: "(ucast (v + w) :: uint32) = ucast (v :: uint64) + ucast w"
proof (transfer, simp)
  fix v w :: int
  show "take_bit 32 (v + w) = take_bit 32 (take_bit 64 v + take_bit 64 w)"
    using take_bit_add[of 32 "take_bit 64 v" "take_bit 64 w"] take_bit_add[of 32 v w] by (simp only: take_bit_32_64)
qed

lemma low_half_diff: "(ucast (v - w) :: uint32) = ucast (v :: uint64) - ucast w"
proof (transfer, simp)
  fix v w :: int
  show "take_bit 32 (v - w) = take_bit 32 (take_bit 64 v - take_bit 64 w)"
    using take_bit_diff[of 32 "take_bit 64 v" "take_bit 64 w"] take_bit_diff[of 32 v w] by (simp only: take_bit_32_64)
qed

function full_advance_loop :: "uint64 \<Rightarrow> uint64" where
  "full_advance_loop v = (if (ucast v :: TransactionId) < FirstNormalTransactionId then full_advance_loop (v + 1) else v)"
  by pat_completeness auto
termination
  by (relation "inv_image (measure (\<lambda>dest. 3 - unat dest)) (ucast :: uint64 \<Rightarrow> TransactionId)")
    (simp, simp only: in_inv_image low_half_add ucast_1, rule advance_decreases)

function full_retreat_loop :: "uint64 \<Rightarrow> uint64" where
  "full_retreat_loop v = (if (ucast v :: TransactionId) < FirstNormalTransactionId then full_retreat_loop (v - 1) else v)"
  by pat_completeness auto
termination
  by (relation "inv_image (measure (\<lambda>dest. if dest < FirstNormalTransactionId then unat dest + 1 else 0)) (ucast :: uint64 \<Rightarrow> TransactionId)")
    (simp, simp only: in_inv_image low_half_diff ucast_1, rule retreat_decreases)

definition FullTransactionIdAdvance :: "FullTransactionId \<Rightarrow> FullTransactionId" where
  "FullTransactionIdAdvance dest =
     (let dest = dest\<lparr>xid_value := xid_value dest + 1\<rparr> in
      if FullTransactionIdPrecedes dest FirstNormalFullTransactionId then dest
      else dest\<lparr>xid_value := full_advance_loop (xid_value dest)\<rparr>)"

definition FullTransactionIdRetreat :: "FullTransactionId \<Rightarrow> FullTransactionId" where
  "FullTransactionIdRetreat dest =
     (let dest = dest\<lparr>xid_value := xid_value dest - 1\<rparr> in
      if FullTransactionIdPrecedes dest FirstNormalFullTransactionId then dest
      else dest\<lparr>xid_value := full_retreat_loop (xid_value dest)\<rparr>)"

definition FullTransactionIdNewer :: "FullTransactionId \<Rightarrow> FullTransactionId \<Rightarrow> FullTransactionId" where
  "FullTransactionIdNewer a b =
     (if \<not> FullTransactionIdIsValid a then b
      else if \<not> FullTransactionIdIsValid b then a
      else if FullTransactionIdFollows a b then a else b)"

section \<open>Parents\<close>

definition SubTransGetParent :: "(TransactionId \<Rightarrow> TransactionId) \<Rightarrow> TransactionId \<Rightarrow> TransactionId" where
  "SubTransGetParent subtrans xid = (if \<not> TransactionIdIsNormal xid then InvalidTransactionId else subtrans xid)"

datatype subtrans_error = InvalidEntry TransactionId TransactionId

text \<open>The loop; the result \<open>None\<close> would be a loop that never ends.\<close>

partial_function (option) topmost_loop ::
    "(TransactionId \<Rightarrow> TransactionId) \<Rightarrow> TransactionId \<Rightarrow> TransactionId \<Rightarrow> TransactionId \<Rightarrow> (subtrans_error + TransactionId) option" where
  "topmost_loop subtrans TransactionXmin parentXid previousXid =
     (if \<not> TransactionIdIsValid parentXid then Some (Inr previousXid)
      else let previousXid = parentXid in
        if TransactionIdPrecedes parentXid TransactionXmin then Some (Inr previousXid)
        else let parentXid = SubTransGetParent subtrans parentXid in
          if \<not> TransactionIdPrecedes parentXid previousXid then Some (Inl (InvalidEntry previousXid parentXid))
          else topmost_loop subtrans TransactionXmin parentXid previousXid)"

definition SubTransGetTopmostTransaction ::
    "(TransactionId \<Rightarrow> TransactionId) \<Rightarrow> TransactionId \<Rightarrow> TransactionId \<Rightarrow> (subtrans_error + TransactionId) option" where
  "SubTransGetTopmostTransaction subtrans TransactionXmin xid = topmost_loop subtrans TransactionXmin xid xid"

section \<open>Commit log\<close>

datatype XidStatus = TRANSACTION_STATUS_IN_PROGRESS | TRANSACTION_STATUS_COMMITTED
  | TRANSACTION_STATUS_ABORTED | TRANSACTION_STATUS_SUB_COMMITTED

record fetch_cache =
  cachedFetchXid :: TransactionId
  cachedFetchXidStatus :: XidStatus
  cachedCommitLSN :: XLogRecPtr

type_synonym clog = "TransactionId \<Rightarrow> XidStatus \<times> XLogRecPtr"

definition TransactionLogFetch :: "clog \<Rightarrow> TransactionId \<Rightarrow> fetch_cache \<Rightarrow> XidStatus \<times> fetch_cache" where
  "TransactionLogFetch clog transactionId c =
     (if transactionId = cachedFetchXid c then (cachedFetchXidStatus c, c)
      else if \<not> TransactionIdIsNormal transactionId then
        (if transactionId = BootstrapTransactionId then TRANSACTION_STATUS_COMMITTED
         else if transactionId = FrozenTransactionId then TRANSACTION_STATUS_COMMITTED
         else TRANSACTION_STATUS_ABORTED, c)
      else let (xidstatus, xidlsn) = clog transactionId in
        (xidstatus,
         if xidstatus \<noteq> TRANSACTION_STATUS_IN_PROGRESS \<and> xidstatus \<noteq> TRANSACTION_STATUS_SUB_COMMITTED
         then c\<lparr>cachedFetchXid := transactionId, cachedFetchXidStatus := xidstatus, cachedCommitLSN := xidlsn\<rparr>
         else c))"

partial_function (option) TransactionIdDidCommit ::
    "clog \<Rightarrow> (TransactionId \<Rightarrow> TransactionId) \<Rightarrow> TransactionId \<Rightarrow> TransactionId \<Rightarrow> fetch_cache \<Rightarrow> (bool \<times> fetch_cache) option" where
  "TransactionIdDidCommit clog subtrans TransactionXmin transactionId c =
     (let (xidstatus, c) = TransactionLogFetch clog transactionId c in
      if xidstatus = TRANSACTION_STATUS_COMMITTED then Some (True, c)
      else if xidstatus = TRANSACTION_STATUS_SUB_COMMITTED then
        (if TransactionIdPrecedes transactionId TransactionXmin then Some (False, c)
         else let parentXid = SubTransGetParent subtrans transactionId in
           if \<not> TransactionIdIsValid parentXid then Some (False, c)
           else TransactionIdDidCommit clog subtrans TransactionXmin parentXid c)
      else Some (False, c))"

partial_function (option) TransactionIdDidAbort ::
    "clog \<Rightarrow> (TransactionId \<Rightarrow> TransactionId) \<Rightarrow> TransactionId \<Rightarrow> TransactionId \<Rightarrow> fetch_cache \<Rightarrow> (bool \<times> fetch_cache) option" where
  "TransactionIdDidAbort clog subtrans TransactionXmin transactionId c =
     (let (xidstatus, c) = TransactionLogFetch clog transactionId c in
      if xidstatus = TRANSACTION_STATUS_ABORTED then Some (True, c)
      else if xidstatus = TRANSACTION_STATUS_SUB_COMMITTED then
        (if TransactionIdPrecedes transactionId TransactionXmin then Some (True, c)
         else let parentXid = SubTransGetParent subtrans transactionId in
           if \<not> TransactionIdIsValid parentXid then Some (True, c)
           else TransactionIdDidAbort clog subtrans TransactionXmin parentXid c)
      else Some (False, c))"

definition TransactionIdGetCommitLSN :: "clog \<Rightarrow> TransactionId \<Rightarrow> fetch_cache \<Rightarrow> XLogRecPtr" where
  "TransactionIdGetCommitLSN clog xid c =
     (if xid = cachedFetchXid c then cachedCommitLSN c
      else if \<not> TransactionIdIsNormal xid then 0
      else snd (clog xid))"

section \<open>Comparison in a window\<close>

lemmas xid_consts = InvalidTransactionId_def BootstrapTransactionId_def FrozenTransactionId_def FirstNormalTransactionId_def
lemmas xid_tests = TransactionIdIsValid_def TransactionIdIsNormal_def xid_consts

lemma sint_of_small_int: "- (2 ^ 31) \<le> d \<Longrightarrow> d < 2 ^ 31 \<Longrightarrow> sint (of_int d :: uint32) = d"
  using signed_take_bit_int_eq_self[of 31 d] by (simp add: sint_sbintrunc')

lemma sint_diff_small:
  fixes a b :: uint32
  assumes "0 \<le> sint a" "0 \<le> sint b"
  shows "sint (b - a) = sint b - sint a"
proof -
  have "sint a < 2 ^ 31" "sint b < 2 ^ 31" using sint_lt[of a] sint_lt[of b] by simp_all
  moreover have "b - a = of_int (sint b - sint a)" by simp
  ultimately show ?thesis using assms sint_of_small_int[of "sint b - sint a"] by simp
qed

lemma unat_of_sint:
  assumes "0 \<le> sint (a :: uint32)"
  shows "int (unat a) = sint a"
proof -
  have "sint a < 2 ^ 31" using sint_lt[of a] by simp
  then have "take_bit 32 (sint a) = sint a" using assms by (intro take_bit_int_eq_self) simp_all
  then show ?thesis using uint_sint[of a] by simp
qed

lemma full_xid_difference: "XidFromFullTransactionId f - XidFromFullTransactionId g = of_int (uint (xid_value f) - uint (xid_value g))"
  unfolding XidFromFullTransactionId_def ucast_eq by (simp only: of_int_diff)

text \<open>Going to an older id within half the number space from a lower bound approaches the bound.\<close>

lemma window_decreases:
  assumes "TransactionIdIsNormal lo" "TransactionIdIsNormal x" "TransactionIdIsNormal y"
    and "\<not> TransactionIdPrecedes x lo" "\<not> TransactionIdPrecedes y lo" "TransactionIdPrecedes y x"
  shows "unat (y - lo) < unat (x - lo)"
proof -
  have nonneg: "0 \<le> sint (x - lo)" "0 \<le> sint (y - lo)" and neg: "sint (y - x) < 0"
    using assms unfolding TransactionIdPrecedes_def by (simp_all only: simp_thms if_False not_less)
  have "(y - lo) - (x - lo) = y - x" by simp
  then have "sint (y - lo) < sint (x - lo)" using sint_diff_small[OF nonneg] neg by (simp only:)
  then show ?thesis using unat_of_sint nonneg by (metis of_nat_less_iff)
qed

lemma xid_difference_sign:
  assumes "TransactionIdIsNormal (XidFromFullTransactionId f)" "TransactionIdIsNormal (XidFromFullTransactionId g)"
    and "\<bar>uint (xid_value f) - uint (xid_value g)\<bar> < 2 ^ 31"
  shows "sint (XidFromFullTransactionId f - XidFromFullTransactionId g) = uint (xid_value f) - uint (xid_value g)"
  unfolding full_xid_difference by (rule sint_of_small_int) (use assms(3) in linarith)+

section \<open>Termination\<close>

lemma special_before_normal: "\<not> TransactionIdIsNormal x \<Longrightarrow> TransactionIdIsNormal lo \<Longrightarrow> TransactionIdPrecedes x lo"
  unfolding TransactionIdPrecedes_def TransactionIdIsNormal_def by (simp only: simp_thms if_True not_le)

text \<open>Induction along the parents that do not precede a lower bound.\<close>

lemma parent_induct [consumes 1, case_names parent]:
  assumes lo: "TransactionIdIsNormal lo"
    and step: "\<And>x. (\<not> TransactionIdPrecedes x lo \<Longrightarrow> \<not> TransactionIdPrecedes (parent x) lo \<Longrightarrow>
      TransactionIdPrecedes (parent x) x \<Longrightarrow> P (parent x)) \<Longrightarrow> P x"
  shows "P x"
proof (induction "unat (x - lo)" arbitrary: x rule: less_induct)
  case less
  show ?case
  proof (rule step)
    assume *: "\<not> TransactionIdPrecedes x lo" "\<not> TransactionIdPrecedes (parent x) lo" "TransactionIdPrecedes (parent x) x"
    then have "TransactionIdIsNormal x" "TransactionIdIsNormal (parent x)"
      using special_before_normal[OF _ lo] by blast+
    then show "P (parent x)" using less window_decreases[OF lo] * by blast
  qed
qed

lemma topmost_loop_ends:
  assumes "TransactionIdIsNormal lo"
  shows "\<exists>r. topmost_loop subtrans lo x prev = Some r \<and>
    (\<forall>t. TransactionIdIsValid x \<and> r = Inr t \<longrightarrow> (\<exists>k. (SubTransGetParent subtrans ^^ k) x = t) \<and> TransactionIdIsValid t \<and>
      (TransactionIdPrecedes t lo \<or> \<not> TransactionIdIsValid (SubTransGetParent subtrans t)))"
  using assms
proof (induction x arbitrary: prev rule: parent_induct[where parent = "SubTransGetParent subtrans"])
  case (parent x)
  let ?p = "SubTransGetParent subtrans x"
  consider (inv) "\<not> TransactionIdIsValid x" | (old) "TransactionIdIsValid x" "TransactionIdPrecedes x lo"
    | (bad) "TransactionIdIsValid x" "\<not> TransactionIdPrecedes x lo" "\<not> TransactionIdPrecedes ?p x"
    | (go) "TransactionIdIsValid x" "\<not> TransactionIdPrecedes x lo" "TransactionIdPrecedes ?p x" by blast
  then show ?case
  proof cases
    case inv
    then show ?thesis by (subst topmost_loop.simps) simp
  next
    case old
    then show ?thesis by (subst topmost_loop.simps) (auto intro: exI[of _ 0])
  next
    case bad
    then show ?thesis by (subst topmost_loop.simps) simp
  next
    case go
    then have step: "topmost_loop subtrans lo x prev = topmost_loop subtrans lo ?p x"
      by (subst topmost_loop.simps) simp
    show ?thesis
    proof (cases "TransactionIdIsValid ?p \<and> \<not> TransactionIdPrecedes ?p lo")
      case False
      then have "topmost_loop subtrans lo ?p x = Some (Inr (if TransactionIdIsValid ?p then ?p else x))"
        by (subst topmost_loop.simps) auto
      then show ?thesis unfolding step using go(1) False by (auto intro: exI[of _ 0] exI[of _ 1])
    next
      case True
      with parent[of x] go obtain r where r: "topmost_loop subtrans lo ?p x = Some r"
        "\<forall>t. TransactionIdIsValid ?p \<and> r = Inr t \<longrightarrow> (\<exists>k. (SubTransGetParent subtrans ^^ k) ?p = t) \<and> TransactionIdIsValid t \<and>
          (TransactionIdPrecedes t lo \<or> \<not> TransactionIdIsValid (SubTransGetParent subtrans t))" by blast
      show ?thesis unfolding step using r True by (metis funpow_swap1 funpow.simps(2) comp_apply)
    qed
  qed
qed

section \<open>Commit status\<close>

text \<open>The status the log has for an id, without the cache.\<close>

definition log_status :: "clog \<Rightarrow> TransactionId \<Rightarrow> XidStatus" where
  "log_status clog xid =
     (if TransactionIdIsNormal xid then fst (clog xid)
      else if xid = BootstrapTransactionId \<or> xid = FrozenTransactionId then TRANSACTION_STATUS_COMMITTED
      else TRANSACTION_STATUS_ABORTED)"

definition final_status :: "XidStatus \<Rightarrow> bool" where
  "final_status st \<longleftrightarrow> st = TRANSACTION_STATUS_COMMITTED \<or> st = TRANSACTION_STATUS_ABORTED"

text \<open>The cache holds no id, or a normal id with the final status the log has for it.\<close>

definition cache_ok :: "clog \<Rightarrow> fetch_cache \<Rightarrow> bool" where
  "cache_ok clog c \<longleftrightarrow> \<not> TransactionIdIsValid (cachedFetchXid c) \<or>
     (TransactionIdIsNormal (cachedFetchXid c) \<and> final_status (cachedFetchXidStatus c) \<and>
      fst (clog (cachedFetchXid c)) = cachedFetchXidStatus c)"

text \<open>A later state of the log: final entries stay as they are.\<close>

definition clog_later :: "clog \<Rightarrow> clog \<Rightarrow> bool" where
  "clog_later clog clog' \<longleftrightarrow> (\<forall>x. final_status (fst (clog x)) \<longrightarrow> fst (clog' x) = fst (clog x))"

lemma cache_ok_later: "cache_ok clog c \<Longrightarrow> clog_later clog clog' \<Longrightarrow> cache_ok clog' c"
  by (auto simp: cache_ok_def clog_later_def)

lemma log_fetch:
  assumes "cache_ok clog c" "TransactionIdIsValid x"
  shows "fst (TransactionLogFetch clog x c) = log_status clog x" "cache_ok clog (snd (TransactionLogFetch clog x c))"
proof -
  have "x = cachedFetchXid c \<Longrightarrow> cachedFetchXidStatus c = log_status clog x"
    using assms by (auto simp: cache_ok_def log_status_def)
  then show "fst (TransactionLogFetch clog x c) = log_status clog x"
    by (auto simp: TransactionLogFetch_def log_status_def split: prod.splits)
  show "cache_ok clog (snd (TransactionLogFetch clog x c))"
    using assms(1) by (auto simp: TransactionLogFetch_def cache_ok_def final_status_def split: prod.splits)
      (metis XidStatus.exhaust)+
qed

text \<open>
  A transaction counts as committed when the log says so, or when it is a committed subtransaction
  whose parent counts as committed; a subtransaction older than the horizon has lost its parent.
\<close>

inductive tree_committed :: "clog \<Rightarrow> (TransactionId \<Rightarrow> TransactionId) \<Rightarrow> TransactionId \<Rightarrow> TransactionId \<Rightarrow> bool"
  for clog subtrans lo where
  top: "log_status clog x = TRANSACTION_STATUS_COMMITTED \<Longrightarrow> tree_committed clog subtrans lo x"
| sub: "log_status clog x = TRANSACTION_STATUS_SUB_COMMITTED \<Longrightarrow> \<not> TransactionIdPrecedes x lo \<Longrightarrow>
    TransactionIdIsValid (SubTransGetParent subtrans x) \<Longrightarrow>
    tree_committed clog subtrans lo (SubTransGetParent subtrans x) \<Longrightarrow> tree_committed clog subtrans lo x"

inductive_simps tree_committed_iff: "tree_committed clog subtrans lo x"

definition parents_older :: "(TransactionId \<Rightarrow> TransactionId) \<Rightarrow> bool" where
  "parents_older subtrans \<longleftrightarrow> (\<forall>x. TransactionIdIsNormal x \<longrightarrow> TransactionIdIsValid (subtrans x) \<longrightarrow> TransactionIdPrecedes (subtrans x) x)"

text \<open>
  It counts as aborted when the log says so, or when it is a committed subtransaction whose parent is
  lost or counts as aborted.
\<close>

inductive tree_aborted :: "clog \<Rightarrow> (TransactionId \<Rightarrow> TransactionId) \<Rightarrow> TransactionId \<Rightarrow> TransactionId \<Rightarrow> bool"
  for clog subtrans lo where
  top: "log_status clog x = TRANSACTION_STATUS_ABORTED \<Longrightarrow> tree_aborted clog subtrans lo x"
| lost: "log_status clog x = TRANSACTION_STATUS_SUB_COMMITTED \<Longrightarrow>
    TransactionIdPrecedes x lo \<or> \<not> TransactionIdIsValid (SubTransGetParent subtrans x) \<Longrightarrow> tree_aborted clog subtrans lo x"
| sub: "log_status clog x = TRANSACTION_STATUS_SUB_COMMITTED \<Longrightarrow> tree_aborted clog subtrans lo (SubTransGetParent subtrans x) \<Longrightarrow>
    TransactionIdIsValid (SubTransGetParent subtrans x) \<Longrightarrow> tree_aborted clog subtrans lo x"

inductive_simps tree_aborted_iff: "tree_aborted clog subtrans lo x"

lemma parent_older:
  "parents_older subtrans \<Longrightarrow> TransactionIdIsNormal lo \<Longrightarrow> \<not> TransactionIdPrecedes x lo \<Longrightarrow>
    TransactionIdIsValid (SubTransGetParent subtrans x) \<Longrightarrow> TransactionIdPrecedes (SubTransGetParent subtrans x) x"
  using special_before_normal[of x lo] by (auto simp: parents_older_def SubTransGetParent_def)

lemma did_commit_tree:
  assumes "TransactionIdIsNormal lo" "parents_older subtrans"
  shows "TransactionIdIsValid x \<Longrightarrow> cache_ok clog c \<Longrightarrow>
    \<exists>c'. TransactionIdDidCommit clog subtrans lo x c = Some (tree_committed clog subtrans lo x, c') \<and> cache_ok clog c'"
  using assms(1)
proof (induction x arbitrary: c rule: parent_induct[where parent = "SubTransGetParent subtrans"])
  case (parent x)
  obtain st c1 where f: "TransactionLogFetch clog x c = (st, c1)" by fastforce
  then have st: "log_status clog x = st" and c1: "cache_ok clog c1" using log_fetch[OF parent(3,2)] by auto
  let ?p = "SubTransGetParent subtrans x"
  show ?case
  proof (cases "st = TRANSACTION_STATUS_SUB_COMMITTED \<and> \<not> TransactionIdPrecedes x lo \<and> TransactionIdIsValid ?p")
    case False
    then show ?thesis using st c1 f
      by (subst TransactionIdDidCommit.simps) (auto simp: tree_committed_iff[of clog subtrans lo x] Let_def)
  next
    case True
    have step: "TransactionIdDidCommit clog subtrans lo x c = TransactionIdDidCommit clog subtrans lo ?p c1"
      using True f by (subst TransactionIdDidCommit.simps) (simp add: Let_def)
    have tree: "tree_committed clog subtrans lo x = tree_committed clog subtrans lo ?p"
      using True st by (subst tree_committed_iff) auto
    show ?thesis
    proof (cases "TransactionIdPrecedes ?p lo")
      case False
      with parent(1)[of c1] True c1 parent_older[OF assms(2,1)] show ?thesis unfolding step tree by blast
    next
      case old: True
      obtain st' c2 where f': "TransactionLogFetch clog ?p c1 = (st', c2)" by fastforce
      then have "log_status clog ?p = st'" "cache_ok clog c2" using log_fetch[OF c1, of ?p] True by auto
      then show ?thesis unfolding step tree using old f'
        by (subst TransactionIdDidCommit.simps) (auto simp: tree_committed_iff[of clog subtrans lo ?p] Let_def)
    qed
  qed
qed

lemma did_abort_tree:
  assumes "TransactionIdIsNormal lo" "parents_older subtrans"
  shows "TransactionIdIsValid x \<Longrightarrow> cache_ok clog c \<Longrightarrow>
    \<exists>c'. TransactionIdDidAbort clog subtrans lo x c = Some (tree_aborted clog subtrans lo x, c') \<and> cache_ok clog c'"
  using assms(1)
proof (induction x arbitrary: c rule: parent_induct[where parent = "SubTransGetParent subtrans"])
  case (parent x)
  obtain st c1 where f: "TransactionLogFetch clog x c = (st, c1)" by fastforce
  then have st: "log_status clog x = st" and c1: "cache_ok clog c1" using log_fetch[OF parent(3,2)] by auto
  let ?p = "SubTransGetParent subtrans x"
  show ?case
  proof (cases "st = TRANSACTION_STATUS_SUB_COMMITTED \<and> \<not> TransactionIdPrecedes x lo \<and> TransactionIdIsValid ?p")
    case False
    then show ?thesis using st c1 f
      by (subst TransactionIdDidAbort.simps) (auto simp: tree_aborted_iff[of clog subtrans lo x] Let_def)
  next
    case True
    have step: "TransactionIdDidAbort clog subtrans lo x c = TransactionIdDidAbort clog subtrans lo ?p c1"
      using True f by (subst TransactionIdDidAbort.simps) (simp add: Let_def)
    have tree: "tree_aborted clog subtrans lo x = tree_aborted clog subtrans lo ?p"
      using True st by (subst tree_aborted_iff) auto
    show ?thesis
    proof (cases "TransactionIdPrecedes ?p lo")
      case False
      with parent(1)[of c1] True c1 parent_older[OF assms(2,1)] show ?thesis unfolding step tree by blast
    next
      case old: True
      obtain st' c2 where f': "TransactionLogFetch clog ?p c1 = (st', c2)" by fastforce
      then have "log_status clog ?p = st'" "cache_ok clog c2" using log_fetch[OF c1, of ?p] True by auto
      then show ?thesis unfolding step tree using old f'
        by (subst TransactionIdDidAbort.simps) (auto simp: tree_aborted_iff[of clog subtrans lo ?p] Let_def)
    qed
  qed
qed

lemma not_committed_and_aborted: "tree_committed clog subtrans lo x \<Longrightarrow> \<not> tree_aborted clog subtrans lo x"
  by (induction rule: tree_committed.induct) (auto elim: tree_aborted.cases)

section \<open>Advancing an id\<close>

abbreviation low_half :: "uint64 \<Rightarrow> TransactionId" where
  "low_half v \<equiv> ucast v"

declare full_advance_loop.simps [simp del] full_retreat_loop.simps [simp del] retreat_loop.simps [simp del]

lemma low_half_step: "low_half (v + 1) = low_half v + 1" "low_half (v - 1) = low_half v - 1"
  using low_half_add[of v 1] low_half_diff[of v 1] by simp_all

lemma full_loops_step:
  "low_half v < 3 \<Longrightarrow> full_advance_loop v = full_advance_loop (v + 1)" "low_half v < 3 \<Longrightarrow> full_retreat_loop v = full_retreat_loop (v - 1)"
  "\<not> low_half v < 3 \<Longrightarrow> full_advance_loop v = v" "\<not> low_half v < 3 \<Longrightarrow> full_retreat_loop v = v"
  by (simp_all add: full_advance_loop.simps[of v] full_retreat_loop.simps[of v] xid_consts)

lemma full_advance_loop_wrapped:
  assumes "low_half v = 0"
  shows "full_advance_loop v = v + 3"
proof -
  have low: "low_half (v + 1) = 1" "low_half (v + 1 + 1) = 2" "low_half (v + 1 + 1 + 1) = 3"
    unfolding low_half_step assms by simp_all
  have "full_advance_loop v = full_advance_loop (v + 1)" by (rule full_loops_step) (simp add: assms)
  also have "\<dots> = full_advance_loop (v + 1 + 1)" by (rule full_loops_step) (simp add: low(1))
  also have "\<dots> = full_advance_loop (v + 1 + 1 + 1)" by (rule full_loops_step) (use low(2) in simp)
  also have "\<dots> = v + 1 + 1 + 1" by (rule full_loops_step) (use low(3) in simp)
  finally show ?thesis by simp
qed

lemma full_retreat_loop_wrapped:
  assumes "low_half v = 2"
  shows "full_retreat_loop v = v - 3"
proof -
  have low: "low_half (v - 1) = 1" "low_half (v - 1 - 1) = 0" "low_half (v - 1 - 1 - 1) = - 1"
    unfolding low_half_step assms by simp_all
  have "full_retreat_loop v = full_retreat_loop (v - 1)" by (rule full_loops_step) (simp add: assms)
  also have "\<dots> = full_retreat_loop (v - 1 - 1)" by (rule full_loops_step) (simp add: low(1))
  also have "\<dots> = full_retreat_loop (v - 1 - 1 - 1)" by (rule full_loops_step) (use low(2) in simp)
  also have "\<dots> = v - 1 - 1 - 1" by (rule full_loops_step) (use low(3) in simp)
  finally show ?thesis by simp
qed

lemma low_half_small: "v < 3 \<Longrightarrow> low_half v < 3"
  by (simp add: word_less_nat_alt unsigned_ucast_eq take_bit_eq_mod)

lemma first_normal_full: "xid_value FirstNormalFullTransactionId = 3"
  by (simp add: FirstNormalFullTransactionId_def FullTransactionIdFromEpochAndXid_def xid_consts)

lemma word_inc: "(x :: TransactionId) \<noteq> - 1 \<Longrightarrow> x < x + 1"
proof -
  assume "x \<noteq> - 1"
  then have "1 + x \<noteq> 0" using eq_neg_iff_add_eq_0[of x 1] by (simp add: add.commute)
  then show ?thesis using unatSuc[of x] by (simp add: add.commute word_less_nat_alt)
qed

lemma full_advance_value:
  assumes "\<not> low_half (xid_value f) < 3" "xid_value f < - 4"
  shows "xid_value (FullTransactionIdAdvance f) = (if low_half (xid_value f) = - 1 then xid_value f + 4 else xid_value f + 1)"
proof -
  let ?v = "xid_value f"
  have "\<not> ?v < 3" using assms(1) low_half_small by blast
  then have v: "\<not> ?v + 1 < 3" using assms(2) by (auto simp: not_less word_le_nat_alt word_less_nat_alt unat_word_ariths)
  have "full_advance_loop (?v + 1) = (if low_half ?v = - 1 then ?v + 4 else ?v + 1)"
  proof (cases "low_half ?v = - 1")
    case True
    then have "low_half (?v + 1) = 0" unfolding low_half_step by simp
    then show ?thesis using full_advance_loop_wrapped[of "?v + 1"] True by (simp add: add.assoc)
  next
    case False
    have "low_half ?v < low_half ?v + 1" using word_inc[OF False] .
    then have "\<not> low_half (?v + 1) < 3" unfolding low_half_step using assms(1) by order
    then show ?thesis using False full_loops_step(3) by simp
  qed
  then show ?thesis using v by (simp add: FullTransactionIdAdvance_def FullTransactionIdPrecedes_def first_normal_full)
qed


lemma advance_id: "\<not> x < 3 \<Longrightarrow> TransactionIdAdvance x = (if x = - 1 then 3 else x + 1)"
  using word_inc[of x] unfolding TransactionIdAdvance_def Let_def xid_consts by (auto dest: order.strict_trans)

lemma full_advance:
  assumes "\<not> low_half (xid_value f) < 3" "xid_value f < - 4"
  shows "XidFromFullTransactionId (FullTransactionIdAdvance f) = TransactionIdAdvance (XidFromFullTransactionId f)"
    "FullTransactionIdPrecedes f (FullTransactionIdAdvance f)"
proof -
  show "XidFromFullTransactionId (FullTransactionIdAdvance f) = TransactionIdAdvance (XidFromFullTransactionId f)"
    using full_advance_value[OF assms] advance_id[OF assms(1)] low_half_add[of "xid_value f" 4] low_half_step(1)[of "xid_value f"]
    by (simp add: XidFromFullTransactionId_def)
  have "xid_value f < xid_value f + 1" "xid_value f < xid_value f + 4"
    using assms(2) by (simp_all add: word_less_nat_alt unat_word_ariths)
  then show "FullTransactionIdPrecedes f (FullTransactionIdAdvance f)"
    using full_advance_value[OF assms] by (simp add: FullTransactionIdPrecedes_def)
qed

lemma full_retreat_value:
  "\<not> xid_value f - 1 < 3 \<Longrightarrow> xid_value (FullTransactionIdRetreat f) = full_retreat_loop (xid_value f - 1)"
  by (simp add: FullTransactionIdRetreat_def FullTransactionIdPrecedes_def first_normal_full Let_def)

lemma full_retreat_advance:
  assumes "\<not> low_half (xid_value f) < 3" "xid_value f < - 4"
  shows "FullTransactionIdRetreat (FullTransactionIdAdvance f) = f"
proof -
  let ?v = "xid_value f" and ?a = "FullTransactionIdAdvance f"
  have v: "\<not> ?v < 3" using assms(1) low_half_small by blast
  have "xid_value (FullTransactionIdRetreat ?a) = ?v"
  proof (cases "low_half ?v = - 1")
    case True
    then have a: "xid_value ?a - 1 = ?v + 3" using full_advance_value[OF assms] by simp
    have "\<not> ?v + 3 < 3" using v assms(2) by (auto simp: not_less word_le_nat_alt word_less_nat_alt unat_word_ariths)
    moreover have "low_half (?v + 3) = 2" using low_half_add[of ?v 3] True by simp
    ultimately show ?thesis using full_retreat_value[of ?a] full_retreat_loop_wrapped[of "?v + 3"] a by simp
  next
    case False
    then have "xid_value ?a - 1 = ?v" using full_advance_value[OF assms] by simp
    then show ?thesis using full_retreat_value[of ?a] full_loops_step(4)[OF assms(1)] v by simp
  qed
  then show ?thesis by simp
qed

section \<open>Properties\<close>

text \<open>
  C25: transaction ids compare modulo \<open>2 ^ 32\<close> the way their 64-bit ids with epoch compare, as long as
  the two are less than \<open>2 ^ 31\<close> apart; and advancing the 32-bit id, which skips the special ids,
  gives the low half of the advanced 64-bit id, which is greater and leads back when retreated.
\<close>

theorem xid_comparison_window:
  assumes "TransactionIdIsNormal (XidFromFullTransactionId f)" "TransactionIdIsNormal (XidFromFullTransactionId g)"
    and "\<bar>uint (xid_value f) - uint (xid_value g)\<bar> < 2 ^ 31" "xid_value f < - 4"
  shows "TransactionIdPrecedes (XidFromFullTransactionId f) (XidFromFullTransactionId g) = FullTransactionIdPrecedes f g \<and>
    TransactionIdPrecedesOrEquals (XidFromFullTransactionId f) (XidFromFullTransactionId g) = (\<not> FullTransactionIdFollows f g) \<and>
    TransactionIdFollows (XidFromFullTransactionId f) (XidFromFullTransactionId g) = FullTransactionIdFollows f g \<and>
    TransactionIdFollowsOrEquals (XidFromFullTransactionId f) (XidFromFullTransactionId g) = (\<not> FullTransactionIdPrecedes f g) \<and>
    XidFromFullTransactionId (FullTransactionIdAdvance f) = TransactionIdAdvance (XidFromFullTransactionId f) \<and>
    FullTransactionIdPrecedes f (FullTransactionIdAdvance f) \<and> FullTransactionIdRetreat (FullTransactionIdAdvance f) = f"
proof -
  let ?x = "XidFromFullTransactionId f" and ?y = "XidFromFullTransactionId g"
  have "sint (?x - ?y) = uint (xid_value f) - uint (xid_value g)" by (rule xid_difference_sign[OF assms(1,2,3)])
  then have sign: "sint (?x - ?y) < 0 \<longleftrightarrow> xid_value f < xid_value g" "sint (?x - ?y) > 0 \<longleftrightarrow> xid_value f > xid_value g"
    by (auto simp: word_less_def)
  have low: "\<not> low_half (xid_value f) < 3"
    using assms(1) by (simp add: XidFromFullTransactionId_def xid_tests)
  show ?thesis
    using sign assms(1,2) full_advance[OF low assms(4)] full_retreat_advance[OF low assms(4)]
    by (auto simp: TransactionIdPrecedes_def TransactionIdPrecedesOrEquals_def TransactionIdFollows_def
        TransactionIdFollowsOrEquals_def FullTransactionIdPrecedes_def FullTransactionIdFollows_def)
qed

theorem xid_comparison_window_witness:
  "TransactionIdPrecedes (XidFromFullTransactionId \<lparr>xid_value = 0x1FFFFFFFF\<rparr>) (XidFromFullTransactionId \<lparr>xid_value = 0x200000005\<rparr>) =
      FullTransactionIdPrecedes \<lparr>xid_value = 0x1FFFFFFFF\<rparr> \<lparr>xid_value = 0x200000005\<rparr> \<and>
    FullTransactionIdPrecedes \<lparr>xid_value = 0x1FFFFFFFF\<rparr> \<lparr>xid_value = 0x200000005\<rparr>"
proof -
  have "TransactionIdIsNormal (XidFromFullTransactionId \<lparr>xid_value = 0x1FFFFFFFF\<rparr>)"
    "TransactionIdIsNormal (XidFromFullTransactionId \<lparr>xid_value = 0x200000005\<rparr>)"
    "FullTransactionIdPrecedes \<lparr>xid_value = 0x1FFFFFFFF\<rparr> \<lparr>xid_value = 0x200000005\<rparr>" by code_simp+
  then show ?thesis
    using xid_comparison_window[of "\<lparr>xid_value = 0x1FFFFFFFF\<rparr>" "\<lparr>xid_value = 0x200000005\<rparr>"] by simp
qed

text \<open>
  C26: \<open>SubTransGetTopmostTransaction\<close> returns for every content of the parent table, a corrupted
  one included: it visits ids within half the number space after the horizon only, and refuses a
  parent that does not precede its child. A result is an ancestor that precedes the horizon or has no
  parent.
\<close>

theorem subtrans_topmost_terminates:
  assumes "TransactionIdIsNormal TransactionXmin"
  shows "\<exists>r. SubTransGetTopmostTransaction subtrans TransactionXmin xid = Some r \<and>
    (\<forall>t. TransactionIdIsValid xid \<and> r = Inr t \<longrightarrow> (\<exists>k. (SubTransGetParent subtrans ^^ k) xid = t) \<and> TransactionIdIsValid t \<and>
      (TransactionIdPrecedes t TransactionXmin \<or> \<not> TransactionIdIsValid (SubTransGetParent subtrans t)))"
  unfolding SubTransGetTopmostTransaction_def by (rule topmost_loop_ends[OF assms])

theorem subtrans_topmost_terminates_witness:
  "\<exists>r. SubTransGetTopmostTransaction (\<lambda>x. if x = 12 then 11 else if x = 11 then 10 else 0) 5 12 = Some r \<and> r = Inr 10"
proof -
  have "SubTransGetTopmostTransaction (\<lambda>x. if x = 12 then 11 else if x = 11 then 10 else 0) 5 12 = Some (Inr 10)"
    by (simp add: SubTransGetTopmostTransaction_def topmost_loop.simps SubTransGetParent_def TransactionIdPrecedes_def xid_tests)
  moreover have "TransactionIdIsNormal 5" by code_simp
  ultimately show ?thesis using subtrans_topmost_terminates[of 5 "\<lambda>x. if x = 12 then 11 else if x = 11 then 10 else 0" 12] by auto
qed

text \<open>
  C27: whatever the one-entry cache holds, \<open>TransactionIdDidCommit\<close> and \<open>TransactionIdDidAbort\<close>
  return, and they tell the status the log gives along the chain of parents; never both hold. The
  cache stays consistent with the log, also when the log changes later, since it only keeps final
  entries.
\<close>

theorem transaction_status_correct:
  assumes "TransactionIdIsNormal TransactionXmin" "parents_older subtrans" "TransactionIdIsValid xid"
    and "cache_ok clog c" "clog_later clog clog'"
  shows "(\<exists>c'. TransactionIdDidCommit clog' subtrans TransactionXmin xid c = Some (tree_committed clog' subtrans TransactionXmin xid, c') \<and>
      cache_ok clog' c') \<and>
    (\<exists>c'. TransactionIdDidAbort clog' subtrans TransactionXmin xid c = Some (tree_aborted clog' subtrans TransactionXmin xid, c') \<and>
      cache_ok clog' c') \<and>
    \<not> (tree_committed clog' subtrans TransactionXmin xid \<and> tree_aborted clog' subtrans TransactionXmin xid)"
  using did_commit_tree[OF assms(1,2,3)] did_abort_tree[OF assms(1,2,3)] cache_ok_later[OF assms(4,5)]
    not_committed_and_aborted by blast

theorem transaction_status_correct_witness:
  "\<exists>c'. TransactionIdDidCommit (\<lambda>x. if x = 12 then (TRANSACTION_STATUS_SUB_COMMITTED, 0) else (TRANSACTION_STATUS_COMMITTED, 0))
      (\<lambda>x. if x = 12 then 10 else 0) 5 12 \<lparr>cachedFetchXid = 0, cachedFetchXidStatus = TRANSACTION_STATUS_IN_PROGRESS, cachedCommitLSN = 0\<rparr> =
    Some (tree_committed (\<lambda>x. if x = 12 then (TRANSACTION_STATUS_SUB_COMMITTED, 0) else (TRANSACTION_STATUS_COMMITTED, 0))
      (\<lambda>x. if x = 12 then 10 else 0) 5 12, c')"
proof -
  have n: "TransactionIdIsNormal 5" by code_simp
  have p: "parents_older (\<lambda>x. if x = 12 then 10 else 0)"
    by (simp add: parents_older_def TransactionIdPrecedes_def xid_tests)
  have v: "TransactionIdIsValid 12" by code_simp
  have c: "cache_ok (\<lambda>x. if x = 12 then (TRANSACTION_STATUS_SUB_COMMITTED, 0) else (TRANSACTION_STATUS_COMMITTED, 0))
      \<lparr>cachedFetchXid = 0, cachedFetchXidStatus = TRANSACTION_STATUS_IN_PROGRESS, cachedCommitLSN = 0\<rparr>"
    by (simp add: cache_ok_def xid_tests)
  have l: "clog_later clog clog" for clog by (simp add: clog_later_def)
  show ?thesis using transaction_status_correct[OF n p v c l] by blast
qed

end
