(* ===== verification/HeapVisibility.thy ===== *)
theory HeapVisibility
  imports Transam
begin

text \<open>
  Which tuples a snapshot sees (\<open>access/heap/heapam_visibility.c\<close>, with the macros of
  \<open>access/htup_details.h\<close> and the snapshot test of \<open>utils/time/snapmgr.c\<close>). The functions look at the
  header of a tuple, ask the rest of the server about transactions, and may set hint bits in the
  header. What the server answers is a record of functions; the header that the function leaves
  behind is part of its result.
\<close>

section \<open>Tuple headers\<close>

type_synonym CommandId = uint32
type_synonym ItemPointer = "uint32 \<times> uint16"

definition InvalidCommandId :: CommandId where "InvalidCommandId = - 1"
definition SpecTokenOffsetNumber :: uint16 where "SpecTokenOffsetNumber = 0xfffe"

record HeapTupleHeader =
  t_xmin :: TransactionId
  t_xmax :: TransactionId
  t_field3 :: uint32
  t_ctid :: ItemPointer
  t_infomask :: uint16

record HeapTuple =
  t_self :: ItemPointer
  t_data :: HeapTupleHeader

definition HEAP_XMAX_KEYSHR_LOCK :: uint16 where "HEAP_XMAX_KEYSHR_LOCK = 0x0010"
definition HEAP_COMBOCID :: uint16 where "HEAP_COMBOCID = 0x0020"
definition HEAP_XMAX_EXCL_LOCK :: uint16 where "HEAP_XMAX_EXCL_LOCK = 0x0040"
definition HEAP_XMAX_LOCK_ONLY :: uint16 where "HEAP_XMAX_LOCK_ONLY = 0x0080"
definition HEAP_XMAX_SHR_LOCK :: uint16 where "HEAP_XMAX_SHR_LOCK = HEAP_XMAX_EXCL_LOCK OR HEAP_XMAX_KEYSHR_LOCK"
definition HEAP_LOCK_MASK :: uint16 where "HEAP_LOCK_MASK = HEAP_XMAX_SHR_LOCK OR HEAP_XMAX_EXCL_LOCK OR HEAP_XMAX_KEYSHR_LOCK"
definition HEAP_XMIN_COMMITTED :: uint16 where "HEAP_XMIN_COMMITTED = 0x0100"
definition HEAP_XMIN_INVALID :: uint16 where "HEAP_XMIN_INVALID = 0x0200"
definition HEAP_XMIN_FROZEN :: uint16 where "HEAP_XMIN_FROZEN = HEAP_XMIN_COMMITTED OR HEAP_XMIN_INVALID"
definition HEAP_XMAX_COMMITTED :: uint16 where "HEAP_XMAX_COMMITTED = 0x0400"
definition HEAP_XMAX_INVALID :: uint16 where "HEAP_XMAX_INVALID = 0x0800"
definition HEAP_XMAX_IS_MULTI :: uint16 where "HEAP_XMAX_IS_MULTI = 0x1000"
definition HEAP_MOVED_OFF :: uint16 where "HEAP_MOVED_OFF = 0x4000"
definition HEAP_MOVED_IN :: uint16 where "HEAP_MOVED_IN = 0x8000"
definition HEAP_MOVED :: uint16 where "HEAP_MOVED = HEAP_MOVED_OFF OR HEAP_MOVED_IN"

text \<open>The C test \<open>t_infomask & mask\<close>.\<close>

definition has :: "HeapTupleHeader \<Rightarrow> uint16 \<Rightarrow> bool" where
  "has tup msk = ((t_infomask tup AND msk) \<noteq> 0)"

definition HEAP_XMAX_IS_LOCKED_ONLY :: "uint16 \<Rightarrow> bool" where
  "HEAP_XMAX_IS_LOCKED_ONLY infomask =
     ((infomask AND HEAP_XMAX_LOCK_ONLY) \<noteq> 0 \<or>
      (infomask AND (HEAP_XMAX_IS_MULTI OR HEAP_LOCK_MASK)) = HEAP_XMAX_EXCL_LOCK)"

definition HEAP_LOCKED_UPGRADED :: "uint16 \<Rightarrow> bool" where
  "HEAP_LOCKED_UPGRADED infomask =
     ((infomask AND HEAP_XMAX_IS_MULTI) \<noteq> 0 \<and> (infomask AND HEAP_XMAX_LOCK_ONLY) \<noteq> 0 \<and>
      (infomask AND (HEAP_XMAX_EXCL_LOCK OR HEAP_XMAX_KEYSHR_LOCK)) = 0)"

definition HeapTupleHeaderGetRawXmin :: "HeapTupleHeader \<Rightarrow> TransactionId" where
  "HeapTupleHeaderGetRawXmin tup = t_xmin tup"

definition HeapTupleHeaderGetRawXmax :: "HeapTupleHeader \<Rightarrow> TransactionId" where
  "HeapTupleHeaderGetRawXmax tup = t_xmax tup"

definition HeapTupleHeaderXminCommitted :: "HeapTupleHeader \<Rightarrow> bool" where
  "HeapTupleHeaderXminCommitted tup = ((t_infomask tup AND HEAP_XMIN_COMMITTED) \<noteq> 0)"

definition HeapTupleHeaderXminInvalid :: "HeapTupleHeader \<Rightarrow> bool" where
  "HeapTupleHeaderXminInvalid tup = ((t_infomask tup AND (HEAP_XMIN_COMMITTED OR HEAP_XMIN_INVALID)) = HEAP_XMIN_INVALID)"

definition HeapTupleHeaderXminFrozen :: "HeapTupleHeader \<Rightarrow> bool" where
  "HeapTupleHeaderXminFrozen tup = ((t_infomask tup AND HEAP_XMIN_FROZEN) = HEAP_XMIN_FROZEN)"

definition HeapTupleHeaderGetXmin :: "HeapTupleHeader \<Rightarrow> TransactionId" where
  "HeapTupleHeaderGetXmin tup =
     (if HeapTupleHeaderXminFrozen tup then FrozenTransactionId else HeapTupleHeaderGetRawXmin tup)"

definition HeapTupleHeaderGetRawCommandId :: "HeapTupleHeader \<Rightarrow> CommandId" where
  "HeapTupleHeaderGetRawCommandId tup = t_field3 tup"

definition HeapTupleHeaderGetXvac :: "HeapTupleHeader \<Rightarrow> TransactionId" where
  "HeapTupleHeaderGetXvac tup = (if has tup HEAP_MOVED then t_field3 tup else InvalidTransactionId)"

definition HeapTupleHeaderIsSpeculative :: "HeapTupleHeader \<Rightarrow> bool" where
  "HeapTupleHeaderIsSpeculative tup = (snd (t_ctid tup) = SpecTokenOffsetNumber)"

definition HeapTupleHeaderGetSpeculativeToken :: "HeapTupleHeader \<Rightarrow> uint32" where
  "HeapTupleHeaderGetSpeculativeToken tup = fst (t_ctid tup)"

definition ItemPointerEquals :: "ItemPointer \<Rightarrow> ItemPointer \<Rightarrow> bool" where
  "ItemPointerEquals pointer1 pointer2 = (fst pointer1 = fst pointer2 \<and> snd pointer1 = snd pointer2)"

section \<open>What the server knows\<close>

datatype MultiXactStatus = MultiXactStatusForKeyShare | MultiXactStatusForShare | MultiXactStatusForNoKeyUpdate
  | MultiXactStatusForUpdate | MultiXactStatusNoKeyUpdate | MultiXactStatusUpdate

definition ISUPDATE_from_mxstatus :: "MultiXactStatus \<Rightarrow> bool" where
  "ISUPDATE_from_mxstatus status = (status = MultiXactStatusNoKeyUpdate \<or> status = MultiXactStatusUpdate)"

text \<open>
  The answers to the questions that the functions ask: whether an id belongs to the current
  transaction, is still in progress, did commit; its topmost parent; the position of its commit record
  and whether the log is flushed up to a position; the members of a group of transactions; the
  command ids behind a combo command id, or recorded by logical decoding.
\<close>

record xact_view =
  is_current :: "TransactionId \<Rightarrow> bool"
  in_progress :: "TransactionId \<Rightarrow> bool"
  did_commit :: "TransactionId \<Rightarrow> bool"
  topmost :: "TransactionId \<Rightarrow> TransactionId"
  commit_lsn :: "TransactionId \<Rightarrow> XLogRecPtr"
  needs_flush :: "XLogRecPtr \<Rightarrow> bool"
  multi_members :: "TransactionId \<Rightarrow> (TransactionId \<times> MultiXactStatus) list"
  real_cmin :: "CommandId \<Rightarrow> CommandId"
  real_cmax :: "CommandId \<Rightarrow> CommandId"
  tuple_cids :: "HeapTuple \<Rightarrow> (CommandId \<times> CommandId) option"

record Buffer =
  permanent :: bool
  page_lsn :: XLogRecPtr

fun update_xid_loop :: "(TransactionId \<times> MultiXactStatus) list \<Rightarrow> TransactionId" where
  "update_xid_loop [] = InvalidTransactionId"
| "update_xid_loop ((xid, status) # members) = (if \<not> ISUPDATE_from_mxstatus status then update_xid_loop members else xid)"

definition HeapTupleGetUpdateXid :: "xact_view \<Rightarrow> HeapTupleHeader \<Rightarrow> TransactionId" where
  "HeapTupleGetUpdateXid v tup = update_xid_loop (multi_members v (HeapTupleHeaderGetRawXmax tup))"

definition HeapTupleHeaderGetUpdateXid :: "xact_view \<Rightarrow> HeapTupleHeader \<Rightarrow> TransactionId" where
  "HeapTupleHeaderGetUpdateXid v tup =
     (if \<not> has tup HEAP_XMAX_INVALID \<and> has tup HEAP_XMAX_IS_MULTI \<and> \<not> has tup HEAP_XMAX_LOCK_ONLY
      then HeapTupleGetUpdateXid v tup else HeapTupleHeaderGetRawXmax tup)"

definition MultiXactIdIsRunning :: "xact_view \<Rightarrow> TransactionId \<Rightarrow> bool" where
  "MultiXactIdIsRunning v multi =
     (let members = multi_members v multi in
      if members = [] then False
      else if list_ex (\<lambda>(xid, _). is_current v xid) members then True
      else list_ex (\<lambda>(xid, _). in_progress v xid) members)"

definition HeapTupleHeaderGetCmin :: "xact_view \<Rightarrow> HeapTupleHeader \<Rightarrow> CommandId" where
  "HeapTupleHeaderGetCmin v tup =
     (let cid = HeapTupleHeaderGetRawCommandId tup in if has tup HEAP_COMBOCID then real_cmin v cid else cid)"

definition HeapTupleHeaderGetCmax :: "xact_view \<Rightarrow> HeapTupleHeader \<Rightarrow> CommandId" where
  "HeapTupleHeaderGetCmax v tup =
     (let cid = HeapTupleHeaderGetRawCommandId tup in if has tup HEAP_COMBOCID then real_cmax v cid else cid)"

section \<open>Snapshots\<close>

datatype SnapshotType = SNAPSHOT_MVCC | SNAPSHOT_SELF | SNAPSHOT_ANY | SNAPSHOT_TOAST | SNAPSHOT_DIRTY
  | SNAPSHOT_HISTORIC_MVCC | SNAPSHOT_NON_VACUUMABLE

text \<open>The horizon test of a snapshot is kept as the function that answers it.\<close>

record Snapshot =
  snapshot_type :: SnapshotType
  snap_xmin :: TransactionId
  snap_xmax :: TransactionId
  xip :: "TransactionId list"
  subxip :: "TransactionId list"
  suboverflowed :: bool
  takenDuringRecovery :: bool
  curcid :: CommandId
  speculativeToken :: uint32
  vistest :: "TransactionId \<Rightarrow> bool"

fun pg_lfind32 :: "uint32 \<Rightarrow> uint32 list \<Rightarrow> bool" where
  "pg_lfind32 key [] = False"
| "pg_lfind32 key (x # xs) = (if key = x then True else pg_lfind32 key xs)"

definition XidInMVCCSnapshot :: "xact_view \<Rightarrow> TransactionId \<Rightarrow> Snapshot \<Rightarrow> bool" where
  "XidInMVCCSnapshot v xid snapshot =
     (if TransactionIdPrecedes xid (snap_xmin snapshot) then False
      else if TransactionIdFollowsOrEquals xid (snap_xmax snapshot) then True
      else if \<not> takenDuringRecovery snapshot then
        if \<not> suboverflowed snapshot then
          if pg_lfind32 xid (subxip snapshot) then True else pg_lfind32 xid (xip snapshot)
        else let xid = topmost v xid in
          if TransactionIdPrecedes xid (snap_xmin snapshot) then False else pg_lfind32 xid (xip snapshot)
      else if suboverflowed snapshot then
        let xid = topmost v xid in
          if TransactionIdPrecedes xid (snap_xmin snapshot) then False else pg_lfind32 xid (subxip snapshot)
      else pg_lfind32 xid (subxip snapshot))"

section \<open>Hint bits\<close>

definition SetHintBits :: "xact_view \<Rightarrow> Buffer \<Rightarrow> uint16 \<Rightarrow> TransactionId \<Rightarrow> HeapTupleHeader \<Rightarrow> HeapTupleHeader" where
  "SetHintBits v buffer infomask xid tuple =
     (if TransactionIdIsValid xid \<and>
         (let commitLSN = commit_lsn v xid in
          permanent buffer \<and> needs_flush v commitLSN \<and> page_lsn buffer < commitLSN)
      then tuple else tuple\<lparr>t_infomask := t_infomask tuple OR infomask\<rparr>)"

definition HeapTupleSetHintBits :: "xact_view \<Rightarrow> Buffer \<Rightarrow> uint16 \<Rightarrow> TransactionId \<Rightarrow> HeapTupleHeader \<Rightarrow> HeapTupleHeader" where
  "HeapTupleSetHintBits v buffer infomask xid tuple = SetHintBits v buffer infomask xid tuple"

text \<open>
  The checks for tuples moved by an old VACUUM FULL, which most of the functions have. The functions
  return early or go on with the tuple: \<open>Inl\<close> is the result and the header of an early return, \<open>Inr\<close>
  the header with which the function continues.
\<close>

definition moved_off_check :: "(TransactionId \<Rightarrow> bool) \<Rightarrow> xact_view \<Rightarrow> Buffer \<Rightarrow> 'r \<Rightarrow> HeapTupleHeader \<Rightarrow> ('r \<times> HeapTupleHeader) + HeapTupleHeader" where
  "moved_off_check running v buffer unseen tuple =
     (let xvac = HeapTupleHeaderGetXvac tuple in
      if is_current v xvac then Inl (unseen, tuple)
      else if \<not> running xvac then
        if did_commit v xvac then Inl (unseen, SetHintBits v buffer HEAP_XMIN_INVALID InvalidTransactionId tuple)
        else Inr (SetHintBits v buffer HEAP_XMIN_COMMITTED InvalidTransactionId tuple)
      else Inr tuple)"

definition moved_in_check :: "(TransactionId \<Rightarrow> bool) \<Rightarrow> xact_view \<Rightarrow> Buffer \<Rightarrow> 'r \<Rightarrow> HeapTupleHeader \<Rightarrow> ('r \<times> HeapTupleHeader) + HeapTupleHeader" where
  "moved_in_check running v buffer unseen tuple =
     (let xvac = HeapTupleHeaderGetXvac tuple in
      if \<not> is_current v xvac then
        if running xvac then Inl (unseen, tuple)
        else if did_commit v xvac then Inr (SetHintBits v buffer HEAP_XMIN_COMMITTED InvalidTransactionId tuple)
        else Inl (unseen, SetHintBits v buffer HEAP_XMIN_INVALID InvalidTransactionId tuple)
      else Inr tuple)"

section \<open>Visible to itself\<close>

definition self_own_insert :: "xact_view \<Rightarrow> Buffer \<Rightarrow> HeapTupleHeader \<Rightarrow> bool \<times> HeapTupleHeader" where
  "self_own_insert v buffer tuple =
     (if has tuple HEAP_XMAX_INVALID then (True, tuple)
      else if HEAP_XMAX_IS_LOCKED_ONLY (t_infomask tuple) then (True, tuple)
      else if has tuple HEAP_XMAX_IS_MULTI then
        let xmax = HeapTupleGetUpdateXid v tuple in
        if \<not> is_current v xmax then (True, tuple) else (False, tuple)
      else if \<not> is_current v (HeapTupleHeaderGetRawXmax tuple)
      then (True, SetHintBits v buffer HEAP_XMAX_INVALID InvalidTransactionId tuple)
      else (False, tuple))"

definition self_xmin :: "xact_view \<Rightarrow> Buffer \<Rightarrow> HeapTupleHeader \<Rightarrow> (bool \<times> HeapTupleHeader) + HeapTupleHeader" where
  "self_xmin v buffer tuple =
     (if \<not> HeapTupleHeaderXminCommitted tuple then
        if HeapTupleHeaderXminInvalid tuple then Inl (False, tuple)
        else if has tuple HEAP_MOVED_OFF then moved_off_check (in_progress v) v buffer False tuple
        else if has tuple HEAP_MOVED_IN then moved_in_check (in_progress v) v buffer False tuple
        else if is_current v (HeapTupleHeaderGetRawXmin tuple) then Inl (self_own_insert v buffer tuple)
        else if in_progress v (HeapTupleHeaderGetRawXmin tuple) then Inl (False, tuple)
        else if did_commit v (HeapTupleHeaderGetRawXmin tuple)
        then Inr (SetHintBits v buffer HEAP_XMIN_COMMITTED (HeapTupleHeaderGetRawXmin tuple) tuple)
        else Inl (False, SetHintBits v buffer HEAP_XMIN_INVALID InvalidTransactionId tuple)
      else Inr tuple)"

definition self_xmax :: "xact_view \<Rightarrow> Buffer \<Rightarrow> HeapTupleHeader \<Rightarrow> bool \<times> HeapTupleHeader" where
  "self_xmax v buffer tuple =
     (if has tuple HEAP_XMAX_INVALID then (True, tuple)
      else if has tuple HEAP_XMAX_COMMITTED then
        if HEAP_XMAX_IS_LOCKED_ONLY (t_infomask tuple) then (True, tuple) else (False, tuple)
      else if has tuple HEAP_XMAX_IS_MULTI then
        if HEAP_XMAX_IS_LOCKED_ONLY (t_infomask tuple) then (True, tuple)
        else let xmax = HeapTupleGetUpdateXid v tuple in
          if is_current v xmax then (False, tuple)
          else if in_progress v xmax then (True, tuple)
          else if did_commit v xmax then (False, tuple)
          else (True, tuple)
      else if is_current v (HeapTupleHeaderGetRawXmax tuple) then
        if HEAP_XMAX_IS_LOCKED_ONLY (t_infomask tuple) then (True, tuple) else (False, tuple)
      else if in_progress v (HeapTupleHeaderGetRawXmax tuple) then (True, tuple)
      else if \<not> did_commit v (HeapTupleHeaderGetRawXmax tuple)
      then (True, SetHintBits v buffer HEAP_XMAX_INVALID InvalidTransactionId tuple)
      else if HEAP_XMAX_IS_LOCKED_ONLY (t_infomask tuple)
      then (True, SetHintBits v buffer HEAP_XMAX_INVALID InvalidTransactionId tuple)
      else (False, SetHintBits v buffer HEAP_XMAX_COMMITTED (HeapTupleHeaderGetRawXmax tuple) tuple))"

definition HeapTupleSatisfiesSelf :: "xact_view \<Rightarrow> Buffer \<Rightarrow> HeapTuple \<Rightarrow> bool \<times> HeapTupleHeader" where
  "HeapTupleSatisfiesSelf v buffer htup =
     (case self_xmin v buffer (t_data htup) of Inl r \<Rightarrow> r | Inr tuple \<Rightarrow> self_xmax v buffer tuple)"

definition HeapTupleSatisfiesAny :: "HeapTuple \<Rightarrow> bool \<times> HeapTupleHeader" where
  "HeapTupleSatisfiesAny htup = (True, t_data htup)"

definition HeapTupleSatisfiesToast :: "xact_view \<Rightarrow> Buffer \<Rightarrow> HeapTuple \<Rightarrow> bool \<times> HeapTupleHeader" where
  "HeapTupleSatisfiesToast v buffer htup =
     (let tuple = t_data htup in
      case (if \<not> HeapTupleHeaderXminCommitted tuple then
              if HeapTupleHeaderXminInvalid tuple then Inl (False, tuple)
              else if has tuple HEAP_MOVED_OFF then moved_off_check (in_progress v) v buffer False tuple
              else if has tuple HEAP_MOVED_IN then moved_in_check (in_progress v) v buffer False tuple
              else if \<not> TransactionIdIsValid (HeapTupleHeaderGetXmin tuple) then Inl (False, tuple)
              else Inr tuple
            else Inr tuple) of
        Inl r \<Rightarrow> r
      | Inr tuple \<Rightarrow> (True, tuple))"

section \<open>May it be updated\<close>

datatype TM_Result = TM_Ok | TM_Invisible | TM_SelfModified | TM_Updated | TM_Deleted | TM_BeingModified | TM_WouldBlock

definition update_own_insert :: "xact_view \<Rightarrow> Buffer \<Rightarrow> CommandId \<Rightarrow> HeapTupleHeader \<Rightarrow> TM_Result \<times> HeapTupleHeader" where
  "update_own_insert v buffer cid tuple =
     (if HeapTupleHeaderGetCmin v tuple \<ge> cid then (TM_Invisible, tuple)
      else if has tuple HEAP_XMAX_INVALID then (TM_Ok, tuple)
      else if HEAP_XMAX_IS_LOCKED_ONLY (t_infomask tuple) then
        let xmax = HeapTupleHeaderGetRawXmax tuple in
        if has tuple HEAP_XMAX_IS_MULTI then
          if MultiXactIdIsRunning v xmax then (TM_BeingModified, tuple) else (TM_Ok, tuple)
        else if \<not> in_progress v xmax then (TM_Ok, tuple)
        else (TM_BeingModified, tuple)
      else if has tuple HEAP_XMAX_IS_MULTI then
        let xmax = HeapTupleGetUpdateXid v tuple in
        if \<not> is_current v xmax then
          if MultiXactIdIsRunning v (HeapTupleHeaderGetRawXmax tuple) then (TM_BeingModified, tuple) else (TM_Ok, tuple)
        else if HeapTupleHeaderGetCmax v tuple \<ge> cid then (TM_SelfModified, tuple)
        else (TM_Invisible, tuple)
      else if \<not> is_current v (HeapTupleHeaderGetRawXmax tuple)
      then (TM_Ok, SetHintBits v buffer HEAP_XMAX_INVALID InvalidTransactionId tuple)
      else if HeapTupleHeaderGetCmax v tuple \<ge> cid then (TM_SelfModified, tuple)
      else (TM_Invisible, tuple))"

definition update_xmin :: "xact_view \<Rightarrow> Buffer \<Rightarrow> CommandId \<Rightarrow> HeapTupleHeader \<Rightarrow> (TM_Result \<times> HeapTupleHeader) + HeapTupleHeader" where
  "update_xmin v buffer cid tuple =
     (if \<not> HeapTupleHeaderXminCommitted tuple then
        if HeapTupleHeaderXminInvalid tuple then Inl (TM_Invisible, tuple)
        else if has tuple HEAP_MOVED_OFF then moved_off_check (in_progress v) v buffer TM_Invisible tuple
        else if has tuple HEAP_MOVED_IN then moved_in_check (in_progress v) v buffer TM_Invisible tuple
        else if is_current v (HeapTupleHeaderGetRawXmin tuple) then Inl (update_own_insert v buffer cid tuple)
        else if in_progress v (HeapTupleHeaderGetRawXmin tuple) then Inl (TM_Invisible, tuple)
        else if did_commit v (HeapTupleHeaderGetRawXmin tuple)
        then Inr (SetHintBits v buffer HEAP_XMIN_COMMITTED (HeapTupleHeaderGetRawXmin tuple) tuple)
        else Inl (TM_Invisible, SetHintBits v buffer HEAP_XMIN_INVALID InvalidTransactionId tuple)
      else Inr tuple)"

definition updated_or_deleted :: "ItemPointer \<Rightarrow> HeapTupleHeader \<Rightarrow> TM_Result" where
  "updated_or_deleted self tuple = (if \<not> ItemPointerEquals self (t_ctid tuple) then TM_Updated else TM_Deleted)"

definition update_multi :: "xact_view \<Rightarrow> Buffer \<Rightarrow> CommandId \<Rightarrow> ItemPointer \<Rightarrow> HeapTupleHeader \<Rightarrow> TM_Result \<times> HeapTupleHeader" where
  "update_multi v buffer cid self tuple =
     (if HEAP_LOCKED_UPGRADED (t_infomask tuple) then (TM_Ok, tuple)
      else if HEAP_XMAX_IS_LOCKED_ONLY (t_infomask tuple) then
        if MultiXactIdIsRunning v (HeapTupleHeaderGetRawXmax tuple) then (TM_BeingModified, tuple)
        else (TM_Ok, SetHintBits v buffer HEAP_XMAX_INVALID InvalidTransactionId tuple)
      else let xmax = HeapTupleGetUpdateXid v tuple in
        if \<not> TransactionIdIsValid xmax \<and> MultiXactIdIsRunning v (HeapTupleHeaderGetRawXmax tuple)
        then (TM_BeingModified, tuple)
        else if is_current v xmax then
          if HeapTupleHeaderGetCmax v tuple \<ge> cid then (TM_SelfModified, tuple) else (TM_Invisible, tuple)
        else if MultiXactIdIsRunning v (HeapTupleHeaderGetRawXmax tuple) then (TM_BeingModified, tuple)
        else if did_commit v xmax then (updated_or_deleted self tuple, tuple)
        else if \<not> MultiXactIdIsRunning v (HeapTupleHeaderGetRawXmax tuple)
        then (TM_Ok, SetHintBits v buffer HEAP_XMAX_INVALID InvalidTransactionId tuple)
        else (TM_BeingModified, tuple))"

definition update_xmax :: "xact_view \<Rightarrow> Buffer \<Rightarrow> CommandId \<Rightarrow> ItemPointer \<Rightarrow> HeapTupleHeader \<Rightarrow> TM_Result \<times> HeapTupleHeader" where
  "update_xmax v buffer cid self tuple =
     (if has tuple HEAP_XMAX_INVALID then (TM_Ok, tuple)
      else if has tuple HEAP_XMAX_COMMITTED then
        if HEAP_XMAX_IS_LOCKED_ONLY (t_infomask tuple) then (TM_Ok, tuple)
        else (updated_or_deleted self tuple, tuple)
      else if has tuple HEAP_XMAX_IS_MULTI then update_multi v buffer cid self tuple
      else if is_current v (HeapTupleHeaderGetRawXmax tuple) then
        if HEAP_XMAX_IS_LOCKED_ONLY (t_infomask tuple) then (TM_BeingModified, tuple)
        else if HeapTupleHeaderGetCmax v tuple \<ge> cid then (TM_SelfModified, tuple)
        else (TM_Invisible, tuple)
      else if in_progress v (HeapTupleHeaderGetRawXmax tuple) then (TM_BeingModified, tuple)
      else if \<not> did_commit v (HeapTupleHeaderGetRawXmax tuple)
      then (TM_Ok, SetHintBits v buffer HEAP_XMAX_INVALID InvalidTransactionId tuple)
      else if HEAP_XMAX_IS_LOCKED_ONLY (t_infomask tuple)
      then (TM_Ok, SetHintBits v buffer HEAP_XMAX_INVALID InvalidTransactionId tuple)
      else let tuple = SetHintBits v buffer HEAP_XMAX_COMMITTED (HeapTupleHeaderGetRawXmax tuple) tuple in
        (updated_or_deleted self tuple, tuple))"

definition HeapTupleSatisfiesUpdate :: "xact_view \<Rightarrow> Buffer \<Rightarrow> CommandId \<Rightarrow> HeapTuple \<Rightarrow> TM_Result \<times> HeapTupleHeader" where
  "HeapTupleSatisfiesUpdate v buffer cid htup =
     (case update_xmin v buffer cid (t_data htup) of
        Inl r \<Rightarrow> r
      | Inr tuple \<Rightarrow> update_xmax v buffer cid (t_self htup) tuple)"

section \<open>Visible with open transactions\<close>

text \<open>
  The function also writes the ids of open transactions that affect the tuple into the snapshot. The
  result is the answer, the header and the snapshot.
\<close>

definition dirty_xmin :: "xact_view \<Rightarrow> Buffer \<Rightarrow> Snapshot \<Rightarrow> HeapTupleHeader \<Rightarrow> (bool \<times> HeapTupleHeader \<times> Snapshot) + HeapTupleHeader" where
  "dirty_xmin v buffer snapshot tuple =
     (let with_snapshot = map_sum (\<lambda>(r, t). (r, t, snapshot)) id in
      if \<not> HeapTupleHeaderXminCommitted tuple then
        if HeapTupleHeaderXminInvalid tuple then Inl (False, tuple, snapshot)
        else if has tuple HEAP_MOVED_OFF then with_snapshot (moved_off_check (in_progress v) v buffer False tuple)
        else if has tuple HEAP_MOVED_IN then with_snapshot (moved_in_check (in_progress v) v buffer False tuple)
        else if is_current v (HeapTupleHeaderGetRawXmin tuple) then with_snapshot (Inl (self_own_insert v buffer tuple))
        else if in_progress v (HeapTupleHeaderGetRawXmin tuple) then
          let snapshot = (if HeapTupleHeaderIsSpeculative tuple
                          then snapshot\<lparr>speculativeToken := HeapTupleHeaderGetSpeculativeToken tuple\<rparr> else snapshot)
          in Inl (True, tuple, snapshot\<lparr>snap_xmin := HeapTupleHeaderGetRawXmin tuple\<rparr>)
        else if did_commit v (HeapTupleHeaderGetRawXmin tuple)
        then Inr (SetHintBits v buffer HEAP_XMIN_COMMITTED (HeapTupleHeaderGetRawXmin tuple) tuple)
        else Inl (False, SetHintBits v buffer HEAP_XMIN_INVALID InvalidTransactionId tuple, snapshot)
      else Inr tuple)"

definition dirty_xmax :: "xact_view \<Rightarrow> Buffer \<Rightarrow> Snapshot \<Rightarrow> HeapTupleHeader \<Rightarrow> bool \<times> HeapTupleHeader \<times> Snapshot" where
  "dirty_xmax v buffer snapshot tuple =
     (if has tuple HEAP_XMAX_INVALID then (True, tuple, snapshot)
      else if has tuple HEAP_XMAX_COMMITTED then
        if HEAP_XMAX_IS_LOCKED_ONLY (t_infomask tuple) then (True, tuple, snapshot) else (False, tuple, snapshot)
      else if has tuple HEAP_XMAX_IS_MULTI then
        if HEAP_XMAX_IS_LOCKED_ONLY (t_infomask tuple) then (True, tuple, snapshot)
        else let xmax = HeapTupleGetUpdateXid v tuple in
          if is_current v xmax then (False, tuple, snapshot)
          else if in_progress v xmax then (True, tuple, snapshot\<lparr>snap_xmax := xmax\<rparr>)
          else if did_commit v xmax then (False, tuple, snapshot)
          else (True, tuple, snapshot)
      else if is_current v (HeapTupleHeaderGetRawXmax tuple) then
        if HEAP_XMAX_IS_LOCKED_ONLY (t_infomask tuple) then (True, tuple, snapshot) else (False, tuple, snapshot)
      else if in_progress v (HeapTupleHeaderGetRawXmax tuple) then
        (True, tuple, if \<not> HEAP_XMAX_IS_LOCKED_ONLY (t_infomask tuple)
           then snapshot\<lparr>snap_xmax := HeapTupleHeaderGetRawXmax tuple\<rparr> else snapshot)
      else if \<not> did_commit v (HeapTupleHeaderGetRawXmax tuple)
      then (True, SetHintBits v buffer HEAP_XMAX_INVALID InvalidTransactionId tuple, snapshot)
      else if HEAP_XMAX_IS_LOCKED_ONLY (t_infomask tuple)
      then (True, SetHintBits v buffer HEAP_XMAX_INVALID InvalidTransactionId tuple, snapshot)
      else (False, SetHintBits v buffer HEAP_XMAX_COMMITTED (HeapTupleHeaderGetRawXmax tuple) tuple, snapshot))"

definition HeapTupleSatisfiesDirty :: "xact_view \<Rightarrow> Buffer \<Rightarrow> Snapshot \<Rightarrow> HeapTuple \<Rightarrow> bool \<times> HeapTupleHeader \<times> Snapshot" where
  "HeapTupleSatisfiesDirty v buffer snapshot htup =
     (let snapshot = snapshot\<lparr>snap_xmin := InvalidTransactionId, snap_xmax := InvalidTransactionId, speculativeToken := 0\<rparr> in
      case dirty_xmin v buffer snapshot (t_data htup) of
        Inl r \<Rightarrow> r
      | Inr tuple \<Rightarrow> dirty_xmax v buffer snapshot tuple)"

section \<open>Visible to a snapshot\<close>

definition mvcc_own_insert :: "xact_view \<Rightarrow> Buffer \<Rightarrow> Snapshot \<Rightarrow> HeapTupleHeader \<Rightarrow> bool \<times> HeapTupleHeader" where
  "mvcc_own_insert v buffer snapshot tuple =
     (if HeapTupleHeaderGetCmin v tuple \<ge> curcid snapshot then (False, tuple)
      else if has tuple HEAP_XMAX_INVALID then (True, tuple)
      else if HEAP_XMAX_IS_LOCKED_ONLY (t_infomask tuple) then (True, tuple)
      else if has tuple HEAP_XMAX_IS_MULTI then
        let xmax = HeapTupleGetUpdateXid v tuple in
        if \<not> is_current v xmax then (True, tuple)
        else if HeapTupleHeaderGetCmax v tuple \<ge> curcid snapshot then (True, tuple)
        else (False, tuple)
      else if \<not> is_current v (HeapTupleHeaderGetRawXmax tuple)
      then (True, SetHintBits v buffer HEAP_XMAX_INVALID InvalidTransactionId tuple)
      else if HeapTupleHeaderGetCmax v tuple \<ge> curcid snapshot then (True, tuple)
      else (False, tuple))"

definition mvcc_xmin :: "xact_view \<Rightarrow> Buffer \<Rightarrow> Snapshot \<Rightarrow> HeapTupleHeader \<Rightarrow> (bool \<times> HeapTupleHeader) + HeapTupleHeader" where
  "mvcc_xmin v buffer snapshot tuple =
     (if \<not> HeapTupleHeaderXminCommitted tuple then
        if HeapTupleHeaderXminInvalid tuple then Inl (False, tuple)
        else if has tuple HEAP_MOVED_OFF then moved_off_check (\<lambda>xid. XidInMVCCSnapshot v xid snapshot) v buffer False tuple
        else if has tuple HEAP_MOVED_IN then moved_in_check (\<lambda>xid. XidInMVCCSnapshot v xid snapshot) v buffer False tuple
        else if is_current v (HeapTupleHeaderGetRawXmin tuple) then Inl (mvcc_own_insert v buffer snapshot tuple)
        else if XidInMVCCSnapshot v (HeapTupleHeaderGetRawXmin tuple) snapshot then Inl (False, tuple)
        else if did_commit v (HeapTupleHeaderGetRawXmin tuple)
        then Inr (SetHintBits v buffer HEAP_XMIN_COMMITTED (HeapTupleHeaderGetRawXmin tuple) tuple)
        else Inl (False, SetHintBits v buffer HEAP_XMIN_INVALID InvalidTransactionId tuple)
      else if \<not> HeapTupleHeaderXminFrozen tuple \<and> XidInMVCCSnapshot v (HeapTupleHeaderGetRawXmin tuple) snapshot
      then Inl (False, tuple)
      else Inr tuple)"

definition mvcc_xmax :: "xact_view \<Rightarrow> Buffer \<Rightarrow> Snapshot \<Rightarrow> HeapTupleHeader \<Rightarrow> bool \<times> HeapTupleHeader" where
  "mvcc_xmax v buffer snapshot tuple =
     (if has tuple HEAP_XMAX_INVALID then (True, tuple)
      else if HEAP_XMAX_IS_LOCKED_ONLY (t_infomask tuple) then (True, tuple)
      else if has tuple HEAP_XMAX_IS_MULTI then
        let xmax = HeapTupleGetUpdateXid v tuple in
        if is_current v xmax then
          if HeapTupleHeaderGetCmax v tuple \<ge> curcid snapshot then (True, tuple) else (False, tuple)
        else if XidInMVCCSnapshot v xmax snapshot then (True, tuple)
        else if did_commit v xmax then (False, tuple)
        else (True, tuple)
      else if \<not> has tuple HEAP_XMAX_COMMITTED then
        if is_current v (HeapTupleHeaderGetRawXmax tuple) then
          if HeapTupleHeaderGetCmax v tuple \<ge> curcid snapshot then (True, tuple) else (False, tuple)
        else if XidInMVCCSnapshot v (HeapTupleHeaderGetRawXmax tuple) snapshot then (True, tuple)
        else if \<not> did_commit v (HeapTupleHeaderGetRawXmax tuple)
        then (True, SetHintBits v buffer HEAP_XMAX_INVALID InvalidTransactionId tuple)
        else (False, SetHintBits v buffer HEAP_XMAX_COMMITTED (HeapTupleHeaderGetRawXmax tuple) tuple)
      else if XidInMVCCSnapshot v (HeapTupleHeaderGetRawXmax tuple) snapshot then (True, tuple)
      else (False, tuple))"

definition HeapTupleSatisfiesMVCC :: "xact_view \<Rightarrow> Buffer \<Rightarrow> Snapshot \<Rightarrow> HeapTuple \<Rightarrow> bool \<times> HeapTupleHeader" where
  "HeapTupleSatisfiesMVCC v buffer snapshot htup =
     (case mvcc_xmin v buffer snapshot (t_data htup) of
        Inl r \<Rightarrow> r
      | Inr tuple \<Rightarrow> mvcc_xmax v buffer snapshot tuple)"

section \<open>Dead to everyone\<close>

datatype HTSV_Result = HEAPTUPLE_DEAD | HEAPTUPLE_LIVE | HEAPTUPLE_RECENTLY_DEAD
  | HEAPTUPLE_INSERT_IN_PROGRESS | HEAPTUPLE_DELETE_IN_PROGRESS

definition HeapTupleHeaderIsOnlyLocked :: "xact_view \<Rightarrow> HeapTupleHeader \<Rightarrow> bool" where
  "HeapTupleHeaderIsOnlyLocked v tuple =
     (if has tuple HEAP_XMAX_INVALID then True
      else if has tuple HEAP_XMAX_LOCK_ONLY then True
      else if \<not> TransactionIdIsValid (HeapTupleHeaderGetRawXmax tuple) then True
      else if \<not> has tuple HEAP_XMAX_IS_MULTI then False
      else let xmax = HeapTupleGetUpdateXid v tuple in
        if is_current v xmax then False
        else if in_progress v xmax then False
        else if did_commit v xmax then False
        else True)"

text \<open>The result, the id to compare with the horizon, and the header.\<close>

definition vacuum_xmin :: "xact_view \<Rightarrow> Buffer \<Rightarrow> HeapTupleHeader \<Rightarrow> (HTSV_Result \<times> TransactionId \<times> HeapTupleHeader) + HeapTupleHeader" where
  "vacuum_xmin v buffer tuple =
     (let return = \<lambda>r t. Inl (r, InvalidTransactionId, t) in
      if \<not> HeapTupleHeaderXminCommitted tuple then
        if HeapTupleHeaderXminInvalid tuple then return HEAPTUPLE_DEAD tuple
        else if has tuple HEAP_MOVED_OFF then
          let xvac = HeapTupleHeaderGetXvac tuple in
          if is_current v xvac then return HEAPTUPLE_DELETE_IN_PROGRESS tuple
          else if in_progress v xvac then return HEAPTUPLE_DELETE_IN_PROGRESS tuple
          else if did_commit v xvac
          then return HEAPTUPLE_DEAD (SetHintBits v buffer HEAP_XMIN_INVALID InvalidTransactionId tuple)
          else Inr (SetHintBits v buffer HEAP_XMIN_COMMITTED InvalidTransactionId tuple)
        else if has tuple HEAP_MOVED_IN then
          let xvac = HeapTupleHeaderGetXvac tuple in
          if is_current v xvac then return HEAPTUPLE_INSERT_IN_PROGRESS tuple
          else if in_progress v xvac then return HEAPTUPLE_INSERT_IN_PROGRESS tuple
          else if did_commit v xvac then Inr (SetHintBits v buffer HEAP_XMIN_COMMITTED InvalidTransactionId tuple)
          else return HEAPTUPLE_DEAD (SetHintBits v buffer HEAP_XMIN_INVALID InvalidTransactionId tuple)
        else if is_current v (HeapTupleHeaderGetRawXmin tuple) then
          if has tuple HEAP_XMAX_INVALID then return HEAPTUPLE_INSERT_IN_PROGRESS tuple
          else if HEAP_XMAX_IS_LOCKED_ONLY (t_infomask tuple) \<or> HeapTupleHeaderIsOnlyLocked v tuple
          then return HEAPTUPLE_INSERT_IN_PROGRESS tuple
          else if is_current v (HeapTupleHeaderGetUpdateXid v tuple) then return HEAPTUPLE_DELETE_IN_PROGRESS tuple
          else return HEAPTUPLE_INSERT_IN_PROGRESS tuple
        else if in_progress v (HeapTupleHeaderGetRawXmin tuple) then return HEAPTUPLE_INSERT_IN_PROGRESS tuple
        else if did_commit v (HeapTupleHeaderGetRawXmin tuple)
        then Inr (SetHintBits v buffer HEAP_XMIN_COMMITTED (HeapTupleHeaderGetRawXmin tuple) tuple)
        else return HEAPTUPLE_DEAD (SetHintBits v buffer HEAP_XMIN_INVALID InvalidTransactionId tuple)
      else Inr tuple)"

definition vacuum_xmax :: "xact_view \<Rightarrow> Buffer \<Rightarrow> HeapTupleHeader \<Rightarrow> HTSV_Result \<times> TransactionId \<times> HeapTupleHeader" where
  "vacuum_xmax v buffer tuple =
     (if has tuple HEAP_XMAX_INVALID then (HEAPTUPLE_LIVE, InvalidTransactionId, tuple)
      else if HEAP_XMAX_IS_LOCKED_ONLY (t_infomask tuple) then
        if \<not> has tuple HEAP_XMAX_COMMITTED then
          if has tuple HEAP_XMAX_IS_MULTI then
            if \<not> HEAP_LOCKED_UPGRADED (t_infomask tuple) \<and> MultiXactIdIsRunning v (HeapTupleHeaderGetRawXmax tuple)
            then (HEAPTUPLE_LIVE, InvalidTransactionId, tuple)
            else (HEAPTUPLE_LIVE, InvalidTransactionId, SetHintBits v buffer HEAP_XMAX_INVALID InvalidTransactionId tuple)
          else if in_progress v (HeapTupleHeaderGetRawXmax tuple) then (HEAPTUPLE_LIVE, InvalidTransactionId, tuple)
          else (HEAPTUPLE_LIVE, InvalidTransactionId, SetHintBits v buffer HEAP_XMAX_INVALID InvalidTransactionId tuple)
        else (HEAPTUPLE_LIVE, InvalidTransactionId, tuple)
      else if has tuple HEAP_XMAX_IS_MULTI then
        let xmax = HeapTupleGetUpdateXid v tuple in
        if in_progress v xmax then (HEAPTUPLE_DELETE_IN_PROGRESS, InvalidTransactionId, tuple)
        else if did_commit v xmax then (HEAPTUPLE_RECENTLY_DEAD, xmax, tuple)
        else if \<not> MultiXactIdIsRunning v (HeapTupleHeaderGetRawXmax tuple)
        then (HEAPTUPLE_LIVE, InvalidTransactionId, SetHintBits v buffer HEAP_XMAX_INVALID InvalidTransactionId tuple)
        else (HEAPTUPLE_LIVE, InvalidTransactionId, tuple)
      else if \<not> has tuple HEAP_XMAX_COMMITTED then
        if in_progress v (HeapTupleHeaderGetRawXmax tuple) then (HEAPTUPLE_DELETE_IN_PROGRESS, InvalidTransactionId, tuple)
        else if did_commit v (HeapTupleHeaderGetRawXmax tuple)
        then (HEAPTUPLE_RECENTLY_DEAD, HeapTupleHeaderGetRawXmax tuple,
              SetHintBits v buffer HEAP_XMAX_COMMITTED (HeapTupleHeaderGetRawXmax tuple) tuple)
        else (HEAPTUPLE_LIVE, InvalidTransactionId, SetHintBits v buffer HEAP_XMAX_INVALID InvalidTransactionId tuple)
      else (HEAPTUPLE_RECENTLY_DEAD, HeapTupleHeaderGetRawXmax tuple, tuple))"

definition HeapTupleSatisfiesVacuumHorizon :: "xact_view \<Rightarrow> Buffer \<Rightarrow> HeapTuple \<Rightarrow> HTSV_Result \<times> TransactionId \<times> HeapTupleHeader" where
  "HeapTupleSatisfiesVacuumHorizon v buffer htup =
     (case vacuum_xmin v buffer (t_data htup) of Inl r \<Rightarrow> r | Inr tuple \<Rightarrow> vacuum_xmax v buffer tuple)"

definition HeapTupleSatisfiesVacuum :: "xact_view \<Rightarrow> Buffer \<Rightarrow> TransactionId \<Rightarrow> HeapTuple \<Rightarrow> HTSV_Result \<times> HeapTupleHeader" where
  "HeapTupleSatisfiesVacuum v buffer OldestXmin htup =
     (let (res, dead_after, tuple) = HeapTupleSatisfiesVacuumHorizon v buffer htup in
      if res = HEAPTUPLE_RECENTLY_DEAD \<and> TransactionIdPrecedes dead_after OldestXmin then (HEAPTUPLE_DEAD, tuple)
      else (res, tuple))"

definition HeapTupleSatisfiesNonVacuumable :: "xact_view \<Rightarrow> Buffer \<Rightarrow> Snapshot \<Rightarrow> HeapTuple \<Rightarrow> bool \<times> HeapTupleHeader" where
  "HeapTupleSatisfiesNonVacuumable v buffer snapshot htup =
     (let (res, dead_after, tuple) = HeapTupleSatisfiesVacuumHorizon v buffer htup;
          res = (if res = HEAPTUPLE_RECENTLY_DEAD \<and> vistest snapshot dead_after then HEAPTUPLE_DEAD else res)
      in (res \<noteq> HEAPTUPLE_DEAD, tuple))"

definition HeapTupleIsSurelyDead :: "(TransactionId \<Rightarrow> bool) \<Rightarrow> HeapTuple \<Rightarrow> bool" where
  "HeapTupleIsSurelyDead removable htup =
     (let tuple = t_data htup in
      if \<not> HeapTupleHeaderXminCommitted tuple then HeapTupleHeaderXminInvalid tuple
      else if has tuple HEAP_XMAX_INVALID then False
      else if HEAP_XMAX_IS_LOCKED_ONLY (t_infomask tuple) then False
      else if has tuple HEAP_XMAX_IS_MULTI then False
      else if \<not> has tuple HEAP_XMAX_COMMITTED then False
      else removable (HeapTupleHeaderGetRawXmax tuple))"

section \<open>Visible to a past snapshot\<close>

definition xidComparator :: "TransactionId \<Rightarrow> TransactionId \<Rightarrow> int" where
  "xidComparator xid1 xid2 = (if xid1 < xid2 then -1 else if xid1 > xid2 then 1 else 0)"

text \<open>The binary search of the standard library in the part from \<open>l\<close> to \<open>u\<close> of a sorted array.\<close>

function bsearch_loop :: "TransactionId \<Rightarrow> TransactionId list \<Rightarrow> nat \<Rightarrow> nat \<Rightarrow> bool" where
  "bsearch_loop key base l u =
     (if l < u then
        let idx = (l + u) div 2; comparison = xidComparator key (base ! idx) in
        if comparison < 0 then bsearch_loop key base l idx
        else if comparison > 0 then bsearch_loop key base (idx + 1) u
        else True
      else False)"
  by pat_completeness auto
termination
  by (relation "measure (\<lambda>(key, base, l, u). u - l)") auto

definition TransactionIdInArray :: "TransactionId \<Rightarrow> TransactionId list \<Rightarrow> bool" where
  "TransactionIdInArray xid xids = (length xids > 0 \<and> bsearch_loop xid xids 0 (length xids))"

definition historic_xmin :: "xact_view \<Rightarrow> Snapshot \<Rightarrow> HeapTuple \<Rightarrow> bool" where
  "historic_xmin v snapshot htup =
     (let tuple = t_data htup; xmin = HeapTupleHeaderGetXmin tuple in
      if HeapTupleHeaderXminInvalid tuple then False
      else if TransactionIdInArray xmin (subxip snapshot) then
        (case tuple_cids v htup of None \<Rightarrow> False | Some (cmin, cmax) \<Rightarrow> \<not> cmin \<ge> curcid snapshot)
      else if TransactionIdPrecedes xmin (snap_xmin snapshot) then
        (if \<not> HeapTupleHeaderXminCommitted tuple \<and> \<not> did_commit v xmin then False else True)
      else if TransactionIdFollowsOrEquals xmin (snap_xmax snapshot) then False
      else if TransactionIdInArray xmin (xip snapshot) then True
      else False)"

definition historic_xmax :: "xact_view \<Rightarrow> Snapshot \<Rightarrow> HeapTuple \<Rightarrow> bool" where
  "historic_xmax v snapshot htup =
     (let tuple = t_data htup in
      if has tuple HEAP_XMAX_INVALID then True
      else if HEAP_XMAX_IS_LOCKED_ONLY (t_infomask tuple) then True
      else let xmax = (if has tuple HEAP_XMAX_IS_MULTI then HeapTupleGetUpdateXid v tuple else HeapTupleHeaderGetRawXmax tuple) in
        if TransactionIdInArray xmax (subxip snapshot) then
          (case tuple_cids v htup of
             None \<Rightarrow> True
           | Some (cmin, cmax) \<Rightarrow> if cmax = InvalidCommandId then True else if cmax \<ge> curcid snapshot then True else False)
        else if TransactionIdPrecedes xmax (snap_xmin snapshot) then
          (if has tuple HEAP_XMAX_COMMITTED then False else \<not> did_commit v xmax)
        else if TransactionIdFollowsOrEquals xmax (snap_xmax snapshot) then True
        else if TransactionIdInArray xmax (xip snapshot) then False
        else True)"

definition HeapTupleSatisfiesHistoricMVCC :: "xact_view \<Rightarrow> Snapshot \<Rightarrow> HeapTuple \<Rightarrow> bool" where
  "HeapTupleSatisfiesHistoricMVCC v snapshot htup =
     (if \<not> historic_xmin v snapshot htup then False else historic_xmax v snapshot htup)"

section \<open>Dispatch\<close>

text \<open>The answer, the header and the snapshot, which only the dirty test changes.\<close>

definition HeapTupleSatisfiesVisibility :: "xact_view \<Rightarrow> Buffer \<Rightarrow> Snapshot \<Rightarrow> HeapTuple \<Rightarrow> bool \<times> HeapTupleHeader \<times> Snapshot" where
  "HeapTupleSatisfiesVisibility v buffer snapshot htup =
     (let same = \<lambda>(r, tuple). (r, tuple, snapshot) in
      case snapshot_type snapshot of
        SNAPSHOT_MVCC \<Rightarrow> same (HeapTupleSatisfiesMVCC v buffer snapshot htup)
      | SNAPSHOT_SELF \<Rightarrow> same (HeapTupleSatisfiesSelf v buffer htup)
      | SNAPSHOT_ANY \<Rightarrow> same (HeapTupleSatisfiesAny htup)
      | SNAPSHOT_TOAST \<Rightarrow> same (HeapTupleSatisfiesToast v buffer htup)
      | SNAPSHOT_DIRTY \<Rightarrow> HeapTupleSatisfiesDirty v buffer snapshot htup
      | SNAPSHOT_HISTORIC_MVCC \<Rightarrow> (HeapTupleSatisfiesHistoricMVCC v snapshot htup, t_data htup, snapshot)
      | SNAPSHOT_NON_VACUUMABLE \<Rightarrow> same (HeapTupleSatisfiesNonVacuumable v buffer snapshot htup))"

end
