(* ===== verification/VisibilityHints.thy ===== *)
theory VisibilityHints
  imports HeapVisibility
begin

text \<open>
  The visibility tests write to the tuple they look at: they leave the outcome of a transaction in the
  flag bits once they have found it. This theory says when such a hint is true, and shows that each test
  sets only true ones and changes nothing else.
\<close>

section \<open>Flag bits\<close>

lemmas heap_masks = HEAP_XMAX_KEYSHR_LOCK_def HEAP_COMBOCID_def HEAP_XMAX_EXCL_LOCK_def HEAP_XMAX_LOCK_ONLY_def
  HEAP_XMAX_SHR_LOCK_def HEAP_LOCK_MASK_def HEAP_XMIN_COMMITTED_def HEAP_XMIN_INVALID_def HEAP_XMIN_FROZEN_def
  HEAP_XMAX_COMMITTED_def HEAP_XMAX_INVALID_def HEAP_XMAX_IS_MULTI_def HEAP_MOVED_OFF_def HEAP_MOVED_IN_def HEAP_MOVED_def

lemma word16_eq_iff: "(v :: uint16) = w \<longleftrightarrow> (\<forall>n \<in> set [0..<16]. bit v n = bit w n)"
proof
  assume *: "\<forall>n \<in> set [0..<16]. bit v n = bit w n"
  show "v = w" by (rule bit_word_eqI) (use * in simp)
qed simp

lemma upt_16: "[0..<16] = [0, 1, 2, 3, 4, 5, 6, 7, 8, 9, 10, 11, 12, 13, 14, 15 :: nat]"
  by (simp add: upt_rec)

lemma and_single_bit: "k < 16 \<Longrightarrow> (w AND push_bit k 1) \<noteq> (0 :: uint16) \<longleftrightarrow> bit w k"
  by (auto simp: word16_eq_iff bit_and_iff bit_exp_iff)

lemma mask_bits:
  "(w AND 0x0020) \<noteq> (0 :: uint16) \<longleftrightarrow> bit w 5"
  "(w AND 0x0080) \<noteq> (0 :: uint16) \<longleftrightarrow> bit w 7"
  "(w AND 0x0100) \<noteq> (0 :: uint16) \<longleftrightarrow> bit w 8"
  "(w AND 0x0400) \<noteq> (0 :: uint16) \<longleftrightarrow> bit w 10"
  "(w AND 0x0800) \<noteq> (0 :: uint16) \<longleftrightarrow> bit w 11"
  "(w AND 0x1000) \<noteq> (0 :: uint16) \<longleftrightarrow> bit w 12"
  "(w AND 0x4000) \<noteq> (0 :: uint16) \<longleftrightarrow> bit w 14"
  "(w AND 0x8000) \<noteq> (0 :: uint16) \<longleftrightarrow> bit w 15"
  using and_single_bit[of 5 w] and_single_bit[of 7 w] and_single_bit[of 8 w] and_single_bit[of 10 w]
    and_single_bit[of 11 w] and_single_bit[of 12 w] and_single_bit[of 14 w] and_single_bit[of 15 w] by simp_all

lemma has_bits:
  "has t HEAP_COMBOCID = bit (t_infomask t) 5"
  "has t HEAP_XMAX_LOCK_ONLY = bit (t_infomask t) 7"
  "has t HEAP_XMAX_COMMITTED = bit (t_infomask t) 10"
  "has t HEAP_XMAX_INVALID = bit (t_infomask t) 11"
  "has t HEAP_XMAX_IS_MULTI = bit (t_infomask t) 12"
  "has t HEAP_MOVED_OFF = bit (t_infomask t) 14"
  "has t HEAP_MOVED_IN = bit (t_infomask t) 15"
  "HeapTupleHeaderXminCommitted t = bit (t_infomask t) 8"
  unfolding has_def HeapTupleHeaderXminCommitted_def heap_masks mask_bits by (rule refl)+

lemma xmin_bits:
  "HeapTupleHeaderXminInvalid t \<longleftrightarrow> \<not> bit (t_infomask t) 8 \<and> bit (t_infomask t) 9"
  "HeapTupleHeaderXminFrozen t \<longleftrightarrow> bit (t_infomask t) 8 \<and> bit (t_infomask t) 9"
  unfolding HeapTupleHeaderXminInvalid_def HeapTupleHeaderXminFrozen_def word16_eq_iff upt_16 heap_masks
  by (auto simp: bit_and_iff)

lemma locked_only_bits: "HEAP_XMAX_IS_LOCKED_ONLY w \<longleftrightarrow> bit w 7 \<or> \<not> bit w 12 \<and> \<not> bit w 4 \<and> bit w 6"
  unfolding HEAP_XMAX_IS_LOCKED_ONLY_def heap_masks mask_bits word16_eq_iff upt_16
  by (auto simp: bit_and_iff)

lemma moved_bits: "has t HEAP_MOVED \<longleftrightarrow> bit (t_infomask t) 14 \<or> bit (t_infomask t) 15"
  unfolding has_def heap_masks word16_eq_iff upt_16 by (auto simp: bit_and_iff)

lemma or_exp_bit: "j < 16 \<Longrightarrow> bit ((w :: uint16) OR 2 ^ j) k \<longleftrightarrow> bit w k \<or> k = j"
  by (auto simp: bit_or_iff bit_exp_iff)

lemma hint_masks: "HEAP_XMIN_COMMITTED = 2 ^ 8" "HEAP_XMIN_INVALID = 2 ^ 9" "HEAP_XMAX_COMMITTED = 2 ^ 10" "HEAP_XMAX_INVALID = 2 ^ 11"
  by (simp_all add: heap_masks)

lemma or_bits:
  "bit (w OR HEAP_XMIN_COMMITTED) k \<longleftrightarrow> bit w k \<or> k = 8"
  "bit (w OR HEAP_XMIN_INVALID) k \<longleftrightarrow> bit w k \<or> k = 9"
  "bit (w OR HEAP_XMAX_COMMITTED) k \<longleftrightarrow> bit w k \<or> k = 10"
  "bit (w OR HEAP_XMAX_INVALID) k \<longleftrightarrow> bit w k \<or> k = 11"
  unfolding hint_masks by (rule or_exp_bit; simp)+

section \<open>Truthful hints\<close>

text \<open>
  The deleter of a tuple is its xmax, or the updater among the members when xmax names a group. It
  counts unless the xmax only locks the tuple.
\<close>

definition locked_only :: "HeapTupleHeader \<Rightarrow> bool" where
  "locked_only t = HEAP_XMAX_IS_LOCKED_ONLY (t_infomask t)"

definition deleter :: "xact_view \<Rightarrow> HeapTupleHeader \<Rightarrow> TransactionId" where
  "deleter v t = (if has t HEAP_XMAX_IS_MULTI then HeapTupleGetUpdateXid v t else t_xmax t)"

definition aborted :: "xact_view \<Rightarrow> TransactionId \<Rightarrow> bool" where
  "aborted v x \<longleftrightarrow> \<not> is_current v x \<and> \<not> in_progress v x \<and> \<not> did_commit v x"

definition committed :: "xact_view \<Rightarrow> TransactionId \<Rightarrow> bool" where
  "committed v x \<longleftrightarrow> did_commit v x \<and> \<not> in_progress v x"

text \<open>
  The current transaction is in progress and has not committed, and an invalid id is the id of no
  transaction.
\<close>

definition wf_view :: "xact_view \<Rightarrow> bool" where
  "wf_view v \<longleftrightarrow> (\<forall>x. is_current v x \<longrightarrow> in_progress v x \<and> \<not> did_commit v x) \<and> aborted v InvalidTransactionId"

text \<open>A hint bit that is set tells the final status of the transaction it is about.\<close>

definition hints_true :: "xact_view \<Rightarrow> HeapTupleHeader \<Rightarrow> bool" where
  "hints_true v t \<longleftrightarrow>
     (HeapTupleHeaderXminCommitted t \<and> \<not> HeapTupleHeaderXminFrozen t \<longrightarrow> committed v (t_xmin t)) \<and>
     (HeapTupleHeaderXminInvalid t \<longrightarrow> aborted v (t_xmin t)) \<and>
     (has t HEAP_XMAX_COMMITTED \<and> \<not> locked_only t \<longrightarrow> committed v (deleter v t) \<and> \<not> has t HEAP_XMAX_IS_MULTI) \<and>
     (has t HEAP_XMAX_INVALID \<and> \<not> locked_only t \<longrightarrow> aborted v (deleter v t))"

text \<open>Only the transaction that inserted a tuple can delete it before it commits.\<close>

definition own_deletes :: "xact_view \<Rightarrow> HeapTupleHeader \<Rightarrow> bool" where
  "own_deletes v t \<longleftrightarrow> (is_current v (t_xmin t) \<and> \<not> locked_only t \<longrightarrow> is_current v (deleter v t) \<or> aborted v (deleter v t))"

text \<open>The header after hint bits have been set: nothing else has changed, and no tuple is frozen by it.\<close>

definition hinted :: "HeapTupleHeader \<Rightarrow> HeapTupleHeader \<Rightarrow> bool" where
  "hinted t t' \<longleftrightarrow> t' = t\<lparr>t_infomask := t_infomask t'\<rparr> \<and>
     (\<forall>k. k < 8 \<or> 11 < k \<longrightarrow> bit (t_infomask t') k = bit (t_infomask t) k) \<and>
     HeapTupleHeaderXminFrozen t' = HeapTupleHeaderXminFrozen t"

lemma hinted_refl [simp]: "hinted t t"
  by (simp add: hinted_def)

lemma hinted_trans: "hinted t t' \<Longrightarrow> hinted t' t'' \<Longrightarrow> hinted t t''"
  unfolding hinted_def by (metis HeapTupleHeader.update_convs(5) HeapTupleHeader.surjective)

lemma hinted_fields:
  assumes "hinted t t'"
  shows "t_xmin t' = t_xmin t" "t_xmax t' = t_xmax t" "t_field3 t' = t_field3 t" "t_ctid t' = t_ctid t"
    "has t' HEAP_XMAX_IS_MULTI = has t HEAP_XMAX_IS_MULTI" "has t' HEAP_COMBOCID = has t HEAP_COMBOCID"
    "has t' HEAP_MOVED_OFF = has t HEAP_MOVED_OFF" "has t' HEAP_MOVED_IN = has t HEAP_MOVED_IN"
    "locked_only t' = locked_only t" "HeapTupleHeaderXminFrozen t' = HeapTupleHeaderXminFrozen t"
proof -
  have t': "t' = t\<lparr>t_infomask := t_infomask t'\<rparr>" and b: "\<And>k. k < 8 \<or> 11 < k \<Longrightarrow> bit (t_infomask t') k = bit (t_infomask t) k"
    using assms unfolding hinted_def by blast+
  show "t_xmin t' = t_xmin t" "t_xmax t' = t_xmax t" "t_field3 t' = t_field3 t" "t_ctid t' = t_ctid t"
    by (subst t', simp)+
  show "has t' HEAP_XMAX_IS_MULTI = has t HEAP_XMAX_IS_MULTI" "has t' HEAP_COMBOCID = has t HEAP_COMBOCID"
    "has t' HEAP_MOVED_OFF = has t HEAP_MOVED_OFF" "has t' HEAP_MOVED_IN = has t HEAP_MOVED_IN"
    "locked_only t' = locked_only t"
    unfolding has_bits locked_only_def locked_only_bits by (simp_all add: b)
  show "HeapTupleHeaderXminFrozen t' = HeapTupleHeaderXminFrozen t" using assms by (simp add: hinted_def)
qed

lemma hinted_deleter: "hinted t t' \<Longrightarrow> deleter v t' = deleter v t"
  by (simp add: deleter_def hinted_fields HeapTupleGetUpdateXid_def HeapTupleHeaderGetRawXmax_def)

lemma hinted_cids:
  "hinted t t' \<Longrightarrow> HeapTupleHeaderGetCmin v t' = HeapTupleHeaderGetCmin v t"
  "hinted t t' \<Longrightarrow> HeapTupleHeaderGetCmax v t' = HeapTupleHeaderGetCmax v t"
  by (simp_all add: HeapTupleHeaderGetCmin_def HeapTupleHeaderGetCmax_def HeapTupleHeaderGetRawCommandId_def hinted_fields)

text \<open>What a function may leave behind.\<close>

definition good :: "xact_view \<Rightarrow> HeapTupleHeader \<Rightarrow> HeapTupleHeader \<Rightarrow> bool" where
  "good v t t' \<longleftrightarrow> hinted t t' \<and> hints_true v t'"

lemma good_trans: "good v t t' \<Longrightarrow> good v t' t'' \<Longrightarrow> good v t t''"
  using hinted_trans by (auto simp: good_def)

lemma set_hint_cases: "SetHintBits v buffer m x t = t \<or> SetHintBits v buffer m x t = t\<lparr>t_infomask := t_infomask t OR m\<rparr>"
  by (simp add: SetHintBits_def)

lemma good_set_xmin_committed:
  assumes "hints_true v t" "\<not> HeapTupleHeaderXminCommitted t" "\<not> HeapTupleHeaderXminInvalid t" "committed v (t_xmin t)"
  shows "good v t (SetHintBits v buffer HEAP_XMIN_COMMITTED x t)"
proof -
  let ?t = "t\<lparr>t_infomask := t_infomask t OR HEAP_XMIN_COMMITTED\<rparr>"
  have h: "hinted t ?t" using assms(2,3) by (auto simp: hinted_def or_bits xmin_bits has_bits)
  have "has ?t HEAP_XMAX_COMMITTED = has t HEAP_XMAX_COMMITTED" "has ?t HEAP_XMAX_INVALID = has t HEAP_XMAX_INVALID"
    "HeapTupleHeaderXminInvalid ?t = False" by (simp_all add: has_bits xmin_bits or_bits)
  then have "hints_true v ?t" using assms(1,4) hinted_fields[OF h] hinted_deleter[OF h] by (simp add: hints_true_def)
  with h assms(1) show ?thesis using set_hint_cases[of v buffer HEAP_XMIN_COMMITTED x t] by (auto simp: good_def)
qed

lemma good_set_xmin_invalid:
  assumes "hints_true v t" "\<not> HeapTupleHeaderXminCommitted t" "aborted v (t_xmin t)"
  shows "good v t (SetHintBits v buffer HEAP_XMIN_INVALID x t)"
proof -
  let ?t = "t\<lparr>t_infomask := t_infomask t OR HEAP_XMIN_INVALID\<rparr>"
  have h: "hinted t ?t" using assms(2) by (auto simp: hinted_def or_bits xmin_bits has_bits)
  have "has ?t HEAP_XMAX_COMMITTED = has t HEAP_XMAX_COMMITTED" "has ?t HEAP_XMAX_INVALID = has t HEAP_XMAX_INVALID"
    "HeapTupleHeaderXminCommitted ?t = False" using assms(2) by (simp_all add: has_bits or_bits)
  then have "hints_true v ?t" using assms(1,3) hinted_fields[OF h] hinted_deleter[OF h] by (simp add: hints_true_def)
  with h assms(1) show ?thesis using set_hint_cases[of v buffer HEAP_XMIN_INVALID x t] by (auto simp: good_def)
qed

lemma good_set_xmax_invalid:
  assumes "hints_true v t" "locked_only t \<or> aborted v (deleter v t)"
  shows "good v t (SetHintBits v buffer HEAP_XMAX_INVALID x t)"
proof -
  let ?t = "t\<lparr>t_infomask := t_infomask t OR HEAP_XMAX_INVALID\<rparr>"
  have h: "hinted t ?t" by (auto simp: hinted_def or_bits xmin_bits)
  have "has ?t HEAP_XMAX_COMMITTED = has t HEAP_XMAX_COMMITTED" "HeapTupleHeaderXminInvalid ?t = HeapTupleHeaderXminInvalid t"
    "HeapTupleHeaderXminCommitted ?t = HeapTupleHeaderXminCommitted t" by (simp_all add: has_bits or_bits xmin_bits)
  then have "hints_true v ?t" using assms hinted_fields[OF h] hinted_deleter[OF h] by (auto simp: hints_true_def)
  with h assms(1) show ?thesis using set_hint_cases[of v buffer HEAP_XMAX_INVALID x t] by (auto simp: good_def)
qed

lemma good_set_xmax_committed:
  assumes "hints_true v t" "\<not> has t HEAP_XMAX_IS_MULTI" "committed v (t_xmax t)"
  shows "good v t (SetHintBits v buffer HEAP_XMAX_COMMITTED x t)"
proof -
  let ?t = "t\<lparr>t_infomask := t_infomask t OR HEAP_XMAX_COMMITTED\<rparr>"
  have h: "hinted t ?t" by (auto simp: hinted_def or_bits xmin_bits)
  have "has ?t HEAP_XMAX_INVALID = has t HEAP_XMAX_INVALID" "HeapTupleHeaderXminInvalid ?t = HeapTupleHeaderXminInvalid t"
    "HeapTupleHeaderXminCommitted ?t = HeapTupleHeaderXminCommitted t" by (simp_all add: has_bits or_bits xmin_bits)
  moreover have "deleter v t = t_xmax t" using assms(2) by (simp add: deleter_def)
  ultimately have "hints_true v ?t" using assms hinted_fields[OF h] hinted_deleter[OF h] by (simp add: hints_true_def)
  with h assms(1) show ?thesis using set_hint_cases[of v buffer HEAP_XMAX_COMMITTED x t] by (auto simp: good_def)
qed

lemma update_xid_member: "update_xid_loop ms = InvalidTransactionId \<or> update_xid_loop ms \<in> fst ` set ms"
  by (induction ms rule: update_xid_loop.induct) auto

lemma not_running_members: "\<not> MultiXactIdIsRunning v m \<Longrightarrow> x \<in> fst ` set (multi_members v m) \<Longrightarrow> \<not> is_current v x \<and> \<not> in_progress v x"
  by (auto simp: MultiXactIdIsRunning_def list_ex_iff Let_def split: if_splits)

lemma not_running_updater:
  assumes "wf_view v" "\<not> MultiXactIdIsRunning v m"
  shows "\<not> is_current v (update_xid_loop (multi_members v m)) \<and> \<not> in_progress v (update_xid_loop (multi_members v m))"
  using update_xid_member[of "multi_members v m"] not_running_members[OF assms(2)] assms(1)
  unfolding wf_view_def aborted_def by metis

section \<open>The functions only set truthful hints\<close>

lemmas raw_fields = HeapTupleHeaderGetRawXmin_def HeapTupleHeaderGetRawXmax_def

lemma good_refl: "hints_true v t \<Longrightarrow> good v t t"
  by (simp add: good_def)

lemma deleter_multi: "has t HEAP_XMAX_IS_MULTI \<Longrightarrow> HeapTupleGetUpdateXid v t = deleter v t"
  by (simp add: deleter_def)

lemma deleter_single: "\<not> has t HEAP_XMAX_IS_MULTI \<Longrightarrow> t_xmax t = deleter v t"
  by (simp add: deleter_def)

lemma not_running_deleter:
  "wf_view v \<Longrightarrow> has t HEAP_XMAX_IS_MULTI \<Longrightarrow> \<not> MultiXactIdIsRunning v (t_xmax t) \<Longrightarrow> \<not> is_current v (deleter v t) \<and> \<not> in_progress v (deleter v t)"
  using not_running_updater[of v "t_xmax t"] by (simp add: deleter_def HeapTupleGetUpdateXid_def raw_fields)

text \<open>The part of a function that looks at xmin: an early return, or a tuple whose inserter committed.\<close>

definition xmin_done :: "xact_view \<Rightarrow> HeapTupleHeader \<Rightarrow> (('r \<times> HeapTupleHeader) + HeapTupleHeader) \<Rightarrow> bool" where
  "xmin_done v t res \<longleftrightarrow> (case res of Inl (r, t') \<Rightarrow> good v t t'
     | Inr t' \<Rightarrow> good v t t' \<and> (HeapTupleHeaderXminFrozen t \<or> committed v (t_xmin t)))"

lemma self_own_insert_good:
  assumes "hints_true v t" "own_deletes v t" "is_current v (t_xmin t)"
  shows "good v t (snd (self_own_insert v buffer t))"
  using assms good_refl[OF assms(1)]
  by (auto simp: self_own_insert_def raw_fields Let_def own_deletes_def deleter_single[of t v] locked_only_def[symmetric]
      intro!: good_set_xmax_invalid)

lemma self_xmin_good:
  assumes "hints_true v t" "own_deletes v t" "\<not> has t HEAP_MOVED_OFF" "\<not> has t HEAP_MOVED_IN"
  shows "xmin_done v t (self_xmin v buffer t)"
proof -
  have "good v t (snd (self_own_insert v buffer t))" if "is_current v (t_xmin t)"
    using self_own_insert_good[OF assms(1,2) that] .
  then show ?thesis using assms good_refl[OF assms(1)]
    by (auto simp: xmin_done_def self_xmin_def raw_fields aborted_def committed_def hints_true_def split: prod.splits
        intro!: good_set_xmin_committed good_set_xmin_invalid)
qed

lemma self_xmax_good:
  assumes "wf_view v" "hints_true v t"
  shows "good v t (snd (self_xmax v buffer t))"
  using good_refl[OF assms(2)] assms(2)
  by (auto simp: self_xmax_def raw_fields Let_def locked_only_def[symmetric] aborted_def committed_def deleter_single[of t v]
      intro!: good_set_xmax_invalid good_set_xmax_committed)

lemma good_after: "good v t t' \<Longrightarrow> good v t' t'' \<Longrightarrow> good v t t''"
  by (rule good_trans)

lemma xmin_done_then:
  assumes "xmin_done v t res" "\<And>t'. hints_true v t' \<Longrightarrow> good v t' (snd (f t'))"
  shows "good v t (snd (case res of Inl r \<Rightarrow> r | Inr t' \<Rightarrow> f t'))"
  using assms by (auto simp: xmin_done_def good_def split: sum.splits prod.splits intro: hinted_trans)

lemma self_good:
  assumes "wf_view v" "hints_true v (t_data htup)" "own_deletes v (t_data htup)"
    "\<not> has (t_data htup) HEAP_MOVED_OFF" "\<not> has (t_data htup) HEAP_MOVED_IN"
  shows "good v (t_data htup) (snd (HeapTupleSatisfiesSelf v buffer htup))"
  unfolding HeapTupleSatisfiesSelf_def
  by (rule xmin_done_then[OF self_xmin_good[OF assms(2-)] self_xmax_good[OF assms(1)]])

lemma toast_good:
  "hints_true v (t_data htup) \<Longrightarrow> \<not> has (t_data htup) HEAP_MOVED_OFF \<Longrightarrow> \<not> has (t_data htup) HEAP_MOVED_IN \<Longrightarrow>
    good v (t_data htup) (snd (HeapTupleSatisfiesToast v buffer htup))"
  by (auto simp: HeapTupleSatisfiesToast_def Let_def good_def)

lemma update_own_insert_good:
  assumes "hints_true v t" "own_deletes v t" "is_current v (t_xmin t)"
  shows "good v t (snd (update_own_insert v buffer cid t))"
  using assms good_refl[OF assms(1)]
  by (auto simp: update_own_insert_def raw_fields Let_def own_deletes_def deleter_single[of t v] locked_only_def[symmetric]
      intro!: good_set_xmax_invalid)

lemma update_xmin_good:
  assumes "hints_true v t" "own_deletes v t" "\<not> has t HEAP_MOVED_OFF" "\<not> has t HEAP_MOVED_IN"
  shows "xmin_done v t (update_xmin v buffer cid t)"
proof -
  have "good v t (snd (update_own_insert v buffer cid t))" if "is_current v (t_xmin t)"
    using update_own_insert_good[OF assms(1,2) that] .
  then show ?thesis using assms good_refl[OF assms(1)]
    by (auto simp: xmin_done_def update_xmin_def raw_fields aborted_def committed_def hints_true_def split: prod.splits
        intro!: good_set_xmin_committed good_set_xmin_invalid)
qed

lemma update_multi_good:
  assumes "wf_view v" "hints_true v t" "has t HEAP_XMAX_IS_MULTI"
  shows "good v t (snd (update_multi v buffer cid self t))"
  using good_refl[OF assms(2)] assms not_running_deleter[OF assms(1,3)] deleter_multi[OF assms(3), of v]
  by (auto simp: update_multi_def raw_fields Let_def locked_only_def[symmetric] aborted_def
      intro!: good_set_xmax_invalid)

lemma update_xmax_good:
  assumes "wf_view v" "hints_true v t"
  shows "good v t (snd (update_xmax v buffer cid self t))"
  using good_refl[OF assms(2)] assms(2) update_multi_good[OF assms]
  by (auto simp: update_xmax_def raw_fields Let_def locked_only_def[symmetric] aborted_def committed_def deleter_single[of t v]
      intro!: good_set_xmax_invalid good_set_xmax_committed)

lemma update_good:
  assumes "wf_view v" "hints_true v (t_data htup)" "own_deletes v (t_data htup)"
    "\<not> has (t_data htup) HEAP_MOVED_OFF" "\<not> has (t_data htup) HEAP_MOVED_IN"
  shows "good v (t_data htup) (snd (HeapTupleSatisfiesUpdate v buffer cid htup))"
  unfolding HeapTupleSatisfiesUpdate_def
  by (rule xmin_done_then[OF update_xmin_good[OF assms(2-)] update_xmax_good[OF assms(1)]])

text \<open>The dirty test answers like the test for itself, except for open transactions of others.\<close>

lemma dirty_xmin_self: "\<not> (\<not> is_current v (t_xmin t) \<and> in_progress v (t_xmin t)) \<or> HeapTupleHeaderXminCommitted t \<or>
    HeapTupleHeaderXminInvalid t \<Longrightarrow> \<not> has t HEAP_MOVED_OFF \<Longrightarrow> \<not> has t HEAP_MOVED_IN \<Longrightarrow>
    dirty_xmin v buffer s t = map_sum (\<lambda>(r, t). (r, t, s)) id (self_xmin v buffer t)"
  by (auto simp: dirty_xmin_def self_xmin_def raw_fields Let_def)

lemma dirty_xmax_self: "(fst (dirty_xmax v buffer s t), fst (snd (dirty_xmax v buffer s t))) = self_xmax v buffer t"
  by (auto simp: dirty_xmax_def self_xmax_def Let_def)

lemma dirty_good:
  assumes "wf_view v" "hints_true v (t_data htup)" "own_deletes v (t_data htup)"
    "\<not> has (t_data htup) HEAP_MOVED_OFF" "\<not> has (t_data htup) HEAP_MOVED_IN"
  shows "good v (t_data htup) (fst (snd (HeapTupleSatisfiesDirty v buffer s htup)))"
proof -
  let ?t = "t_data htup"
  define s' where "s' = s\<lparr>snap_xmin := InvalidTransactionId, snap_xmax := InvalidTransactionId, speculativeToken := 0\<rparr>"
  have xmax: "good v t (fst (snd (dirty_xmax v buffer s' t)))" if "hints_true v t" for t
    using self_xmax_good[OF assms(1) that, of buffer] dirty_xmax_self[of v buffer s' t] by (metis snd_conv)
  show ?thesis
  proof (cases "\<not> (\<not> is_current v (t_xmin ?t) \<and> in_progress v (t_xmin ?t)) \<or> HeapTupleHeaderXminCommitted ?t \<or> HeapTupleHeaderXminInvalid ?t")
    case True
    then have d: "dirty_xmin v buffer s' ?t = map_sum (\<lambda>(r, t). (r, t, s')) id (self_xmin v buffer ?t)"
      using dirty_xmin_self assms(4,5) by blast
    have "xmin_done v ?t (self_xmin v buffer ?t)" by (rule self_xmin_good[OF assms(2-)])
    then show ?thesis using xmax
      unfolding HeapTupleSatisfiesDirty_def s'_def[symmetric] d
      by (cases "self_xmin v buffer ?t") (auto simp: d xmin_done_def good_def s'_def[symmetric] split: prod.splits intro: hinted_trans)
  next
    case False
    then show ?thesis using assms good_refl[OF assms(2)]
      by (simp add: HeapTupleSatisfiesDirty_def dirty_xmin_def raw_fields Let_def)
  qed
qed

end
