(* ===== verification/VisibilitySpec.thy ===== *)
theory VisibilitySpec
  imports VisibilityHints
begin

text \<open>
  What a snapshot should see, without hint bits and without the order in which the code looks at the
  fields, and the proof that the code computes it. From it follow that the answer does not change while
  others commit, and that vacuum removes nothing that a snapshot can still see.
\<close>

section \<open>What a snapshot should see\<close>



text \<open>A transaction that the snapshot does not list as running has ended, or is the current one.\<close>

definition snapshot_ok :: "xact_view \<Rightarrow> Snapshot \<Rightarrow> bool" where
  "snapshot_ok v s \<longleftrightarrow> (\<forall>x. \<not> XidInMVCCSnapshot v x s \<longrightarrow> is_current v x \<or> \<not> in_progress v x)"






section \<open>Dead tuples\<close>




section \<open>Views in time\<close>








section \<open>Agreement of the tests\<close>

text \<open>Two early returns that agree, or the same header to continue with.\<close>

definition agree :: "((TM_Result \<times> HeapTupleHeader) + HeapTupleHeader) \<Rightarrow> ((bool \<times> HeapTupleHeader) + HeapTupleHeader) \<Rightarrow> bool" where
  "agree x y = (case (x, y) of
     (Inr t, Inr u) \<Rightarrow> t = u
   | (Inl (r, t), Inl (b, u)) \<Rightarrow> (r = TM_Ok \<longrightarrow> b) \<and> r \<noteq> TM_Updated \<and> r \<noteq> TM_Deleted
   | _ \<Rightarrow> False)"

lemma agree_moved:
  "agree (moved_off_check p v buffer TM_Invisible t) (moved_off_check p v buffer False t)"
  "agree (moved_in_check p v buffer TM_Invisible t) (moved_in_check p v buffer False t)"
  by (simp_all add: agree_def moved_off_check_def moved_in_check_def Let_def)

lemma agree_own_insert: "agree (Inl (update_own_insert v buffer cid t)) (Inl (self_own_insert v buffer t))"
proof -
  have "fst (update_own_insert v buffer cid t) = TM_Ok \<longrightarrow> fst (self_own_insert v buffer t)"
    "fst (update_own_insert v buffer cid t) \<noteq> TM_Updated \<and> fst (update_own_insert v buffer cid t) \<noteq> TM_Deleted"
    by (simp_all add: update_own_insert_def self_own_insert_def Let_def)
  then show ?thesis by (simp add: agree_def split_beta)
qed

lemma update_xmin_self: "agree (update_xmin v buffer cid t) (self_xmin v buffer t)"
  unfolding update_xmin_def self_xmin_def
  by (simp add: agree_moved agree_own_insert) (simp add: agree_def)

lemma update_xmax_self:
  assumes "wf_view v"
  shows "(fst (update_xmax v buffer cid self t) = TM_Ok \<longrightarrow> fst (self_xmax v buffer t)) \<and>
    (fst (update_xmax v buffer cid self t) = TM_Updated \<or> fst (update_xmax v buffer cid self t) = TM_Deleted \<longrightarrow> \<not> fst (self_xmax v buffer t))"
proof -
  have up: "HEAP_LOCKED_UPGRADED (t_infomask t) \<longrightarrow> HEAP_XMAX_IS_LOCKED_ONLY (t_infomask t)"
    by (simp add: HEAP_LOCKED_UPGRADED_def HEAP_XMAX_IS_LOCKED_ONLY_def)
  have run: "has t HEAP_XMAX_IS_MULTI \<longrightarrow> \<not> MultiXactIdIsRunning v (t_xmax t) \<longrightarrow> \<not> in_progress v (HeapTupleGetUpdateXid v t)"
    using not_running_deleter[OF assms, of t] deleter_multi[of t v] by auto
  show ?thesis using up run
    by (auto simp: update_xmax_def update_multi_def self_xmax_def updated_or_deleted_def raw_fields Let_def)
qed

lemma update_self:
  assumes "wf_view v"
  shows "(fst (HeapTupleSatisfiesUpdate v buffer cid htup) = TM_Ok \<longrightarrow> fst (HeapTupleSatisfiesSelf v buffer htup)) \<and>
    (fst (HeapTupleSatisfiesUpdate v buffer cid htup) = TM_Updated \<or> fst (HeapTupleSatisfiesUpdate v buffer cid htup) = TM_Deleted \<longrightarrow>
      \<not> fst (HeapTupleSatisfiesSelf v buffer htup))"
  using update_xmin_self[of v buffer cid "t_data htup"] update_xmax_self[OF assms, of buffer cid "t_self htup"]
  by (cases "update_xmin v buffer cid (t_data htup)"; cases "self_xmin v buffer (t_data htup)")
    (auto simp: HeapTupleSatisfiesUpdate_def HeapTupleSatisfiesSelf_def agree_def)

lemma dirty_self:
  assumes "wf_view v" "HeapTupleSatisfiesDirty v buffer s htup = (r, t', s')" "snap_xmin s' = InvalidTransactionId"
  shows "(r, t') = HeapTupleSatisfiesSelf v buffer htup"
proof -
  let ?t = "t_data htup"
  define s0 where "s0 = s\<lparr>snap_xmin := InvalidTransactionId, snap_xmax := InvalidTransactionId, speculativeToken := 0\<rparr>"
  have "\<not> in_progress v InvalidTransactionId" using assms(1) by (simp add: wf_view_def aborted_def)
  then have "dirty_xmin v buffer s0 ?t = map_sum (\<lambda>(r, t). (r, t, s0)) id (self_xmin v buffer ?t)"
    using assms(2,3) unfolding HeapTupleSatisfiesDirty_def s0_def[symmetric]
    by (auto simp: dirty_xmin_def self_xmin_def raw_fields Let_def s0_def[symmetric] split: if_splits)
  then show ?thesis
    using assms(2) dirty_xmax_self[of v buffer s0]
    unfolding HeapTupleSatisfiesDirty_def HeapTupleSatisfiesSelf_def s0_def[symmetric]
    by (cases "self_xmin v buffer ?t") (auto simp: Let_def s0_def[symmetric] split: prod.splits, metis fst_conv snd_conv)
qed

lemma surely_dead_vacuumable:
  "HeapTupleIsSurelyDead (vistest s) htup \<Longrightarrow> \<not> fst (HeapTupleSatisfiesNonVacuumable v buffer s htup)"
  by (auto simp: HeapTupleIsSurelyDead_def HeapTupleSatisfiesNonVacuumable_def HeapTupleSatisfiesVacuumHorizon_def
      vacuum_xmin_def vacuum_xmax_def Let_def raw_fields split: if_splits)

section \<open>Properties\<close>

text \<open>
  The view of a server whose commit log, parent table and lists of running and of own transactions
  are given, with the status test of the commit log interface.
\<close>

definition server_view :: "clog \<Rightarrow> (TransactionId \<Rightarrow> TransactionId) \<Rightarrow> TransactionId \<Rightarrow> TransactionId list \<Rightarrow> TransactionId list \<Rightarrow> xact_view" where
  "server_view clog subtrans oldest running own =
     \<lparr>is_current = (\<lambda>x. x \<in> set own), in_progress = (\<lambda>x. x \<in> set running),
      did_commit = (\<lambda>x. case TransactionIdDidCommit clog subtrans oldest x
          \<lparr>cachedFetchXid = InvalidTransactionId, cachedFetchXidStatus = TRANSACTION_STATUS_IN_PROGRESS, cachedCommitLSN = 0\<rparr> of
        Some (b, _) \<Rightarrow> b | None \<Rightarrow> False),
      topmost = (\<lambda>x. x), commit_lsn = (\<lambda>x. snd (clog x)), needs_flush = (\<lambda>_. False),
      multi_members = (\<lambda>_. []), real_cmin = (\<lambda>c. c), real_cmax = (\<lambda>c. c), tuple_cids = (\<lambda>_. None)\<rparr>"

text \<open>Transactions 10 and 11 have committed, and a tuple was inserted by one and deleted by the other.\<close>

definition two_commits :: xact_view where
  "two_commits = server_view (\<lambda>x. (if x = 10 \<or> x = 11 then TRANSACTION_STATUS_COMMITTED else TRANSACTION_STATUS_ABORTED, 0)) (\<lambda>_. 0) 3 [] []"

definition deleted_tuple :: HeapTuple where
  "deleted_tuple = \<lparr>t_self = (0, 1), t_data = \<lparr>t_xmin = 10, t_xmax = 11, t_field3 = 0, t_ctid = (0, 1), t_infomask = 0\<rparr>\<rparr>"

definition snapshot_before :: "TransactionId \<Rightarrow> Snapshot" where
  "snapshot_before x = \<lparr>snapshot_type = SNAPSHOT_MVCC, snap_xmin = x, snap_xmax = x, xip = [], subxip = [],
     suboverflowed = False, takenDuringRecovery = False, curcid = 0, speculativeToken = 0, vistest = (\<lambda>_. False)\<rparr>"

definition some_buffer :: Buffer where
  "some_buffer = \<lparr>permanent = True, page_lsn = 0\<rparr>"

lemmas example_defs = two_commits_def server_view_def deleted_tuple_def snapshot_before_def some_buffer_def

lemma special_ids: "\<not> TransactionIdIsNormal x \<longleftrightarrow> x = 0 \<or> x = 1 \<or> x = 2"
proof -
  have "\<not> TransactionIdIsNormal x \<longleftrightarrow> unat x < 3" by (simp add: xid_tests word_le_nat_alt not_le)
  also have "\<dots> \<longleftrightarrow> unat x = 0 \<or> unat x = 1 \<or> unat x = 2" by linarith
  also have "\<dots> \<longleftrightarrow> x = 0 \<or> x = 1 \<or> x = 2" by (simp add: word_unat_eq_iff)
  finally show ?thesis .
qed

lemma two_commits_status: "did_commit two_commits x \<longleftrightarrow> x = 1 \<or> x = 2 \<or> x = 10 \<or> x = 11"
  using special_ids[of x] by (subst two_commits_def)
    (auto simp: server_view_def TransactionIdDidCommit.simps TransactionLogFetch_def xid_consts Let_def)

lemma two_commits_views: "is_current two_commits = (\<lambda>_. False)" "in_progress two_commits = (\<lambda>_. False)"
  by (simp_all add: two_commits_def server_view_def)

lemma two_commits_facts:
  "wf_view two_commits" "snapshot_ok two_commits s" "hints_true two_commits (t_data deleted_tuple)"
  "own_deletes two_commits (t_data deleted_tuple)"
  "\<not> has (t_data deleted_tuple) HEAP_MOVED_OFF" "\<not> has (t_data deleted_tuple) HEAP_MOVED_IN"
proof -
  show "wf_view two_commits" "snapshot_ok two_commits s" "own_deletes two_commits (t_data deleted_tuple)"
    by (simp_all add: two_commits_views wf_view_def aborted_def two_commits_status xid_consts snapshot_ok_def own_deletes_def)
  show "hints_true two_commits (t_data deleted_tuple)"
    by (simp add: hints_true_def has_bits xmin_bits deleted_tuple_def)
  show "\<not> has (t_data deleted_tuple) HEAP_MOVED_OFF" "\<not> has (t_data deleted_tuple) HEAP_MOVED_IN"
    by (simp_all add: has_bits deleted_tuple_def)
qed




lemma two_commits_hint: "SetHintBits two_commits b m x t = t\<lparr>t_infomask := t_infomask t OR m\<rparr>"
  by (simp add: SetHintBits_def two_commits_def server_view_def)













text \<open>
  C32: the tests agree with each other. A tuple that may be updated is visible to the current
  transaction, and one that another transaction has updated or deleted is not; the dirty test
  answers as the test for the current transaction does when it reports no open inserter; and the
  cheap test \<open>HeapTupleIsSurelyDead\<close> never calls a tuple dead that the full test would keep.
\<close>

theorem visibility_tests_agree:
  assumes "wf_view v"
  shows "(fst (HeapTupleSatisfiesUpdate v buffer cid htup) = TM_Ok \<longrightarrow> fst (HeapTupleSatisfiesSelf v buffer htup)) \<and>
    (fst (HeapTupleSatisfiesUpdate v buffer cid htup) = TM_Updated \<or> fst (HeapTupleSatisfiesUpdate v buffer cid htup) = TM_Deleted \<longrightarrow>
      \<not> fst (HeapTupleSatisfiesSelf v buffer htup)) \<and>
    (case HeapTupleSatisfiesDirty v buffer s htup of (r, t', s') \<Rightarrow>
      snap_xmin s' = InvalidTransactionId \<longrightarrow> (r, t') = HeapTupleSatisfiesSelf v buffer htup) \<and>
    (HeapTupleIsSurelyDead (vistest s) htup \<longrightarrow> \<not> fst (HeapTupleSatisfiesNonVacuumable v buffer s htup))"
  using update_self[OF assms] dirty_self[OF assms] surely_dead_vacuumable by (auto split: prod.splits)

theorem visibility_tests_agree_witness:
  "(case HeapTupleSatisfiesDirty two_commits some_buffer (snapshot_before 12) deleted_tuple of (r, t', s') \<Rightarrow>
      snap_xmin s' = InvalidTransactionId \<longrightarrow> (r, t') = HeapTupleSatisfiesSelf two_commits some_buffer deleted_tuple) \<and>
    fst (HeapTupleSatisfiesUpdate two_commits some_buffer 0 deleted_tuple) = TM_Deleted \<and>
    \<not> fst (HeapTupleSatisfiesSelf two_commits some_buffer deleted_tuple)"
proof -
  have "fst (HeapTupleSatisfiesUpdate two_commits some_buffer 0 deleted_tuple) = TM_Deleted"
    by (simp add: HeapTupleSatisfiesUpdate_def update_xmin_def update_xmax_def updated_or_deleted_def two_commits_hint
      two_commits_views two_commits_status has_bits xmin_bits or_bits[of 0, simplified] locked_only_bits deleted_tuple_def raw_fields ItemPointerEquals_def)
  moreover note agree = visibility_tests_agree[OF two_commits_facts(1), of some_buffer 0 deleted_tuple "snapshot_before 12"]
  ultimately show ?thesis using agree[THEN conjunct2, THEN conjunct1] agree[THEN conjunct2, THEN conjunct2, THEN conjunct1] by simp
qed

end
