(* ===== verification/PageBytes.thy ===== *)
theory PageBytes
  imports Transam
begin

text \<open>
  Disk pages as bytes. A page is the memory from its first byte on: the addresses below \<open>BLCKSZ\<close> are
  the page, the ones above are whatever lies behind it in the buffer pool. The fields of the page
  header and the line pointers are read from and written to their bytes, in the layout of a little
  endian machine, so that line pointers and tuples share one memory as they do in the code.
  \<open>src/include/storage/bufpage.h\<close> and \<open>itemid.h\<close> of the database server are modelled here.
\<close>

section \<open>Memory\<close>

type_synonym bytes = "nat \<Rightarrow> uint8"

definition get16 :: "bytes \<Rightarrow> nat \<Rightarrow> uint16" where
  "get16 m a = ucast (m a) OR push_bit 8 (ucast (m (a + 1)))"

definition put16 :: "bytes \<Rightarrow> nat \<Rightarrow> uint16 \<Rightarrow> bytes" where
  "put16 m a v = m(a := ucast v, a + 1 := ucast (drop_bit 8 v))"

definition get32 :: "bytes \<Rightarrow> nat \<Rightarrow> uint32" where
  "get32 m a = ucast (get16 m a) OR push_bit 16 (ucast (get16 m (a + 2)))"

definition put32 :: "bytes \<Rightarrow> nat \<Rightarrow> uint32 \<Rightarrow> bytes" where
  "put32 m a v = put16 (put16 m a (ucast v)) (a + 2) (ucast (drop_bit 16 v))"

text \<open>Copying between two memories, within one, from an array of bytes, and filling.\<close>

definition memcpy :: "bytes \<Rightarrow> nat \<Rightarrow> bytes \<Rightarrow> nat \<Rightarrow> nat \<Rightarrow> bytes" where
  "memcpy m dst s src n = (\<lambda>a. if dst \<le> a \<and> a < dst + n then s (src + (a - dst)) else m a)"

definition memmove :: "bytes \<Rightarrow> nat \<Rightarrow> nat \<Rightarrow> nat \<Rightarrow> bytes" where
  "memmove m dst src n = memcpy m dst m src n"

definition store_bytes :: "bytes \<Rightarrow> nat \<Rightarrow> uint8 list \<Rightarrow> bytes" where
  "store_bytes m dst xs = (\<lambda>a. if dst \<le> a \<and> a < dst + length xs then xs ! (a - dst) else m a)"

definition load_bytes :: "bytes \<Rightarrow> nat \<Rightarrow> nat \<Rightarrow> uint8 list" where
  "load_bytes m a n = map m [a ..< a + n]"

definition memset :: "bytes \<Rightarrow> nat \<Rightarrow> uint8 \<Rightarrow> nat \<Rightarrow> bytes" where
  "memset m dst c n = (\<lambda>a. if dst \<le> a \<and> a < dst + n then c else m a)"

section \<open>Sizes\<close>

definition SizeOfPageHeaderData :: nat where "SizeOfPageHeaderData = 24"
definition sizeof_ItemIdData :: nat where "sizeof_ItemIdData = 4"
definition SizeofHeapTupleHeader :: nat where "SizeofHeapTupleHeader = 23"
definition sizeof_IndexTupleData :: nat where "sizeof_IndexTupleData = 8"

definition MAXALIGN :: "nat \<Rightarrow> nat" where
  "MAXALIGN len = (len + 7) div 8 * 8"

definition MaxHeapTuplesPerPage :: nat where
  "MaxHeapTuplesPerPage = (BLCKSZ - SizeOfPageHeaderData) div (MAXALIGN SizeofHeapTupleHeader + sizeof_ItemIdData)"

definition MaxIndexTuplesPerPage :: nat where
  "MaxIndexTuplesPerPage = (BLCKSZ - SizeOfPageHeaderData) div (MAXALIGN (sizeof_IndexTupleData + 1) + sizeof_ItemIdData)"

section \<open>Line pointers\<close>

record ItemIdData =
  lp_off :: "15 word"
  lp_flags :: "2 word"
  lp_len :: "15 word"

definition LP_UNUSED :: "2 word" where "LP_UNUSED = 0"
definition LP_NORMAL :: "2 word" where "LP_NORMAL = 1"
definition LP_REDIRECT :: "2 word" where "LP_REDIRECT = 2"
definition LP_DEAD :: "2 word" where "LP_DEAD = 3"

definition ItemIdGetLength :: "ItemIdData \<Rightarrow> nat" where "ItemIdGetLength itemId = unat (lp_len itemId)"
definition ItemIdGetOffset :: "ItemIdData \<Rightarrow> nat" where "ItemIdGetOffset itemId = unat (lp_off itemId)"
definition ItemIdGetFlags :: "ItemIdData \<Rightarrow> 2 word" where "ItemIdGetFlags itemId = lp_flags itemId"
definition ItemIdGetRedirect :: "ItemIdData \<Rightarrow> nat" where "ItemIdGetRedirect itemId = unat (lp_off itemId)"
definition ItemIdIsUsed :: "ItemIdData \<Rightarrow> bool" where "ItemIdIsUsed itemId = (lp_flags itemId \<noteq> LP_UNUSED)"
definition ItemIdIsNormal :: "ItemIdData \<Rightarrow> bool" where "ItemIdIsNormal itemId = (lp_flags itemId = LP_NORMAL)"
definition ItemIdIsRedirected :: "ItemIdData \<Rightarrow> bool" where "ItemIdIsRedirected itemId = (lp_flags itemId = LP_REDIRECT)"
definition ItemIdIsDead :: "ItemIdData \<Rightarrow> bool" where "ItemIdIsDead itemId = (lp_flags itemId = LP_DEAD)"
definition ItemIdHasStorage :: "ItemIdData \<Rightarrow> bool" where "ItemIdHasStorage itemId = (lp_len itemId \<noteq> 0)"

definition ItemIdSetUnused :: "ItemIdData \<Rightarrow> ItemIdData" where
  "ItemIdSetUnused itemId = itemId\<lparr>lp_flags := LP_UNUSED, lp_off := 0, lp_len := 0\<rparr>"

definition ItemIdSetNormal :: "ItemIdData \<Rightarrow> nat \<Rightarrow> nat \<Rightarrow> ItemIdData" where
  "ItemIdSetNormal itemId off len = itemId\<lparr>lp_flags := LP_NORMAL, lp_off := of_nat off, lp_len := of_nat len\<rparr>"

definition ItemIdSetRedirect :: "ItemIdData \<Rightarrow> nat \<Rightarrow> ItemIdData" where
  "ItemIdSetRedirect itemId link = itemId\<lparr>lp_flags := LP_REDIRECT, lp_off := of_nat link, lp_len := 0\<rparr>"

definition ItemIdSetDead :: "ItemIdData \<Rightarrow> ItemIdData" where
  "ItemIdSetDead itemId = itemId\<lparr>lp_flags := LP_DEAD, lp_off := 0, lp_len := 0\<rparr>"

definition ItemIdMarkDead :: "ItemIdData \<Rightarrow> ItemIdData" where
  "ItemIdMarkDead itemId = itemId\<lparr>lp_flags := LP_DEAD\<rparr>"

text \<open>The bit fields of a line pointer in its 32 bits.\<close>

definition itemid_of_word :: "uint32 \<Rightarrow> ItemIdData" where
  "itemid_of_word v = \<lparr>lp_off = ucast v, lp_flags = ucast (drop_bit 15 v), lp_len = ucast (drop_bit 17 v)\<rparr>"

definition word_of_itemid :: "ItemIdData \<Rightarrow> uint32" where
  "word_of_itemid lp = ucast (lp_off lp) OR push_bit 15 (ucast (lp_flags lp)) OR push_bit 17 (ucast (lp_len lp))"

definition linp_addr :: "nat \<Rightarrow> nat" where
  "linp_addr i = SizeOfPageHeaderData + sizeof_ItemIdData * i"

definition get_linp :: "bytes \<Rightarrow> nat \<Rightarrow> ItemIdData" where
  "get_linp page i = itemid_of_word (get32 page (linp_addr i))"

definition put_linp :: "bytes \<Rightarrow> nat \<Rightarrow> ItemIdData \<Rightarrow> bytes" where
  "put_linp page i lp = put32 page (linp_addr i) (word_of_itemid lp)"

section \<open>The page header\<close>

definition pd_checksum :: "bytes \<Rightarrow> uint16" where "pd_checksum page = get16 page 8"
definition pd_flags :: "bytes \<Rightarrow> uint16" where "pd_flags page = get16 page 10"
definition pd_lower :: "bytes \<Rightarrow> nat" where "pd_lower page = unat (get16 page 12)"
definition pd_upper :: "bytes \<Rightarrow> nat" where "pd_upper page = unat (get16 page 14)"
definition pd_special :: "bytes \<Rightarrow> nat" where "pd_special page = unat (get16 page 16)"
definition pd_pagesize_version :: "bytes \<Rightarrow> uint16" where "pd_pagesize_version page = get16 page 18"
definition pd_prune_xid :: "bytes \<Rightarrow> TransactionId" where "pd_prune_xid page = get32 page 20"

definition set_checksum :: "bytes \<Rightarrow> uint16 \<Rightarrow> bytes" where "set_checksum page v = put16 page 8 v"
definition set_flags :: "bytes \<Rightarrow> uint16 \<Rightarrow> bytes" where "set_flags page v = put16 page 10 v"
definition set_lower :: "bytes \<Rightarrow> nat \<Rightarrow> bytes" where "set_lower page v = put16 page 12 (of_nat v)"
definition set_upper :: "bytes \<Rightarrow> nat \<Rightarrow> bytes" where "set_upper page v = put16 page 14 (of_nat v)"
definition set_special :: "bytes \<Rightarrow> nat \<Rightarrow> bytes" where "set_special page v = put16 page 16 (of_nat v)"
definition set_prune_xid :: "bytes \<Rightarrow> TransactionId \<Rightarrow> bytes" where "set_prune_xid page v = put32 page 20 v"

definition PD_HAS_FREE_LINES :: uint16 where "PD_HAS_FREE_LINES = 1"
definition PD_PAGE_FULL :: uint16 where "PD_PAGE_FULL = 2"
definition PD_ALL_VISIBLE :: uint16 where "PD_ALL_VISIBLE = 4"
definition PD_VALID_FLAG_BITS :: uint16 where "PD_VALID_FLAG_BITS = 7"
definition PG_PAGE_LAYOUT_VERSION :: uint16 where "PG_PAGE_LAYOUT_VERSION = 4"

definition PageIsEmpty :: "bytes \<Rightarrow> bool" where "PageIsEmpty page = (pd_lower page \<le> SizeOfPageHeaderData)"
definition PageIsNew :: "bytes \<Rightarrow> bool" where "PageIsNew page = (pd_upper page = 0)"

definition PageGetItemId :: "bytes \<Rightarrow> nat \<Rightarrow> ItemIdData" where
  "PageGetItemId page offsetNumber = get_linp page (offsetNumber - 1)"

definition PageGetContents :: "bytes \<Rightarrow> nat" where "PageGetContents page = MAXALIGN SizeOfPageHeaderData"

definition PageGetPageSize :: "bytes \<Rightarrow> nat" where
  "PageGetPageSize page = unat (pd_pagesize_version page AND 0xFF00)"

definition PageGetPageLayoutVersion :: "bytes \<Rightarrow> uint8" where
  "PageGetPageLayoutVersion page = ucast (pd_pagesize_version page AND 0x00FF)"

definition PageSetPageSizeAndVersion :: "bytes \<Rightarrow> nat \<Rightarrow> uint16 \<Rightarrow> bytes" where
  "PageSetPageSizeAndVersion page sz version = put16 page 18 (of_nat sz OR version)"

definition PageGetSpecialSize :: "bytes \<Rightarrow> uint16" where
  "PageGetSpecialSize page = of_nat (PageGetPageSize page) - of_nat (pd_special page)"

definition PageGetSpecialPointer :: "bytes \<Rightarrow> nat" where "PageGetSpecialPointer page = pd_special page"

definition PageGetItem :: "ItemIdData \<Rightarrow> nat" where "PageGetItem itemId = ItemIdGetOffset itemId"

definition PageGetMaxOffsetNumber :: "bytes \<Rightarrow> nat" where
  "PageGetMaxOffsetNumber page =
     (if pd_lower page \<le> SizeOfPageHeaderData then 0
      else (pd_lower page - SizeOfPageHeaderData) div sizeof_ItemIdData)"

definition PageGetLSN :: "bytes \<Rightarrow> XLogRecPtr" where
  "PageGetLSN page = push_bit 32 (ucast (get32 page 0)) OR ucast (get32 page 4)"

definition PageSetLSN :: "bytes \<Rightarrow> XLogRecPtr \<Rightarrow> bytes" where
  "PageSetLSN page lsn = put32 (put32 page 0 (ucast (drop_bit 32 lsn))) 4 (ucast lsn)"

definition PageHasFreeLinePointers :: "bytes \<Rightarrow> bool" where
  "PageHasFreeLinePointers page = (pd_flags page AND PD_HAS_FREE_LINES \<noteq> 0)"
definition PageSetHasFreeLinePointers :: "bytes \<Rightarrow> bytes" where
  "PageSetHasFreeLinePointers page = set_flags page (pd_flags page OR PD_HAS_FREE_LINES)"
definition PageClearHasFreeLinePointers :: "bytes \<Rightarrow> bytes" where
  "PageClearHasFreeLinePointers page = set_flags page (pd_flags page AND NOT PD_HAS_FREE_LINES)"
definition PageIsFull :: "bytes \<Rightarrow> bool" where
  "PageIsFull page = (pd_flags page AND PD_PAGE_FULL \<noteq> 0)"
definition PageSetFull :: "bytes \<Rightarrow> bytes" where
  "PageSetFull page = set_flags page (pd_flags page OR PD_PAGE_FULL)"
definition PageClearFull :: "bytes \<Rightarrow> bytes" where
  "PageClearFull page = set_flags page (pd_flags page AND NOT PD_PAGE_FULL)"
definition PageIsAllVisible :: "bytes \<Rightarrow> bool" where
  "PageIsAllVisible page = (pd_flags page AND PD_ALL_VISIBLE \<noteq> 0)"
definition PageSetAllVisible :: "bytes \<Rightarrow> bytes" where
  "PageSetAllVisible page = set_flags page (pd_flags page OR PD_ALL_VISIBLE)"
definition PageClearAllVisible :: "bytes \<Rightarrow> bytes" where
  "PageClearAllVisible page = set_flags page (pd_flags page AND NOT PD_ALL_VISIBLE)"

definition PageSetPrunable :: "bytes \<Rightarrow> TransactionId \<Rightarrow> bytes" where
  "PageSetPrunable page xid =
     (if \<not> TransactionIdIsValid (pd_prune_xid page) \<or> TransactionIdPrecedes xid (pd_prune_xid page)
      then set_prune_xid page xid else page)"
definition PageClearPrunable :: "bytes \<Rightarrow> bytes" where
  "PageClearPrunable page = set_prune_xid page InvalidTransactionId"

end
