(* ===== verification/PageLayout.thy ===== *)
theory PageLayout
  imports PageBytes
begin

text \<open>
  The operations on slotted pages of \<open>src/backend/storage/page/bufpage.c\<close>, with the page checksum of
  \<open>src/include/storage/checksum_impl.h\<close>. An operation that raises an error returns \<open>Inl\<close> and the page is
  then not considered further. \<open>Overrun\<close>
  stands for a write or read past the end of a local array, which is undefined in C.
\<close>

datatype page_error = CorruptedPagePointers | CorruptedLinePointer | CorruptedItemLengths
  | InvalidIndexOffnum | IncorrectIndexOffsets | Overrun

section \<open>Checksum\<close>

definition N_SUMS :: nat where "N_SUMS = 32"
definition FNV_PRIME :: uint32 where "FNV_PRIME = 16777619"

definition checksumBaseOffsets :: "uint32 list" where
  "checksumBaseOffsets = [
     0x5B1F36E9, 0xB8525960, 0x02AB50AA, 0x1DE66D2A, 0x79FF467A, 0x9BB9F8A3, 0x217E7CD2, 0x83E13D2C,
     0xF8D4474F, 0xE39EB970, 0x42C6AE16, 0x993216FA, 0x7B093B5D, 0x98DAFF3C, 0xF718902A, 0x0B1C9CDB,
     0xE58F764B, 0x187636BC, 0x5D7B3BB1, 0xE73DE7DE, 0x92BEC979, 0xCCA6C0B2, 0x304A0979, 0x85AA43D4,
     0x783125BB, 0x6CA8EAA2, 0xE407EAC6, 0x4B5CFC3E, 0x9FBF8C76, 0x15CA20BE, 0xF2CA9FD3, 0x959BD756]"

definition CHECKSUM_COMP :: "uint32 \<Rightarrow> uint32 \<Rightarrow> uint32" where
  "CHECKSUM_COMP checksum v = (let tmp = checksum XOR v in (tmp * FNV_PRIME) XOR drop_bit 17 tmp)"

text \<open>Row \<open>i\<close> of the page as a matrix of 32-bit values, and one round over it.\<close>

definition checksum_row :: "bytes \<Rightarrow> nat \<Rightarrow> uint32 list" where
  "checksum_row page i = map (\<lambda>j. get32 page (4 * (i * N_SUMS + j))) [0 ..< N_SUMS]"

definition pg_checksum_block :: "bytes \<Rightarrow> uint32" where
  "pg_checksum_block page =
     (let sums = fold (\<lambda>i sums. map2 CHECKSUM_COMP sums (checksum_row page i)) [0 ..< BLCKSZ div (4 * N_SUMS)] checksumBaseOffsets;
          sums = fold (\<lambda>i sums. map (\<lambda>s. CHECKSUM_COMP s 0) sums) [0 ..< 2] sums
      in fold (\<lambda>s result. result XOR s) sums 0)"

definition pg_checksum_page :: "bytes \<Rightarrow> uint32 \<Rightarrow> uint16" where
  "pg_checksum_page page blkno =
     (let checksum = pg_checksum_block (set_checksum page 0) XOR blkno
      in ucast (checksum mod 65535 + 1))"

section \<open>Initialising and verifying\<close>

definition PageInit :: "bytes \<Rightarrow> nat \<Rightarrow> nat \<Rightarrow> bytes" where
  "PageInit page pageSize specialSize =
     (let specialSize = MAXALIGN specialSize;
          p = memset page 0 0 pageSize;
          p = set_flags p 0;
          p = set_lower p SizeOfPageHeaderData;
          p = set_upper p (pageSize - specialSize);
          p = set_special p (pageSize - specialSize)
      in PageSetPageSizeAndVersion p pageSize PG_PAGE_LAYOUT_VERSION)"

definition PIV_LOG_WARNING :: int where "PIV_LOG_WARNING = 1"
definition PIV_REPORT_STAT :: int where "PIV_REPORT_STAT = 2"

definition all_zeroes :: "bytes \<Rightarrow> bool" where
  "all_zeroes page = list_all (\<lambda>a. page a = 0) [0 ..< BLCKSZ]"

text \<open>
  The answer, whether a warning is logged, and whether the failure is reported to the statistics. The
  first two arguments say whether data checksums are enabled and whether their failures are ignored.
\<close>

definition PageIsVerifiedExtended :: "bool \<Rightarrow> bool \<Rightarrow> bytes \<Rightarrow> uint32 \<Rightarrow> int \<Rightarrow> bool \<times> bool \<times> bool" where
  "PageIsVerifiedExtended DataChecksumsEnabled ignore_checksum_failure page blkno flags =
     (let checksum_failure = (\<not> PageIsNew page \<and> DataChecksumsEnabled \<and> pg_checksum_page page blkno \<noteq> pd_checksum page);
          header_sane = (\<not> PageIsNew page \<and> (pd_flags page AND NOT PD_VALID_FLAG_BITS) = 0 \<and>
            pd_lower page \<le> pd_upper page \<and> pd_upper page \<le> pd_special page \<and>
            pd_special page \<le> BLCKSZ \<and> pd_special page = MAXALIGN (pd_special page))
      in if \<not> PageIsNew page \<and> header_sane \<and> \<not> checksum_failure then (True, False, False)
      else if all_zeroes page then (True, False, False)
      else if checksum_failure then
        (header_sane \<and> ignore_checksum_failure, flags AND PIV_LOG_WARNING \<noteq> 0, flags AND PIV_REPORT_STAT \<noteq> 0)
      else (False, False, False))"

definition PageSetChecksumCopy :: "bool \<Rightarrow> bytes \<Rightarrow> uint32 \<Rightarrow> bytes" where
  "PageSetChecksumCopy DataChecksumsEnabled page blkno =
     (if PageIsNew page \<or> \<not> DataChecksumsEnabled then page
      else set_checksum page (pg_checksum_page page blkno))"

definition PageSetChecksumInplace :: "bool \<Rightarrow> bytes \<Rightarrow> uint32 \<Rightarrow> bytes" where
  "PageSetChecksumInplace DataChecksumsEnabled page blkno =
     (if PageIsNew page \<or> \<not> DataChecksumsEnabled then page
      else set_checksum page (pg_checksum_page page blkno))"

section \<open>Adding an item\<close>

definition InvalidOffsetNumber :: nat where "InvalidOffsetNumber = 0"
definition FirstOffsetNumber :: nat where "FirstOffsetNumber = 1"
definition MaxOffsetNumber :: nat where "MaxOffsetNumber = BLCKSZ div sizeof_ItemIdData"

definition OffsetNumberIsValid :: "nat \<Rightarrow> bool" where
  "OffsetNumberIsValid offsetNumber = (offsetNumber \<noteq> InvalidOffsetNumber \<and> offsetNumber \<le> MaxOffsetNumber)"

definition PAI_OVERWRITE :: int where "PAI_OVERWRITE = 1"
definition PAI_IS_HEAP :: int where "PAI_IS_HEAP = 2"

text \<open>The conversion to a C int.\<close>

definition c_int :: "nat \<Rightarrow> int" where
  "c_int n = sint (of_nat n :: 32 word)"

function find_free_linp :: "bytes \<Rightarrow> nat \<Rightarrow> nat \<Rightarrow> nat" where
  "find_free_linp page limit offsetNumber =
     (if offsetNumber < limit then
        let itemId = PageGetItemId page offsetNumber in
        if \<not> ItemIdIsUsed itemId \<and> \<not> ItemIdHasStorage itemId then offsetNumber
        else find_free_linp page limit (offsetNumber + 1)
      else offsetNumber)"
  by pat_completeness auto
termination
  by (relation "measure (\<lambda>(page, limit, n). limit - n)") auto

text \<open>
  The choice of the offset: \<open>None\<close> when it refuses, otherwise the offset, whether line pointers have
  to be moved, and the page, whose hint may have been reset.
\<close>

definition select_offset :: "bytes \<Rightarrow> nat \<Rightarrow> nat \<Rightarrow> int \<Rightarrow> (nat \<times> bool \<times> bytes) option" where
  "select_offset page limit offsetNumber flags =
     (if OffsetNumberIsValid offsetNumber then
        if flags AND PAI_OVERWRITE \<noteq> 0 then
          if offsetNumber < limit \<and>
             (ItemIdIsUsed (PageGetItemId page offsetNumber) \<or> ItemIdHasStorage (PageGetItemId page offsetNumber))
          then None
          else Some (offsetNumber, False, page)
        else Some (offsetNumber, offsetNumber < limit, page)
      else if PageHasFreeLinePointers page then
        let offsetNumber = find_free_linp page limit FirstOffsetNumber in
        Some (offsetNumber, False, if offsetNumber \<ge> limit then PageClearHasFreeLinePointers page else page)
      else Some (limit, False, page))"

definition place_item :: "bytes \<Rightarrow> uint8 list \<Rightarrow> nat \<Rightarrow> nat \<Rightarrow> bool \<Rightarrow> nat \<times> bytes" where
  "place_item page item limit offsetNumber needshuffle =
     (let lower = (if offsetNumber = limit \<or> needshuffle then pd_lower page + sizeof_ItemIdData else pd_lower page);
          alignedSize = MAXALIGN (length item);
          upper = int (pd_upper page) - c_int alignedSize
      in if int lower > upper then (InvalidOffsetNumber, page)
      else
        let upper = nat upper;
            page = (if needshuffle then memmove page (linp_addr offsetNumber) (linp_addr (offsetNumber - 1))
              ((limit - offsetNumber) * sizeof_ItemIdData) else page);
            page = put_linp page (offsetNumber - 1) (ItemIdSetNormal (get_linp page (offsetNumber - 1)) upper (length item));
            page = store_bytes page upper item
        in (offsetNumber, set_upper (set_lower page lower) upper))"

definition PageAddItemExtended :: "bytes \<Rightarrow> uint8 list \<Rightarrow> nat \<Rightarrow> int \<Rightarrow> page_error + nat \<times> bytes" where
  "PageAddItemExtended page item offsetNumber flags =
     (if pd_lower page < SizeOfPageHeaderData \<or> pd_lower page > pd_upper page \<or>
         pd_upper page > pd_special page \<or> pd_special page > BLCKSZ
      then Inl CorruptedPagePointers
      else
        let limit = PageGetMaxOffsetNumber page + 1 in
        case select_offset page limit offsetNumber flags of
          None \<Rightarrow> Inr (InvalidOffsetNumber, page)
        | Some (offsetNumber, needshuffle, page) \<Rightarrow>
            if offsetNumber > limit then Inr (InvalidOffsetNumber, page)
            else if flags AND PAI_IS_HEAP \<noteq> 0 \<and> offsetNumber > MaxHeapTuplesPerPage
            then Inr (InvalidOffsetNumber, page)
            else Inr (place_item page item limit offsetNumber needshuffle))"

definition PageAddItem :: "bytes \<Rightarrow> uint8 list \<Rightarrow> nat \<Rightarrow> bool \<Rightarrow> bool \<Rightarrow> page_error + nat \<times> bytes" where
  "PageAddItem page item offsetNumber overwrite is_heap =
     PageAddItemExtended page item offsetNumber
       ((if overwrite then PAI_OVERWRITE else 0) OR (if is_heap then PAI_IS_HEAP else 0))"

section \<open>Temporary pages\<close>

text \<open>The fresh memory of a temporary page is an argument.\<close>

definition PageGetTempPageCopy :: "bytes \<Rightarrow> bytes \<Rightarrow> bytes" where
  "PageGetTempPageCopy temp page = memcpy temp 0 page 0 (PageGetPageSize page)"

definition PageGetTempPageCopySpecial :: "bytes \<Rightarrow> bytes \<Rightarrow> bytes" where
  "PageGetTempPageCopySpecial temp page =
     (let temp = PageInit temp (PageGetPageSize page) (unat (PageGetSpecialSize page))
      in memcpy temp (PageGetSpecialPointer temp) page (PageGetSpecialPointer page) (unat (PageGetSpecialSize page)))"

definition PageRestoreTempPage :: "bytes \<Rightarrow> bytes \<Rightarrow> bytes" where
  "PageRestoreTempPage tempPage oldPage = memcpy oldPage 0 tempPage 0 (PageGetPageSize tempPage)"

section \<open>Moving items together\<close>

record itemIdCompactData =
  offsetindex :: nat
  itemoff :: nat
  alignedlen :: nat

definition item_end :: "itemIdCompactData \<Rightarrow> nat" where
  "item_end it = itemoff it + alignedlen it"

text \<open>Skipping the items that are in their place already.\<close>

fun skip_placed :: "nat \<Rightarrow> itemIdCompactData list \<Rightarrow> nat \<times> itemIdCompactData list" where
  "skip_placed upper [] = (upper, [])"
| "skip_placed upper (it # its) =
     (if upper \<noteq> item_end it then (upper, it # its) else skip_placed (upper - alignedlen it) its)"

text \<open>
  The loop that moves the items. Its first argument copies bytes to the page, from the page itself or
  from the temporary buffer, and may overrun the buffer. The result is the new upper bound and the page.
\<close>

fun compact_loop :: "(bytes \<Rightarrow> nat \<Rightarrow> nat \<Rightarrow> nat \<Rightarrow> bytes option) \<Rightarrow> itemIdCompactData list \<Rightarrow>
    nat \<Rightarrow> nat \<Rightarrow> nat \<Rightarrow> bytes \<Rightarrow> (nat \<times> bytes) option" where
  "compact_loop copy [] upper copy_tail copy_head page =
     (case copy page upper copy_head (copy_tail - copy_head) of None \<Rightarrow> None | Some page \<Rightarrow> Some (upper, page))"
| "compact_loop copy (it # its) upper copy_tail copy_head page =
     (case (if copy_head \<noteq> item_end it then copy page upper copy_head (copy_tail - copy_head) else Some page) of
        None \<Rightarrow> None
      | Some page \<Rightarrow>
          let copy_tail = (if copy_head \<noteq> item_end it then item_end it else copy_tail);
              upper = upper - alignedlen it;
              copy_head = itemoff it;
              page = put_linp page (offsetindex it) ((get_linp page (offsetindex it))\<lparr>lp_off := of_nat upper\<rparr>)
          in compact_loop copy its upper copy_tail copy_head page)"

definition copy_within :: "bytes \<Rightarrow> nat \<Rightarrow> nat \<Rightarrow> nat \<Rightarrow> bytes option" where
  "copy_within page dst src n = Some (memmove page dst src n)"

definition copy_from :: "bytes \<Rightarrow> bytes \<Rightarrow> nat \<Rightarrow> nat \<Rightarrow> nat \<Rightarrow> bytes option" where
  "copy_from scratch page dst src n = (if src + n \<le> BLCKSZ then Some (memcpy page dst scratch src n) else None)"

fun copy_items :: "bytes \<Rightarrow> bytes \<Rightarrow> itemIdCompactData list \<Rightarrow> bytes option" where
  "copy_items scratch page [] = Some scratch"
| "copy_items scratch page (it # its) =
     (if item_end it \<le> BLCKSZ then copy_items (memcpy scratch (itemoff it) page (itemoff it) (alignedlen it)) page its
      else None)"

text \<open>The temporary buffer is not initialised; what it holds is an argument.\<close>

definition compactify_tuples :: "bytes \<Rightarrow> itemIdCompactData list \<Rightarrow> bytes \<Rightarrow> bool \<Rightarrow> bytes option" where
  "compactify_tuples scratch itemidbase page presorted =
     (let start = (\<lambda>its. item_end (case its of it # _ \<Rightarrow> it | [] \<Rightarrow> last itemidbase));
          finish = (\<lambda>r. case r of None \<Rightarrow> None | Some (upper, page) \<Rightarrow> Some (set_upper page upper))
      in if presorted then
        let (upper, its) = skip_placed (pd_special page) itemidbase
        in finish (compact_loop copy_within its upper (start its) (start its) page)
      else if length itemidbase < PageGetMaxOffsetNumber page div 4 then
        case copy_items scratch page itemidbase of None \<Rightarrow> None
        | Some scratch \<Rightarrow>
            finish (compact_loop (copy_from scratch) itemidbase (pd_special page) (start itemidbase) (start itemidbase) page)
      else
        let (upper, its) = skip_placed (pd_special page) itemidbase;
            scratch = memcpy scratch (pd_upper page) page (pd_upper page) (upper - pd_upper page)
        in finish (compact_loop (copy_from scratch) its upper (start its) (start its) page))"

section \<open>Defragmenting heap pages\<close>

text \<open>What the scan over the line pointers collects.\<close>

record repair_scan =
  rs_page :: bytes
  rs_items :: "itemIdCompactData list"
  rs_last_offset :: nat
  rs_presorted :: bool
  rs_totallen :: nat
  rs_nunused :: nat
  rs_finalusedlp :: nat

definition repair_step :: "nat \<Rightarrow> nat \<Rightarrow> nat \<Rightarrow> repair_scan \<Rightarrow> page_error + repair_scan" where
  "repair_step upper special i s =
     (let lp = PageGetItemId (rs_page s) i in
      if ItemIdIsUsed lp then
        if ItemIdHasStorage lp then
          if length (rs_items s) \<ge> MaxHeapTuplesPerPage then Inl Overrun
          else
            let off = ItemIdGetOffset lp; len = MAXALIGN (ItemIdGetLength lp) in
            if off < upper \<or> off \<ge> special then Inl CorruptedLinePointer
            else Inr (s\<lparr>rs_items := rs_items s @ [\<lparr>offsetindex = i - 1, itemoff = off, alignedlen = len\<rparr>],
              rs_last_offset := (if rs_last_offset s > off then off else rs_last_offset s),
              rs_presorted := (if rs_last_offset s > off then rs_presorted s else False),
              rs_totallen := rs_totallen s + len, rs_finalusedlp := i\<rparr>)
        else Inr (s\<lparr>rs_finalusedlp := i\<rparr>)
      else Inr (s\<lparr>rs_page := put_linp (rs_page s) (i - 1) (ItemIdSetUnused lp), rs_nunused := rs_nunused s + 1\<rparr>))"

fun repair_loop :: "nat \<Rightarrow> nat \<Rightarrow> nat list \<Rightarrow> repair_scan \<Rightarrow> page_error + repair_scan" where
  "repair_loop upper special [] s = Inr s"
| "repair_loop upper special (i # is) s =
     (case repair_step upper special i s of Inl e \<Rightarrow> Inl e | Inr s \<Rightarrow> repair_loop upper special is s)"

definition bad_page_pointers :: "bytes \<Rightarrow> bool" where
  "bad_page_pointers page \<longleftrightarrow> pd_lower page < SizeOfPageHeaderData \<or> pd_lower page > pd_upper page \<or>
     pd_upper page > pd_special page \<or> pd_special page > BLCKSZ \<or> pd_special page \<noteq> MAXALIGN (pd_special page)"

definition PageRepairFragmentation :: "bytes \<Rightarrow> bytes \<Rightarrow> page_error + bytes" where
  "PageRepairFragmentation scratch page =
     (if bad_page_pointers page then Inl CorruptedPagePointers
      else let nline = PageGetMaxOffsetNumber page in
      case repair_loop (pd_upper page) (pd_special page) [FirstOffsetNumber ..< nline + 1]
        \<lparr>rs_page = page, rs_items = [], rs_last_offset = pd_special page, rs_presorted = True,
         rs_totallen = 0, rs_nunused = 0, rs_finalusedlp = InvalidOffsetNumber\<rparr> of
        Inl e \<Rightarrow> Inl e
      | Inr s \<Rightarrow>
          case (if rs_items s = [] then Inr (set_upper (rs_page s) (pd_special page))
                else if rs_totallen s > pd_special page - pd_lower page then Inl CorruptedItemLengths
                else case compactify_tuples scratch (rs_items s) (rs_page s) (rs_presorted s) of
                  None \<Rightarrow> Inl Overrun | Some page \<Rightarrow> Inr page) of
            Inl e \<Rightarrow> Inl e
          | Inr page \<Rightarrow>
              let nunusedend = nline - rs_finalusedlp s;
                  nunused = (if rs_finalusedlp s \<noteq> nline then rs_nunused s - nunusedend else rs_nunused s);
                  page = (if rs_finalusedlp s \<noteq> nline then set_lower page (pd_lower page - sizeof_ItemIdData * nunusedend) else page)
              in Inr (if nunused > 0 then PageSetHasFreeLinePointers page else PageClearHasFreeLinePointers page))"

text \<open>The scan from the last line pointer to the first: how many can be cut, and whether one unused stays.\<close>

fun truncate_scan :: "bytes \<Rightarrow> nat \<Rightarrow> bool \<Rightarrow> nat \<Rightarrow> nat \<times> bool" where
  "truncate_scan page 0 countdone nunusedend = (nunusedend, False)"
| "truncate_scan page (Suc n) countdone nunusedend =
     (let i = Suc n; lp = PageGetItemId page i in
      if \<not> countdone \<and> i > FirstOffsetNumber then
        if \<not> ItemIdIsUsed lp then truncate_scan page n countdone (nunusedend + 1)
        else truncate_scan page n True nunusedend
      else if \<not> ItemIdIsUsed lp then (nunusedend, True)
      else truncate_scan page n countdone nunusedend)"

definition PageTruncateLinePointerArray :: "bytes \<Rightarrow> bytes" where
  "PageTruncateLinePointerArray page =
     (let (nunusedend, sethint) = truncate_scan page (PageGetMaxOffsetNumber page) False 0;
          page = (if nunusedend > 0 then set_lower page (pd_lower page - sizeof_ItemIdData * nunusedend) else page)
      in if sethint then PageSetHasFreeLinePointers page else PageClearHasFreeLinePointers page)"

section \<open>Free space\<close>

definition PageGetFreeSpace :: "bytes \<Rightarrow> nat" where
  "PageGetFreeSpace page =
     (let space = int (pd_upper page) - int (pd_lower page) in
      if space < int sizeof_ItemIdData then 0 else nat (space - int sizeof_ItemIdData))"

definition PageGetFreeSpaceForMultipleTuples :: "bytes \<Rightarrow> nat \<Rightarrow> nat" where
  "PageGetFreeSpaceForMultipleTuples page ntups =
     (let space = int (pd_upper page) - int (pd_lower page) in
      if space < int (ntups * sizeof_ItemIdData) then 0 else nat (space - int (ntups * sizeof_ItemIdData)))"

definition PageGetExactFreeSpace :: "bytes \<Rightarrow> nat" where
  "PageGetExactFreeSpace page =
     (let space = int (pd_upper page) - int (pd_lower page) in if space < 0 then 0 else nat space)"

definition PageGetHeapFreeSpace :: "bytes \<Rightarrow> nat" where
  "PageGetHeapFreeSpace page =
     (let space = PageGetFreeSpace page in
      if space > 0 then
        let nline = PageGetMaxOffsetNumber page in
        if nline \<ge> MaxHeapTuplesPerPage then
          if PageHasFreeLinePointers page then
            if list_ex (\<lambda>offnum. \<not> ItemIdIsUsed (PageGetItemId page offnum)) [FirstOffsetNumber ..< nline + 1]
            then space else 0
          else 0
        else space
      else space)"

section \<open>Index pages\<close>

text \<open>
  Adding to the offset of every line pointer up to \<open>n\<close> whose item lies at or before \<open>offset\<close>; with the
  first argument set, only of those that have storage.
\<close>

fun shift_linps :: "bool \<Rightarrow> nat \<Rightarrow> int \<Rightarrow> nat list \<Rightarrow> bytes \<Rightarrow> bytes" where
  "shift_linps check offset delta [] page = page"
| "shift_linps check offset delta (i # is) page =
     (let ii = PageGetItemId page i in
      shift_linps check offset delta is
        (if (check \<longrightarrow> ItemIdHasStorage ii) \<and> ItemIdGetOffset ii \<le> offset
         then put_linp page (i - 1) (ii\<lparr>lp_off := lp_off ii + of_int delta\<rparr>) else page))"

definition bad_line_pointer :: "bytes \<Rightarrow> ItemIdData \<Rightarrow> bool" where
  "bad_line_pointer page tup \<longleftrightarrow> ItemIdGetOffset tup < pd_upper page \<or>
     ItemIdGetOffset tup + ItemIdGetLength tup > pd_special page \<or> ItemIdGetOffset tup \<noteq> MAXALIGN (ItemIdGetOffset tup)"

definition PageIndexTupleDelete :: "bytes \<Rightarrow> nat \<Rightarrow> page_error + bytes" where
  "PageIndexTupleDelete page offnum =
     (if bad_page_pointers page then Inl CorruptedPagePointers
      else let nline = PageGetMaxOffsetNumber page in
      if offnum = 0 \<or> offnum > nline then Inl InvalidIndexOffnum
      else let tup = PageGetItemId page offnum in
      if bad_line_pointer page tup then Inl CorruptedLinePointer
      else
        let offidx = offnum - 1;
            offset = ItemIdGetOffset tup;
            size = MAXALIGN (ItemIdGetLength tup);
            nbytes = pd_lower page - linp_addr (offidx + 1);
            page = (if nbytes > 0 then memmove page (linp_addr offidx) (linp_addr (offidx + 1)) nbytes else page);
            addr = pd_upper page;
            page = (if offset > pd_upper page then memmove page (addr + size) addr (offset - pd_upper page) else page);
            page = set_upper page (pd_upper page + size);
            page = set_lower page (pd_lower page - sizeof_ItemIdData)
        in Inr (if \<not> PageIsEmpty page then shift_linps False offset (int size) [1 ..< nline] page else page))"

definition PageIndexTupleDeleteNoCompact :: "bytes \<Rightarrow> nat \<Rightarrow> page_error + bytes" where
  "PageIndexTupleDeleteNoCompact page offnum =
     (if bad_page_pointers page then Inl CorruptedPagePointers
      else let nline = PageGetMaxOffsetNumber page in
      if offnum = 0 \<or> offnum > nline then Inl InvalidIndexOffnum
      else let tup = PageGetItemId page offnum in
      if bad_line_pointer page tup then Inl CorruptedLinePointer
      else
        let offset = ItemIdGetOffset tup;
            size = MAXALIGN (ItemIdGetLength tup);
            (page, nline) = (if offnum < nline then (put_linp page (offnum - 1) (ItemIdSetUnused tup), nline)
              else (set_lower page (pd_lower page - sizeof_ItemIdData), nline - 1));
            addr = pd_upper page;
            page = (if offset > pd_upper page then memmove page (addr + size) addr (offset - pd_upper page) else page);
            page = set_upper page (pd_upper page + size)
        in Inr (if \<not> PageIsEmpty page then shift_linps True offset (int size) [1 ..< nline + 1] page else page))"

definition PageIndexTupleOverwrite :: "bytes \<Rightarrow> nat \<Rightarrow> uint8 list \<Rightarrow> page_error + bool \<times> bytes" where
  "PageIndexTupleOverwrite page offnum newtup =
     (if bad_page_pointers page then Inl CorruptedPagePointers
      else let itemcount = PageGetMaxOffsetNumber page in
      if offnum = 0 \<or> offnum > itemcount then Inl InvalidIndexOffnum
      else let tupid = PageGetItemId page offnum in
      if bad_line_pointer page tupid then Inl CorruptedLinePointer
      else
        let offset = ItemIdGetOffset tupid;
            oldsize = MAXALIGN (ItemIdGetLength tupid);
            alignednewsize = MAXALIGN (length newtup)
        in if alignednewsize > oldsize + (pd_upper page - pd_lower page) then Inr (False, page)
        else
          let size_diff = int oldsize - int alignednewsize;
              page = (if size_diff \<noteq> 0 then
                let addr = pd_upper page;
                    page = memmove page (nat (int addr + size_diff)) addr (offset - pd_upper page);
                    page = set_upper page (nat (int (pd_upper page) + size_diff))
                in shift_linps True offset size_diff [FirstOffsetNumber ..< itemcount + 1] page else page);
              page = put_linp page (offnum - 1) ((PageGetItemId page offnum)\<lparr>lp_off := of_int (int offset + size_diff), lp_len := of_nat (length newtup)\<rparr>)
          in Inr (True, store_bytes page (PageGetItem (PageGetItemId page offnum)) newtup))"

text \<open>What the scan of the multiple delete collects: the items to keep with their new line pointers.\<close>

record multi_scan =
  ms_items :: "itemIdCompactData list"
  ms_newitemids :: "ItemIdData list"
  ms_last_offset :: nat
  ms_presorted :: bool
  ms_totallen :: nat
  ms_itemnos :: "nat list"

definition multi_step :: "bytes \<Rightarrow> nat \<Rightarrow> multi_scan \<Rightarrow> page_error + multi_scan" where
  "multi_step page offnum s =
     (let lp = PageGetItemId page offnum; len = ItemIdGetLength lp; offset = ItemIdGetOffset lp in
      if bad_line_pointer page lp then Inl CorruptedLinePointer
      else if ms_itemnos s \<noteq> [] \<and> offnum = hd (ms_itemnos s) then Inr (s\<lparr>ms_itemnos := tl (ms_itemnos s)\<rparr>)
      else if length (ms_items s) \<ge> MaxIndexTuplesPerPage then Inl Overrun
      else Inr (s\<lparr>ms_items := ms_items s @ [\<lparr>offsetindex = length (ms_newitemids s), itemoff = offset, alignedlen = MAXALIGN len\<rparr>],
        ms_newitemids := ms_newitemids s @ [lp],
        ms_last_offset := (if ms_last_offset s > offset then offset else ms_last_offset s),
        ms_presorted := (if ms_last_offset s > offset then ms_presorted s else False),
        ms_totallen := ms_totallen s + MAXALIGN len\<rparr>))"

fun multi_loop :: "bytes \<Rightarrow> nat list \<Rightarrow> multi_scan \<Rightarrow> page_error + multi_scan" where
  "multi_loop page [] s = Inr s"
| "multi_loop page (n # ns) s = (case multi_step page n s of Inl e \<Rightarrow> Inl e | Inr s \<Rightarrow> multi_loop page ns s)"

fun put_linps :: "bytes \<Rightarrow> nat \<Rightarrow> ItemIdData list \<Rightarrow> bytes" where
  "put_linps page i [] = page"
| "put_linps page i (lp # lps) = put_linps (put_linp page i lp) (i + 1) lps"

fun delete_each :: "bytes \<Rightarrow> nat list \<Rightarrow> page_error + bytes" where
  "delete_each page [] = Inr page"
| "delete_each page (n # ns) = (case PageIndexTupleDelete page n of Inl e \<Rightarrow> Inl e | Inr page \<Rightarrow> delete_each page ns)"

definition PageIndexMultiDelete :: "bytes \<Rightarrow> bytes \<Rightarrow> nat list \<Rightarrow> page_error + bytes" where
  "PageIndexMultiDelete scratch page itemnos =
     (if length itemnos \<le> 2 then delete_each page (rev itemnos)
      else if bad_page_pointers page then Inl CorruptedPagePointers
      else case multi_loop page [FirstOffsetNumber ..< PageGetMaxOffsetNumber page + 1]
        \<lparr>ms_items = [], ms_newitemids = [], ms_last_offset = pd_special page, ms_presorted = True,
         ms_totallen = 0, ms_itemnos = itemnos\<rparr> of
        Inl e \<Rightarrow> Inl e
      | Inr s \<Rightarrow>
          if ms_itemnos s \<noteq> [] then Inl IncorrectIndexOffsets
          else if ms_totallen s > pd_special page - pd_lower page then Inl CorruptedItemLengths
          else
            let special = pd_special page; nused = length (ms_newitemids s);
                page = put_linps page 0 (ms_newitemids s);
                page = set_lower page (SizeOfPageHeaderData + nused * sizeof_ItemIdData)
            in if nused > 0 then
              (case compactify_tuples scratch (ms_items s) page (ms_presorted s) of None \<Rightarrow> Inl Overrun | Some page \<Rightarrow> Inr page)
            else Inr (set_upper page special))"

end
