(* ===== verification/PageFields.thy ===== *)
theory PageFields
  imports PageLayout
begin

text \<open>
  Fields of a page in its bytes: a field is read back as it was written, and a write elsewhere leaves
  it alone. One locale states this contract; the header fields and the line pointers interpret it.
\<close>

section \<open>Bytes and words\<close>

lemma get16_put16 [simp]: "get16 (put16 m a v) a = v"
  by (rule bit_word_eqI) (auto simp: get16_def put16_def bit_simps)

lemma put16_other: "x \<noteq> a \<Longrightarrow> x \<noteq> a + 1 \<Longrightarrow> put16 m a v x = m x"
  by (simp add: put16_def)

lemma get16_cong: "m a = m' a \<Longrightarrow> m (a + 1) = m' (a + 1) \<Longrightarrow> get16 m a = get16 m' a"
  by (simp add: get16_def)

lemma get32_put32 [simp]: "get32 (put32 m a v) a = v"
proof -
  have "get16 (put32 m a v) a = ucast v"
    using get16_cong[of "put32 m a v" a "put16 m a (ucast v)"] by (simp add: put32_def put16_other)
  moreover have "get16 (put32 m a v) (a + 2) = ucast (drop_bit 16 v)" by (simp add: put32_def)
  ultimately show ?thesis by (auto simp: get32_def bit_simps intro!: bit_word_eqI)
qed

lemma put32_other: "x < a \<or> a + 4 \<le> x \<Longrightarrow> put32 m a v x = m x"
  by (auto simp: put32_def put16_other)

lemma get32_cong: "(\<And>x. a \<le> x \<Longrightarrow> x < a + 4 \<Longrightarrow> m x = m' x) \<Longrightarrow> get32 m a = get32 m' a"
  by (simp add: get32_def get16_def)

lemma itemid_word [simp]: "itemid_of_word (word_of_itemid lp) = lp"
proof -
  have "ucast (word_of_itemid lp) = lp_off lp" "ucast (drop_bit 15 (word_of_itemid lp)) = lp_flags lp"
    "ucast (drop_bit 17 (word_of_itemid lp)) = lp_len lp"
    by (rule bit_word_eqI; auto simp: word_of_itemid_def bit_simps dest: bit_imp_le_length)+
  then show ?thesis by (simp add: itemid_of_word_def)
qed

section \<open>Fields\<close>

locale page_field =
  fixes get :: "bytes \<Rightarrow> 'v" and put :: "bytes \<Rightarrow> 'v \<Rightarrow> bytes" and fits :: "'v \<Rightarrow> bool" and lo hi :: nat
  assumes get_put: "fits v \<Longrightarrow> get (put m v) = v"
    and put_other: "x < lo \<or> hi \<le> x \<Longrightarrow> put m v x = m x"
    and get_local: "(\<And>x. lo \<le> x \<Longrightarrow> x < hi \<Longrightarrow> m x = m' x) \<Longrightarrow> get m = get m'"
begin

text \<open>Writes to other places of the page.\<close>

lemma get_memcpy [simp]: "hi \<le> dst \<or> dst + n \<le> lo \<Longrightarrow> get (memcpy m dst s src n) = get m"
  by (rule get_local) (auto simp: memcpy_def)

lemma get_memmove [simp]: "hi \<le> dst \<or> dst + n \<le> lo \<Longrightarrow> get (memmove m dst src n) = get m"
  by (simp add: memmove_def)

lemma get_store [simp]: "hi \<le> dst \<or> dst + length xs \<le> lo \<Longrightarrow> get (store_bytes m dst xs) = get m"
  by (rule get_local) (auto simp: store_bytes_def)

lemma get_put16 [simp]: "hi \<le> a \<or> a + 2 \<le> lo \<Longrightarrow> get (put16 m a v) = get m"
  by (rule get_local) (auto simp: put16_other)

lemma get_put32 [simp]: "hi \<le> a \<or> a + 4 \<le> lo \<Longrightarrow> get (put32 m a v) = get m"
  by (rule get_local) (auto simp: put32_other)

text \<open>What a write to the field leaves of other bytes.\<close>

lemma load_put: "a + n \<le> lo \<or> hi \<le> a \<Longrightarrow> load_bytes (put m v) a n = load_bytes m a n"
  by (auto simp: load_bytes_def put_other)

end

interpretation fchecksum: page_field pd_checksum set_checksum "\<lambda>_. True" 8 10
  by unfold_locales (auto simp: pd_checksum_def set_checksum_def put16_other intro: get16_cong)

interpretation fflags: page_field pd_flags set_flags "\<lambda>_. True" 10 12
  by unfold_locales (auto simp: pd_flags_def set_flags_def put16_other intro: get16_cong)

lemma unat_16 [simp]: "n < 65536 \<Longrightarrow> unat (of_nat n :: 16 word) = n"
  by (simp add: unat_of_nat take_bit_nat_eq_self)

interpretation flower: page_field pd_lower set_lower "\<lambda>n. n < 65536" 12 14
  by unfold_locales (auto simp: pd_lower_def set_lower_def put16_other intro: arg_cong[OF get16_cong])

interpretation fupper: page_field pd_upper set_upper "\<lambda>n. n < 65536" 14 16
  by unfold_locales (auto simp: pd_upper_def set_upper_def put16_other intro: arg_cong[OF get16_cong])

interpretation fspecial: page_field pd_special set_special "\<lambda>n. n < 65536" 16 18
  by unfold_locales (auto simp: pd_special_def set_special_def put16_other intro: arg_cong[OF get16_cong])

interpretation fsize: page_field pd_pagesize_version "\<lambda>m. put16 m 18" "\<lambda>_. True" 18 20
  by unfold_locales (auto simp: pd_pagesize_version_def put16_other intro: get16_cong)

interpretation fprune: page_field pd_prune_xid set_prune_xid "\<lambda>_. True" 20 24
  by unfold_locales (auto simp: pd_prune_xid_def set_prune_xid_def put32_other intro: get32_cong)

interpretation flinp: page_field "\<lambda>m. get_linp m i" "\<lambda>m. put_linp m i" "\<lambda>_. True" "linp_addr i" "linp_addr i + 4" for i
  by unfold_locales (auto simp: get_linp_def put_linp_def put32_other intro: arg_cong[OF get32_cong])

end
