(* ===== verification/PageSpec.thy ===== *)
theory PageSpec
  imports PageFields
begin

text \<open>
  What a page means: the list of its lines, each unused, a bare pointer, or a tuple with its bytes; and
  when a page is well formed. The operations are specified by what they do to the list of lines.
\<close>

section \<open>Well-formed pages\<close>

definition linps :: "bytes \<Rightarrow> ItemIdData list" where
  "linps p = map (get_linp p) [0 ..< PageGetMaxOffsetNumber p]"

definition lp_stop :: "ItemIdData \<Rightarrow> nat" where
  "lp_stop lp = ItemIdGetOffset lp + MAXALIGN (ItemIdGetLength lp)"

text \<open>The storage of a line pointer is aligned and lies in the tuple space; only used ones have storage.\<close>

definition lp_ok :: "nat \<Rightarrow> nat \<Rightarrow> ItemIdData \<Rightarrow> bool" where
  "lp_ok upper special lp \<longleftrightarrow> (ItemIdHasStorage lp \<longrightarrow>
     ItemIdIsUsed lp \<and> upper \<le> ItemIdGetOffset lp \<and> lp_stop lp \<le> special \<and> ItemIdGetOffset lp mod 8 = 0)"

definition apart :: "ItemIdData \<Rightarrow> ItemIdData \<Rightarrow> bool" where
  "apart lp lp' \<longleftrightarrow> (ItemIdHasStorage lp \<and> ItemIdHasStorage lp' \<longrightarrow>
     lp_stop lp \<le> ItemIdGetOffset lp' \<or> lp_stop lp' \<le> ItemIdGetOffset lp)"

definition layout_ok :: "nat \<Rightarrow> nat \<Rightarrow> ItemIdData list \<Rightarrow> bool" where
  "layout_ok upper special lps \<longleftrightarrow> (\<forall>lp \<in> set lps. lp_ok upper special lp) \<and> sorted_wrt apart lps"

definition page_wf :: "bytes \<Rightarrow> bool" where
  "page_wf p \<longleftrightarrow> SizeOfPageHeaderData \<le> pd_lower p \<and> pd_lower p \<le> pd_upper p \<and> pd_upper p \<le> pd_special p \<and>
     pd_special p \<le> BLCKSZ \<and> pd_special p mod 8 = 0 \<and> pd_upper p mod 8 = 0 \<and>
     layout_ok (pd_upper p) (pd_special p) (linps p)"

section \<open>Lines\<close>

datatype line = Unused | Bare "2 word" nat | Tuple "2 word" "uint8 list"

definition line_of :: "bytes \<Rightarrow> ItemIdData \<Rightarrow> line" where
  "line_of p lp =
     (if \<not> ItemIdIsUsed lp then Unused
      else if ItemIdHasStorage lp then Tuple (lp_flags lp) (load_bytes p (ItemIdGetOffset lp) (ItemIdGetLength lp))
      else Bare (lp_flags lp) (ItemIdGetOffset lp))"

definition lines :: "bytes \<Rightarrow> line list" where
  "lines p = map (line_of p) (linps p)"

section \<open>Header fields\<close>

lemma sizes [simp]: "SizeOfPageHeaderData = 24" "sizeof_ItemIdData = 4" "MaxHeapTuplesPerPage = 291" "MaxIndexTuplesPerPage = 408"
  "BLCKSZ = 8192" "MaxOffsetNumber = 2048" "InvalidOffsetNumber = 0" "FirstOffsetNumber = 1"
  by (simp_all add: SizeOfPageHeaderData_def sizeof_ItemIdData_def MaxHeapTuplesPerPage_def MaxIndexTuplesPerPage_def
      BLCKSZ_def MAXALIGN_def SizeofHeapTupleHeader_def sizeof_IndexTupleData_def MaxOffsetNumber_def
      InvalidOffsetNumber_def FirstOffsetNumber_def)

lemma linp_addr_eq: "linp_addr i = 24 + 4 * i"
  by (simp add: linp_addr_def)

lemma linp_addr_ge [simp]: "24 \<le> linp_addr i" "k \<le> 24 \<Longrightarrow> k \<le> linp_addr i"
  by (simp_all add: linp_addr_eq)

lemmas setters = set_checksum_def set_flags_def set_lower_def set_upper_def set_special_def

lemma field_set [simp]:
  "pd_flags (set_lower m v) = pd_flags m" "pd_flags (set_upper m v) = pd_flags m" "pd_flags (set_special m v) = pd_flags m"
  "pd_flags (set_checksum m w) = pd_flags m" "pd_flags (put_linp m i lp) = pd_flags m"
  "pd_lower (set_flags m w) = pd_lower m" "pd_lower (set_upper m v) = pd_lower m" "pd_lower (set_special m v) = pd_lower m"
  "pd_lower (set_checksum m w) = pd_lower m" "pd_lower (put_linp m i lp) = pd_lower m"
  "pd_upper (set_flags m w) = pd_upper m" "pd_upper (set_lower m v) = pd_upper m" "pd_upper (set_special m v) = pd_upper m"
  "pd_upper (set_checksum m w) = pd_upper m" "pd_upper (put_linp m i lp) = pd_upper m"
  "pd_special (set_flags m w) = pd_special m" "pd_special (set_lower m v) = pd_special m" "pd_special (set_upper m v) = pd_special m"
  "pd_special (set_checksum m w) = pd_special m" "pd_special (put_linp m i lp) = pd_special m"
  "pd_checksum (set_flags m w) = pd_checksum m" "pd_checksum (set_lower m v) = pd_checksum m"
  "pd_checksum (set_upper m v) = pd_checksum m" "pd_checksum (put_linp m i lp) = pd_checksum m"
  "get_linp (set_flags m w) i = get_linp m i" "get_linp (set_lower m v) i = get_linp m i"
  "get_linp (set_upper m v) i = get_linp m i" "get_linp (set_special m v) i = get_linp m i"
  "get_linp (set_checksum m w) i = get_linp m i"
  by (simp_all add: setters put_linp_def)

lemmas field_get [simp] = flower.get_put fupper.get_put fspecial.get_put fflags.get_put[OF TrueI] fchecksum.get_put[OF TrueI]

lemma get_put_linp [simp]: "get_linp (put_linp m i lp) j = (if i = j then lp else get_linp m j)"
proof (cases "i = j")
  case False
  then have "linp_addr i + 4 \<le> linp_addr j \<or> linp_addr j + 4 \<le> linp_addr i" by (auto simp: linp_addr_eq)
  then show ?thesis using False unfolding put_linp_def by (simp add: flinp.get_put32 disj_commute)
qed (simp add: flinp.get_put)

lemma byte_set [simp]:
  "24 \<le> x \<Longrightarrow> set_flags m w x = m x" "24 \<le> x \<Longrightarrow> set_lower m v x = m x" "24 \<le> x \<Longrightarrow> set_upper m v x = m x"
  "24 \<le> x \<Longrightarrow> set_special m v x = m x" "24 \<le> x \<Longrightarrow> set_checksum m w x = m x"
  by (simp_all add: setters put16_other)

lemma PageGetItemId_eq [simp]: "0 < n \<Longrightarrow> PageGetItemId p n = get_linp p (n - 1)" "PageGetItemId p (Suc i) = get_linp p i"
  by (simp_all add: PageGetItemId_def)

lemma max_offset_eq: "PageGetMaxOffsetNumber p = (pd_lower p - 24) div 4"
  by (simp add: PageGetMaxOffsetNumber_def)

lemma max_offset_cong: "pd_lower p = pd_lower q \<Longrightarrow> PageGetMaxOffsetNumber p = PageGetMaxOffsetNumber q"
  by (simp add: max_offset_eq)

lemma linp_below_lower: "i < PageGetMaxOffsetNumber p \<Longrightarrow> linp_addr i + 4 \<le> pd_lower p"
  using div_times_less_eq_dividend[of "pd_lower p - 24" 4] by (simp add: max_offset_eq linp_addr_eq)

lemma linp_end: "24 \<le> pd_lower p \<Longrightarrow> i \<le> PageGetMaxOffsetNumber p \<Longrightarrow> linp_addr i \<le> pd_lower p"
  using div_times_less_eq_dividend[of "pd_lower p - 24" 4] by (simp add: max_offset_eq linp_addr_eq)

lemma hint_set [simp]:
  "pd_lower (PageSetHasFreeLinePointers p) = pd_lower p" "pd_upper (PageSetHasFreeLinePointers p) = pd_upper p"
  "pd_special (PageSetHasFreeLinePointers p) = pd_special p" "get_linp (PageSetHasFreeLinePointers p) i = get_linp p i"
  "24 \<le> x \<Longrightarrow> PageSetHasFreeLinePointers p x = p x"
  "pd_lower (PageClearHasFreeLinePointers p) = pd_lower p" "pd_upper (PageClearHasFreeLinePointers p) = pd_upper p"
  "pd_special (PageClearHasFreeLinePointers p) = pd_special p" "get_linp (PageClearHasFreeLinePointers p) i = get_linp p i"
  "24 \<le> x \<Longrightarrow> PageClearHasFreeLinePointers p x = p x"
  by (simp_all add: PageSetHasFreeLinePointers_def PageClearHasFreeLinePointers_def)

lemma hint_flag [simp]: "PageHasFreeLinePointers (PageSetHasFreeLinePointers p)" "\<not> PageHasFreeLinePointers (PageClearHasFreeLinePointers p)"
proof -
  have "(w OR 1) AND 1 = (1 :: 16 word)" "(w AND NOT 1) AND 1 = (0 :: 16 word)" for w
    by (rule bit_word_eqI; auto simp: bit_simps)+
  then show "PageHasFreeLinePointers (PageSetHasFreeLinePointers p)" "\<not> PageHasFreeLinePointers (PageClearHasFreeLinePointers p)"
    by (simp_all add: PageHasFreeLinePointers_def PageSetHasFreeLinePointers_def PageClearHasFreeLinePointers_def PD_HAS_FREE_LINES_def)
qed

section \<open>Line pointers and lines\<close>

lemma length_linps [simp]: "length (linps p) = PageGetMaxOffsetNumber p"
  by (simp add: linps_def)

lemma nth_linps [simp]: "i < PageGetMaxOffsetNumber p \<Longrightarrow> linps p ! i = get_linp p i"
  by (simp add: linps_def)

lemma length_lines [simp]: "length (lines p) = PageGetMaxOffsetNumber p"
  by (simp add: lines_def)

lemma linpsI: "PageGetMaxOffsetNumber p = length lps \<Longrightarrow> (\<And>i. i < length lps \<Longrightarrow> get_linp p i = lps ! i) \<Longrightarrow> linps p = lps"
  by (rule nth_equalityI) auto

lemma linps_cong: "pd_lower p = pd_lower q \<Longrightarrow> (\<And>i. i < PageGetMaxOffsetNumber q \<Longrightarrow> get_linp p i = get_linp q i) \<Longrightarrow> linps p = linps q"
  using max_offset_cong[of p q] by (auto simp: linps_def)

text \<open>The line of a line pointer depends on the bytes of its storage only.\<close>

lemma line_of_cong:
  "(\<And>x. ItemIdHasStorage lp \<Longrightarrow> ItemIdGetOffset lp \<le> x \<Longrightarrow> x < lp_stop lp \<Longrightarrow> p x = q x) \<Longrightarrow> line_of p lp = line_of q lp"
  by (auto simp: line_of_def load_bytes_def lp_stop_def MAXALIGN_def)

text \<open>A line pointer whose bytes have been moved.\<close>

lemma line_of_moved:
  assumes "ItemIdHasStorage lp" "lp_flags lp' = lp_flags lp" "lp_len lp' = lp_len lp"
    and "\<And>d. d < MAXALIGN (ItemIdGetLength lp) \<Longrightarrow> p' (ItemIdGetOffset lp' + d) = p (ItemIdGetOffset lp + d)"
  shows "line_of p' lp' = line_of p lp"
proof -
  have "load_bytes p' (ItemIdGetOffset lp') (ItemIdGetLength lp) = load_bytes p (ItemIdGetOffset lp) (ItemIdGetLength lp)"
    using assms(4) by (intro nth_equalityI) (auto simp: load_bytes_def MAXALIGN_def)
  then show ?thesis using assms(1-3) by (simp add: line_of_def ItemIdHasStorage_def ItemIdIsUsed_def ItemIdGetLength_def)
qed

lemma apart_sym: "apart lp lp' \<Longrightarrow> apart lp' lp"
  by (auto simp: apart_def)

lemma aligned_length [simp]: "MAXALIGN n mod 8 = 0"
  by (simp add: MAXALIGN_def)

lemma align_bounds: "n \<le> MAXALIGN n" "MAXALIGN n < n + 8"
  by (simp_all add: MAXALIGN_def)

lemma MAXALIGN_aligned: "n mod 8 = 0 \<longleftrightarrow> n = MAXALIGN n"
  unfolding MAXALIGN_def by presburger

lemma storage_pos: "ItemIdHasStorage lp \<Longrightarrow> 0 < ItemIdGetLength lp" "ItemIdHasStorage lp \<Longrightarrow> ItemIdGetOffset lp < lp_stop lp"
proof -
  assume "ItemIdHasStorage lp"
  then show *: "0 < ItemIdGetLength lp" by (simp add: ItemIdHasStorage_def ItemIdGetLength_def unat_gt_0)
  then show "ItemIdGetOffset lp < lp_stop lp" by (simp add: lp_stop_def MAXALIGN_def div_greater_zero_iff)
qed

lemma layout_nth:
  assumes "layout_ok upper special lps" "i < length lps" "j < length lps" "i \<noteq> j"
  shows "apart (lps ! i) (lps ! j)"
  using assms apart_sym by (cases "i < j") (auto simp: layout_ok_def sorted_wrt_iff_nth_less)

lemma layoutI:
  assumes "\<And>i. i < length lps \<Longrightarrow> lp_ok upper special (lps ! i)"
    "\<And>i j. i < j \<Longrightarrow> j < length lps \<Longrightarrow> apart (lps ! i) (lps ! j)"
  shows "layout_ok upper special lps"
  using assms by (auto simp: layout_ok_def sorted_wrt_iff_nth_less in_set_conv_nth)

lemma layout_insert:
  assumes "layout_ok upper special (xs @ ys)" "lp_ok upper special lp" "\<forall>lp' \<in> set (xs @ ys). apart lp lp'"
  shows "layout_ok upper special (xs @ lp # ys)"
  using assms apart_sym by (fastforce simp: layout_ok_def sorted_wrt_append)

lemma layout_delete: "layout_ok upper special (xs @ lp # ys) \<Longrightarrow> layout_ok upper special (xs @ ys)"
  by (auto simp: layout_ok_def sorted_wrt_append)

lemma layout_weaken: "layout_ok upper special lps \<Longrightarrow> upper' \<le> upper \<Longrightarrow> layout_ok upper' special lps"
  by (fastforce simp: layout_ok_def lp_ok_def)

lemma page_wf_simps:
  "page_wf p \<longleftrightarrow> 24 \<le> pd_lower p \<and> pd_lower p \<le> pd_upper p \<and> pd_upper p \<le> pd_special p \<and>
     pd_special p \<le> 8192 \<and> pd_special p mod 8 = 0 \<and> pd_upper p mod 8 = 0 \<and> layout_ok (pd_upper p) (pd_special p) (linps p)"
  by (simp add: page_wf_def)

lemma page_wf_pointers: "page_wf p \<Longrightarrow> \<not> bad_page_pointers p"
  by (auto simp: page_wf_def bad_page_pointers_def MAXALIGN_aligned[symmetric])

lemma page_wf_nth: "page_wf p \<Longrightarrow> i < PageGetMaxOffsetNumber p \<Longrightarrow> lp_ok (pd_upper p) (pd_special p) (get_linp p i)"
  by (auto simp: page_wf_def layout_ok_def linps_def)

lemma page_wf_apart:
  "page_wf p \<Longrightarrow> i < PageGetMaxOffsetNumber p \<Longrightarrow> j < PageGetMaxOffsetNumber p \<Longrightarrow> i \<noteq> j \<Longrightarrow> apart (get_linp p i) (get_linp p j)"
  using layout_nth[of "pd_upper p" "pd_special p" "linps p" i j] by (simp add: page_wf_def)

end
