(* ===== verification/PageAdd.thy ===== *)
theory PageAdd
  imports PageSpec
begin

text \<open>
  \<open>PageInit\<close>, \<open>PageAddItemExtended\<close> and the free space functions: an item is added to the lines of a
  well-formed page and the page stays well-formed, and it is refused for lack of room only.
\<close>

section \<open>Moving line pointers\<close>

lemma get_linp_memcpy:
  assumes "a \<le> i" "4 * (i - a) + 4 \<le> n"
  shows "get_linp (memcpy m (linp_addr a) s (linp_addr b) n) i = get_linp s (b + (i - a))"
proof -
  have "memcpy m (linp_addr a) s (linp_addr b) n (linp_addr i + d) = s (linp_addr (b + (i - a)) + d)" if "d < 4" for d
    using assms that by (auto simp: memcpy_def linp_addr_eq algebra_simps)
  note this[of 0] this[of 1] this[of 2] this[of 3]
  then show ?thesis by (simp add: get_linp_def get32_def get16_def numeral_3_eq_3)
qed

lemma get_linp_memmove:
  "get_linp (memmove m (linp_addr a) (linp_addr b) (4 * k)) i =
    (if a \<le> i \<and> i < a + k then get_linp m (b + (i - a)) else get_linp m i)"
proof (cases "a \<le> i \<and> i < a + k")
  case False
  then have "linp_addr i + 4 \<le> linp_addr a \<or> linp_addr a + 4 * k \<le> linp_addr i" by (auto simp: linp_addr_eq)
  then have "get_linp (memmove m (linp_addr a) (linp_addr b) (4 * k)) i = get_linp m i" by auto
  then show ?thesis using False by auto
next
  case True
  then have "4 * (i - a) + 4 \<le> 4 * k" by linarith
  then show ?thesis using True by (simp add: memmove_def get_linp_memcpy)
qed

lemma header_move [simp]:
  "24 \<le> dst \<Longrightarrow> pd_lower (memmove m dst src n) = pd_lower m" "24 \<le> dst \<Longrightarrow> pd_upper (memmove m dst src n) = pd_upper m"
  "24 \<le> dst \<Longrightarrow> pd_special (memmove m dst src n) = pd_special m" "24 \<le> dst \<Longrightarrow> pd_flags (memmove m dst src n) = pd_flags m"
  "24 \<le> dst \<Longrightarrow> pd_lower (store_bytes m dst xs) = pd_lower m" "24 \<le> dst \<Longrightarrow> pd_upper (store_bytes m dst xs) = pd_upper m"
  "24 \<le> dst \<Longrightarrow> pd_special (store_bytes m dst xs) = pd_special m" "24 \<le> dst \<Longrightarrow> pd_flags (store_bytes m dst xs) = pd_flags m"
  by simp_all

section \<open>Placing an item\<close>

definition new_linp :: "nat \<Rightarrow> nat \<Rightarrow> ItemIdData" where
  "new_linp off len = \<lparr>lp_off = of_nat off, lp_flags = LP_NORMAL, lp_len = of_nat len\<rparr>"

lemma unat_15 [simp]: "n < 32768 \<Longrightarrow> unat (of_nat n :: 15 word) = n"
  by (simp add: unat_of_nat take_bit_nat_eq_self)

lemma new_linp_simps [simp]:
  "n < 32768 \<Longrightarrow> ItemIdGetOffset (new_linp n len) = n" "n < 32768 \<Longrightarrow> ItemIdGetLength (new_linp off n) = n"
  "ItemIdIsUsed (new_linp off len)" "lp_flags (new_linp off len) = LP_NORMAL"
  by (simp_all add: new_linp_def ItemIdGetOffset_def ItemIdGetLength_def ItemIdIsUsed_def LP_NORMAL_def LP_UNUSED_def)

lemma new_linp_storage [simp]: "0 < n \<Longrightarrow> n < 32768 \<Longrightarrow> ItemIdHasStorage (new_linp off n)"
  using new_linp_simps(2)[of n off] by (auto simp: ItemIdHasStorage_def ItemIdGetLength_def)

lemma set_normal_eq: "ItemIdSetNormal lp off len = new_linp off len"
  by (simp add: ItemIdSetNormal_def new_linp_def)

lemma c_int_small: "n < 2 ^ 31 \<Longrightarrow> c_int n = int n"
  using sint_of_small_int[of "int n"] by (simp add: c_int_def)

lemma load_store: "load_bytes (store_bytes m a xs) a (length xs) = xs"
  by (rule nth_equalityI) (auto simp: load_bytes_def store_bytes_def)

text \<open>The line pointers after the item has got its own, in the middle, at the end, or in place of an unused one.\<close>

definition put_line :: "bool \<Rightarrow> nat \<Rightarrow> 'a \<Rightarrow> 'a list \<Rightarrow> 'a list" where
  "put_line grow i x xs = (if grow then take i xs @ x # drop i xs else xs[i := x])"

lemma place_item_placed:
  assumes "page_wf p" "limit = PageGetMaxOffsetNumber p + 1" "0 < n" "n \<le> limit" "sh \<longrightarrow> n < limit"
    and room: "MAXALIGN (length item) + (if n = limit \<or> sh then 4 else 0) \<le> pd_upper p - pd_lower p"
  defines "u \<equiv> pd_upper p - MAXALIGN (length item)"
  shows "\<exists>p'. place_item p item limit n sh = (n, p') \<and> pd_upper p' = u \<and> pd_special p' = pd_special p \<and>
    pd_flags p' = pd_flags p \<and> pd_lower p' = pd_lower p + (if n = limit \<or> sh then 4 else 0) \<and>
    linps p' = put_line (n = limit \<or> sh) (n - 1) (new_linp u (length item)) (linps p) \<and>
    load_bytes p' u (length item) = item \<and> (\<forall>x \<ge> u + length item. p' x = p x)"
proof -
  let ?grow = "n = limit \<or> sh" and ?lp = "new_linp u (length item)"
  let ?m = "if sh then memmove p (linp_addr n) (linp_addr (n - 1)) ((limit - n) * 4) else p"
  let ?q = "put_linp ?m (n - 1) ?lp"
  let ?l = "pd_lower p + (if ?grow then 4 else 0)"
  define p' where "p' = set_upper (set_lower (store_bytes ?q u item) ?l) u"
  have b: "pd_lower p \<le> pd_upper p" "pd_upper p \<le> 8192" "24 \<le> pd_lower p" "length item \<le> MAXALIGN (length item)"
    using assms(1) align_bounds(1) by (auto simp: page_wf_simps)
  have u: "?l \<le> u" "u + MAXALIGN (length item) = pd_upper p" "u \<le> 8192" "24 \<le> u"
    using room b unfolding u_def by auto
  have end_linp: "i < (if ?grow then limit else limit - 1) \<Longrightarrow> linp_addr i + 4 \<le> u" for i
    using u(1) linp_below_lower[of i p] linp_end[of p i] b(3) assms(2) by (auto split: if_splits)
  have "place_item p item limit n sh = (n, p')"
  proof -
    have "int (pd_upper p) - c_int (MAXALIGN (length item)) = int u" using u(2) b(2) by (simp add: c_int_small)
    then show ?thesis using u(1) unfolding p'_def place_item_def Let_def by (auto simp: set_normal_eq)
  qed
  moreover have "pd_upper p' = u" "pd_special p' = pd_special p" "pd_flags p' = pd_flags p" "pd_lower p' = ?l"
    using u(1,3,4) by (simp_all add: p'_def)
  moreover have "linps p' = put_line ?grow (n - 1) ?lp (linps p)"
  proof (rule linpsI)
    show "PageGetMaxOffsetNumber p' = length (put_line ?grow (n - 1) ?lp (linps p))"
      using calculation(5) b assms(2-4) by (auto simp: max_offset_eq put_line_def)
    fix i assume "i < length (put_line ?grow (n - 1) ?lp (linps p))"
    then have i: "i < (if ?grow then limit else limit - 1)" using assms(2-4) by (auto simp: put_line_def split: if_splits)
    then have "linp_addr i + 4 \<le> u" by (rule end_linp)
    then have "get_linp p' i = get_linp ?q i" using u(4) by (simp add: p'_def)
    also have "\<dots> = put_line ?grow (n - 1) ?lp (linps p) ! i"
      using i assms(2-5) get_linp_memmove[of p n "n - 1" "limit - n" i]
      by (auto simp: put_line_def nth_append nth_list_update mult.commute nth_Cons' split: if_splits)
    finally show "get_linp p' i = put_line ?grow (n - 1) ?lp (linps p) ! i" .
  qed
  moreover have "load_bytes p' u (length item) = item"
    unfolding p'_def using u(4) by (simp add: fupper.load_put flower.load_put load_store)
  moreover have "p' x = p x" if "u + length item \<le> x" for x
  proof -
    have "linp_addr (n - 1) + 4 \<le> u" "sh \<longrightarrow> linp_addr limit \<le> u"
      using end_linp[of "n - 1"] end_linp[of "limit - 1"] assms(2-5)
      by (cases "n = limit"; cases sh; simp add: linp_addr_eq)+
    then have "?q x = p x" using that assms(4) flinp.put_other[where i = "n - 1" and x = x and m = ?m and v = ?lp]
      by (auto simp: memmove_def memcpy_def linp_addr_eq)
    then show ?thesis using that u(4) by (simp add: p'_def store_bytes_def)
  qed
  ultimately show ?thesis by blast
qed

lemma place_item_refused:
  assumes "page_wf p" "0 < n" "length item < 2 ^ 31 - 8"
    and "pd_upper p - pd_lower p < MAXALIGN (length item) + (if n = limit \<or> sh then 4 else 0)"
  shows "place_item p item limit n sh = (0, p)"
proof -
  have "MAXALIGN (length item) < 2 ^ 31" "pd_lower p \<le> pd_upper p"
    using assms(1,3) align_bounds(2)[of "length item"] by (auto simp: page_wf_simps)
  then show ?thesis using assms(4) unfolding place_item_def Let_def by (auto simp: c_int_small)
qed

text \<open>The page with the item is well-formed, and its lines are the old ones and the new one.\<close>

lemma place_item_wf:
  assumes "page_wf p" "layout_ok u (pd_special p) (put_line grow i (new_linp u (length item)) (linps p))"
    and "u + MAXALIGN (length item) = pd_upper p" "pd_lower p' \<le> u" "24 \<le> pd_lower p'"
    and "pd_upper p' = u" "pd_special p' = pd_special p"
    "linps p' = put_line grow i (new_linp u (length item)) (linps p)"
  shows "page_wf p'"
proof -
  have "u mod 8 = 0"
    using assms(1,3) mod_add_right_eq[of u "MAXALIGN (length item)" 8] by (simp add: page_wf_simps)
  then show ?thesis using assms by (auto simp: page_wf_simps)
qed

lemma new_layout:
  assumes "page_wf p" "u + MAXALIGN (length item) = pd_upper p" "item \<noteq> []" "i \<le> PageGetMaxOffsetNumber p"
  shows "layout_ok u (pd_special p) (put_line grow i (new_linp u (length item)) (linps p))"
proof -
  let ?lp = "new_linp u (length item)"
  have small: "u < 32768" "length item < 32768"
    using assms(1,2) align_bounds(1)[of "length item"] by (auto simp: page_wf_simps)
  then have stop: "lp_stop ?lp = pd_upper p" using assms(2) by (simp add: lp_stop_def)
  have "u mod 8 = 0"
    using assms(1,2) mod_add_right_eq[of u "MAXALIGN (length item)" 8] by (simp add: page_wf_simps)
  then have ok: "lp_ok u (pd_special p) ?lp" using assms(1) small stop by (simp add: lp_ok_def page_wf_simps)
  have old: "layout_ok u (pd_special p) (linps p)"
    using assms(1,2) layout_weaken[of "pd_upper p" "pd_special p" "linps p" u] by (simp add: page_wf_simps)
  have "apart ?lp lp" if "lp \<in> set (linps p)" for lp
    using that assms(1) stop by (auto simp: apart_def page_wf_simps layout_ok_def lp_ok_def)
  then have ap: "\<forall>lp \<in> set (linps p). apart ?lp lp" by blast
  show ?thesis
  proof (cases grow)
    case True
    then show ?thesis using layout_insert[of u _ "take i (linps p)" "drop i (linps p)" ?lp] old ok ap by (simp add: put_line_def)
  next
    case False
    have "layout_ok u (pd_special p) ((linps p)[i := ?lp])"
    proof (rule layoutI)
      fix k assume "k < length ((linps p)[i := ?lp])"
      then show "lp_ok u (pd_special p) ((linps p)[i := ?lp] ! k)" 
        using old ok nth_mem[of k "linps p"] by (cases "k = i") (simp_all add: layout_ok_def)
    next
      fix j k assume "j < k" "k < length ((linps p)[i := ?lp])"
      moreover have "\<forall>x \<in> set (linps p). apart x ?lp" using ap apart_sym by blast
      ultimately show "apart ((linps p)[i := ?lp] ! j) ((linps p)[i := ?lp] ! k)"
        using layout_nth[OF old, of j k] ap nth_mem[of j "linps p"] nth_mem[of k "linps p"]
        by (cases "j = i"; cases "k = i") auto
    qed
    then show ?thesis using False by (simp add: put_line_def)
  qed
qed

lemma lines_put_line:
  assumes "linps p' = put_line grow i lp (linps p)" "line_of p' lp = l" "i \<le> PageGetMaxOffsetNumber p"
    and "\<And>lp'. lp' \<in> set (linps p) \<Longrightarrow> line_of p' lp' = line_of p lp'"
  shows "lines p' = put_line grow i l (lines p)"
proof (cases grow)
  case True
  have "map (line_of p') (take i (linps p)) = take i (lines p)" "map (line_of p') (drop i (linps p)) = drop i (lines p)"
    using assms(4) by (auto simp: lines_def take_map drop_map dest: in_set_takeD in_set_dropD)
  then show ?thesis using True assms(1,2) by (simp add: lines_def put_line_def)
next
  case False
  have "map (line_of p') (linps p) = lines p" using assms(4) by (simp add: lines_def)
  then show ?thesis using False assms(1,2) by (simp add: lines_def[of p'] put_line_def map_update)
qed

lemma place_item_spec:
  assumes "page_wf p" "limit = PageGetMaxOffsetNumber p + 1" "0 < n" "n \<le> limit" "sh \<longrightarrow> n < limit"
    and "item \<noteq> []" "length item < 2 ^ 31 - 8"
  defines "grow \<equiv> n = limit \<or> sh"
  shows "if MAXALIGN (length item) + (if grow then 4 else 0) \<le> pd_upper p - pd_lower p
    then \<exists>p'. place_item p item limit n sh = (n, p') \<and> page_wf p' \<and> lines p' = put_line grow (n - 1) (Tuple LP_NORMAL item) (lines p) \<and>
      pd_flags p' = pd_flags p \<and> (\<forall>x \<ge> pd_special p. p' x = p x) \<and> pd_special p' = pd_special p
    else place_item p item limit n sh = (0, p)"
proof (cases "MAXALIGN (length item) + (if grow then 4 else 0) \<le> pd_upper p - pd_lower p")
  case True
  let ?u = "pd_upper p - MAXALIGN (length item)" and ?lp = "new_linp (pd_upper p - MAXALIGN (length item)) (length item)"
  from place_item_placed[OF assms(1-5) True[unfolded grow_def]] obtain p' where
    p': "place_item p item limit n sh = (n, p')" "pd_upper p' = ?u" "pd_special p' = pd_special p" "pd_flags p' = pd_flags p"
      "pd_lower p' = pd_lower p + (if grow then 4 else 0)" "linps p' = put_line grow (n - 1) ?lp (linps p)"
      "load_bytes p' ?u (length item) = item" "\<forall>x \<ge> ?u + length item. p' x = p x"
    unfolding grow_def by blast
  have u: "?u + MAXALIGN (length item) = pd_upper p" "pd_lower p' \<le> ?u" "24 \<le> pd_lower p'" "?u < 32768" "length item < 32768"
    using True assms(1) p'(5) align_bounds(1)[of "length item"] by (auto simp: page_wf_simps split: if_splits)
  have wf: "page_wf p'"
    using place_item_wf[OF assms(1) new_layout[OF assms(1) u(1) assms(6)] u(1-3) p'(2,3,6)] assms(2,4) by simp
  have "line_of p' ?lp = Tuple LP_NORMAL item"
    using p'(7) assms(6) u(4,5) by (simp add: line_of_def)
  moreover have "line_of p' lp = line_of p lp" if "lp \<in> set (linps p)" for lp
  proof (rule line_of_cong)
    fix x assume "ItemIdHasStorage lp" "ItemIdGetOffset lp \<le> x"
    then show "p' x = p x" using that assms(1) p'(8) u(1) align_bounds(1)[of "length item"]
      by (fastforce simp: page_wf_simps layout_ok_def lp_ok_def)
  qed
  ultimately have "lines p' = put_line grow (n - 1) (Tuple LP_NORMAL item) (lines p)"
    using lines_put_line[OF p'(6)] assms(2,4) by simp
  moreover have "\<forall>x \<ge> pd_special p. p' x = p x"
    using p'(8) u(1) assms(1) align_bounds(1)[of "length item"] by (fastforce simp: page_wf_simps)
  ultimately show ?thesis using True p'(1,3,4) wf by auto
qed (use place_item_refused[OF assms(1,3,7)] grow_def in auto)

section \<open>Choosing the place\<close>

declare find_free_linp.simps [simp del]

lemma find_free_linp_spec:
  assumes "0 < n" "n \<le> limit"
  shows "n \<le> find_free_linp p limit n \<and> find_free_linp p limit n \<le> limit \<and>
    (\<forall>k. n \<le> k \<and> k < find_free_linp p limit n \<longrightarrow> ItemIdIsUsed (get_linp p (k - 1)) \<or> ItemIdHasStorage (get_linp p (k - 1))) \<and>
    (find_free_linp p limit n < limit \<longrightarrow>
      \<not> ItemIdIsUsed (get_linp p (find_free_linp p limit n - 1)) \<and> \<not> ItemIdHasStorage (get_linp p (find_free_linp p limit n - 1)))"
  using assms
proof (induction p limit n rule: find_free_linp.induct)
  case (1 p limit n)
  show ?case
  proof (cases "n < limit \<and> (ItemIdIsUsed (get_linp p (n - 1)) \<or> ItemIdHasStorage (get_linp p (n - 1)))")
    case True
    then have "find_free_linp p limit n = find_free_linp p limit (n + 1)"
      using "1.prems" by (subst find_free_linp.simps) (auto simp: Let_def)
    then show ?thesis using 1 True le_eq_less_or_eq[of n] by (auto simp: Let_def Suc_le_eq)
  next
    case False
    then have "find_free_linp p limit n = n"
      using "1.prems" by (subst find_free_linp.simps) (auto simp: Let_def)
    then show ?thesis using 1 False by auto
  qed
qed

lemma unused_line: "page_wf p \<Longrightarrow> i < PageGetMaxOffsetNumber p \<Longrightarrow> lines p ! i = Unused \<longleftrightarrow> \<not> ItemIdIsUsed (get_linp p i)"
  by (simp add: lines_def line_of_def)

text \<open>The chosen place is a line to be moved away, an unused one, or the next after the last.\<close>

lemma select_offset_spec:
  assumes "page_wf p" "limit = PageGetMaxOffsetNumber p + 1" "select_offset p limit off flags = Some (n, sh, p1)"
  shows "0 < n \<and> (sh \<longrightarrow> n < limit) \<and> (n < limit \<and> \<not> sh \<longrightarrow> lines p ! (n - 1) = Unused) \<and> (p1 = p \<or> p1 = PageClearHasFreeLinePointers p) \<and>
    (if OffsetNumberIsValid off then n = off else \<not> sh)"
proof -
  have "n < limit \<Longrightarrow> 0 < n \<Longrightarrow> lines p ! (n - 1) = Unused \<longleftrightarrow> \<not> ItemIdIsUsed (get_linp p (n - 1))"
    using unused_line[OF assms(1), of "n - 1"] assms(2) by auto
  moreover have "0 < find_free_linp p limit 1 \<and> (find_free_linp p limit 1 < limit \<longrightarrow> \<not> ItemIdIsUsed (get_linp p (find_free_linp p limit 1 - 1)))"
    using find_free_linp_spec[of 1 limit p] assms(2) by auto
  ultimately show ?thesis using assms(2,3)
    by (auto simp: select_offset_def OffsetNumberIsValid_def Let_def split: if_splits)
qed

text \<open>A change of the hint only.\<close>

lemma hint_page:
  assumes "p1 = p \<or> p1 = PageClearHasFreeLinePointers p" "page_wf p"
  shows "pd_lower p1 = pd_lower p" "pd_upper p1 = pd_upper p" "pd_special p1 = pd_special p" "linps p1 = linps p"
    "lines p1 = lines p" "page_wf p1" "24 \<le> x \<Longrightarrow> p1 x = p x" "PageGetMaxOffsetNumber p1 = PageGetMaxOffsetNumber p"
proof -
  show f: "pd_lower p1 = pd_lower p" "pd_upper p1 = pd_upper p" "pd_special p1 = pd_special p" "24 \<le> x \<Longrightarrow> p1 x = p x" for x
    using assms(1) by auto
  show l: "linps p1 = linps p" using assms(1) by (auto intro: linps_cong)
  show "page_wf p1" using assms(2) by (simp add: page_wf_def f l)
  show "PageGetMaxOffsetNumber p1 = PageGetMaxOffsetNumber p" using f max_offset_cong by blast
  have "line_of p1 lp = line_of p lp" if "lp \<in> set (linps p)" for lp
    using that assms(2) f(4) by (intro line_of_cong) (auto simp: page_wf_simps layout_ok_def lp_ok_def)
  then show "lines p1 = lines p" by (simp add: lines_def l)
qed

section \<open>The whole operation\<close>

lemma add_item_unfold:
  assumes "page_wf p" "limit = PageGetMaxOffsetNumber p + 1"
  shows "PageAddItemExtended p item off flags = (case select_offset p limit off flags of None \<Rightarrow> Inr (0, p)
    | Some (n, sh, p1) \<Rightarrow> if n > limit \<or> flags AND PAI_IS_HEAP \<noteq> 0 \<and> n > 291 then Inr (0, p1) else Inr (place_item p1 item limit n sh))"
  using assms by (auto simp: PageAddItemExtended_def page_wf_simps Let_def split: option.splits)

lemma add_item_spec:
  assumes "page_wf p" "item \<noteq> []" "length item < 2 ^ 31 - 8"
  shows "\<exists>n p'. PageAddItemExtended p item off flags = Inr (n, p') \<and> page_wf p' \<and> pd_special p' = pd_special p \<and>
    (\<forall>x \<ge> pd_special p. p' x = p x) \<and> n \<le> length (lines p) + 1 \<and>
    (if n = 0 then lines p' = lines p
     else \<exists>grow. lines p' = put_line grow (n - 1) (Tuple LP_NORMAL item) (lines p) \<and>
       (\<not> grow \<longrightarrow> n \<le> length (lines p) \<and> lines p ! (n - 1) = Unused) \<and>
       (if OffsetNumberIsValid off then n = off else grow \<longrightarrow> n = length (lines p) + 1))"
proof -
  define limit where "limit = PageGetMaxOffsetNumber p + 1"
  note ptr = add_item_unfold[OF assms(1) limit_def, of item off flags]
  show ?thesis
  proof (cases "select_offset p limit off flags")
    case None
    then show ?thesis using assms(1) ptr by auto
  next
    case (Some r)
    obtain n sh p1 where r: "r = (n, sh, p1)" by (cases r) auto
    note sel = select_offset_spec[OF assms(1) limit_def Some[unfolded r]]
    then have hint: "p1 = p \<or> p1 = PageClearHasFreeLinePointers p" by blast
    note h = hint_page[OF hint assms(1)]
    have sp: "24 \<le> pd_special p" using assms(1) by (auto simp: page_wf_simps)
    consider "PageAddItemExtended p item off flags = Inr (0, p1)"
      | p' where "PageAddItemExtended p item off flags = Inr (n, p')" "n \<le> limit" "page_wf p'" "pd_special p' = pd_special p"
          "lines p' = put_line (n = limit \<or> sh) (n - 1) (Tuple LP_NORMAL item) (lines p)" "\<forall>x \<ge> pd_special p. p' x = p1 x"
      using place_item_spec[OF h(6), of limit n sh item] ptr Some r sel assms(2,3) h(3,5,8)
      by (cases "n > limit \<or> flags AND PAI_IS_HEAP \<noteq> 0 \<and> n > 291") (fastforce simp: limit_def split: if_splits)+
    then show ?thesis
    proof cases
      case 1
      then show ?thesis using h(3,5,6,7) sp by auto
    next
      case 2
      let ?grow = "n = limit \<or> sh"
      have "0 < n" "\<not> ?grow \<longrightarrow> n \<le> length (lines p) \<and> lines p ! (n - 1) = Unused"
        "if OffsetNumberIsValid off then n = off else ?grow \<longrightarrow> n = length (lines p) + 1"
        using sel 2(2) by (auto simp: limit_def)
      moreover have "\<forall>x \<ge> pd_special p. p' x = p x" "n \<le> length (lines p) + 1" using 2(2,6) h(7) sp by (auto simp: limit_def)
      ultimately show ?thesis using 2(1,3-5) by (intro exI[of _ n] exI[of _ p']) (simp only: if_False not_gr_zero[symmetric] simp_thms, blast)
    qed
  qed
qed

text \<open>An item that fits into the free space of a heap page is added.\<close>

lemma select_heap_offset:
  assumes "page_wf p" "limit = PageGetMaxOffsetNumber p + 1" "PageGetMaxOffsetNumber p \<le> 291" "0 < PageGetHeapFreeSpace p"
  obtains n p1 where "select_offset p limit 0 flags = Some (n, False, p1)" "n \<le> 291" "n \<le> limit" "0 < n"
    "p1 = p \<or> p1 = PageClearHasFreeLinePointers p"
proof -
  define n where "n = (if PageHasFreeLinePointers p then find_free_linp p limit 1 else limit)"
  have ff: "0 < find_free_linp p limit 1" "find_free_linp p limit 1 \<le> limit"
    using find_free_linp_spec[of 1 limit p] assms(2) by auto
  have sel: "select_offset p limit 0 flags = Some (n, False, if PageHasFreeLinePointers p \<and> n \<ge> limit then PageClearHasFreeLinePointers p else p)"
    by (simp add: select_offset_def OffsetNumberIsValid_def n_def Let_def)
  have "n \<le> 291"
  proof (cases "PageGetMaxOffsetNumber p = 291")
    case True
    then have free: "PageHasFreeLinePointers p" "\<exists>k \<in> {1 ..< limit}. \<not> ItemIdIsUsed (get_linp p (k - 1))"
      using assms(2,4) by (auto simp: PageGetHeapFreeSpace_def Let_def list_ex_iff split: if_splits)
    then obtain k where k: "1 \<le> k" "k < limit" "\<not> ItemIdIsUsed (get_linp p (k - 1))" by auto
    then have "\<not> ItemIdHasStorage (get_linp p (k - 1))" using page_wf_nth[OF assms(1), of "k - 1"] assms(2) by (auto simp: lp_ok_def)
    then have "find_free_linp p limit 1 < limit"
      using find_free_linp_spec[of 1 limit p] k by (cases "k < find_free_linp p limit 1") auto
    then show ?thesis using free(1) True assms(2) by (simp add: n_def)
  next
    case False
    then show ?thesis using assms(2,3) ff by (simp add: n_def)
  qed
  then show thesis using that sel ff assms(2) by (auto simp: n_def split: if_splits)
qed

lemma heap_add_succeeds:
  assumes "page_wf p" "PageGetMaxOffsetNumber p \<le> 291" "item \<noteq> []" "MAXALIGN (length item) \<le> PageGetHeapFreeSpace p"
  shows "\<exists>n p'. PageAddItem p item 0 overwrite True = Inr (n, p') \<and> n \<noteq> 0 \<and> PageGetMaxOffsetNumber p' \<le> 291"
proof -
  define limit where "limit = PageGetMaxOffsetNumber p + 1"
  define flags where "flags = (if overwrite then PAI_OVERWRITE else 0) OR PAI_IS_HEAP"
  have "0 < MAXALIGN (length item)" using assms(3) align_bounds(1)[of "length item"] by (cases item) auto
  then have pos: "0 < PageGetHeapFreeSpace p" using assms(4) by simp
  obtain n p1 where sel: "select_offset p limit 0 flags = Some (n, False, p1)" "n \<le> 291" "n \<le> limit" "0 < n"
    and hint: "p1 = p \<or> p1 = PageClearHasFreeLinePointers p"
    using select_heap_offset[OF assms(1) limit_def assms(2) pos] by blast
  note h = hint_page[OF hint assms(1)]
  have "PageGetHeapFreeSpace p \<le> PageGetFreeSpace p" by (simp add: PageGetHeapFreeSpace_def Let_def)
  then have room: "MAXALIGN (length item) + 4 \<le> pd_upper p - pd_lower p"
    using assms(4) \<open>0 < MAXALIGN (length item)\<close> by (simp add: PageGetFreeSpace_def Let_def split: if_splits)
  have lim: "limit = PageGetMaxOffsetNumber p1 + 1" by (simp add: limit_def h(8))
  have room': "MAXALIGN (length item) + (if n = limit \<or> False then 4 else 0) \<le> pd_upper p1 - pd_lower p1"
    using room h(1,2) by auto
  have ns: "False \<longrightarrow> n < limit" by simp
  from place_item_placed[OF h(6) lim sel(4,3) ns room'] obtain p' where
    p': "place_item p1 item limit n False = (n, p')" "linps p' = put_line (n = limit) (n - 1)
      (new_linp (pd_upper p1 - MAXALIGN (length item)) (length item)) (linps p1)" by auto
  have "PageAddItem p item 0 overwrite True = Inr (n, p')"
    using sel p'(1) add_item_unfold[OF assms(1) limit_def, of item 0 flags] by (simp add: PageAddItem_def flags_def)
  moreover have "length (linps p') \<le> 291"
    using p'(2) assms(2) sel(2) h(8) by (auto simp: put_line_def lim)
  ultimately show ?thesis using sel(4) by auto
qed

section \<open>New pages\<close>

lemma page_init_spec:
  assumes "special \<le> 8000"
  shows "page_wf (PageInit p 8192 special) \<and> lines (PageInit p 8192 special) = [] \<and>
    pd_upper (PageInit p 8192 special) = 8192 - MAXALIGN special \<and> PageGetPageSize (PageInit p 8192 special) = 8192 \<and>
    \<not> PageIsNew (PageInit p 8192 special) \<and> PageGetHeapFreeSpace (PageInit p 8192 special) = 8164 - MAXALIGN special"
proof -
  let ?q = "PageInit p 8192 special"
  have s: "MAXALIGN special \<le> 8007" "MAXALIGN special mod 8 = 0" using assms align_bounds(2)[of special] by simp_all
  have f: "pd_lower ?q = 24" "pd_upper ?q = 8192 - MAXALIGN special" "pd_special ?q = 8192 - MAXALIGN special"
    by (simp_all add: PageInit_def Let_def PageSetPageSizeAndVersion_def)
  have "(8192 - MAXALIGN special) mod 8 = 0" using s(2) by presburger
  moreover have "linps ?q = []" by (simp add: linps_def max_offset_eq f)
  moreover have "PageGetPageSize ?q = 8192"
    by (simp add: PageGetPageSize_def PageInit_def Let_def PageSetPageSizeAndVersion_def fsize.get_put PG_PAGE_LAYOUT_VERSION_def)
  ultimately show ?thesis using s(1) f
    by (simp add: page_wf_simps layout_ok_def lines_def PageIsNew_def PageGetHeapFreeSpace_def PageGetFreeSpace_def max_offset_eq Let_def; arith)
qed

lemma page_init_fields:
  assumes "special \<le> 8000" "q = PageInit p 8192 special"
  shows "pd_lower q = 24" "pd_upper q = 8192 - MAXALIGN special" "pd_special q = 8192 - MAXALIGN special" "pd_flags q = 0"
    "24 \<le> x \<Longrightarrow> q x = (if x < 8192 then 0 else p x)"
proof -
  show "pd_lower q = 24" "pd_upper q = 8192 - MAXALIGN special" "pd_special q = 8192 - MAXALIGN special" "pd_flags q = 0"
    by (simp_all add: assms(2) PageInit_def Let_def PageSetPageSizeAndVersion_def)
  show "24 \<le> x \<Longrightarrow> q x = (if x < 8192 then 0 else p x)"
    by (simp add: assms(2) PageInit_def Let_def PageSetPageSizeAndVersion_def memset_def put16_def set_flags_def set_lower_def
        set_upper_def set_special_def)
qed

text \<open>Without a hint of free line pointers, an item that fits is appended as the next line.\<close>

lemma append_item:
  assumes wf: "page_wf p" and nohint: "\<not> PageHasFreeLinePointers p" and item: "item \<noteq> []"
    and room: "MAXALIGN (length item) + 4 \<le> pd_upper p - pd_lower p"
  shows "\<exists>p'. PageAddItem p item 0 False False = Inr (length (lines p) + 1, p') \<and> page_wf p' \<and>
    lines p' = lines p @ [Tuple LP_NORMAL item] \<and> pd_upper p' = pd_upper p - MAXALIGN (length item) \<and>
    pd_lower p' = pd_lower p + 4 \<and> pd_flags p' = pd_flags p \<and> pd_special p' = pd_special p"
proof -
  define n where "n = PageGetMaxOffsetNumber p + 1"
  have n: "0 < n" "n \<le> n" "False \<longrightarrow> n < n" "length (lines p) + 1 = n" by (simp_all add: n_def)
  have b: "pd_upper p \<le> 8192" using wf by (auto simp: page_wf_simps)
  then have l: "length item < 2 ^ 31 - 8" using room align_bounds(1)[of "length item"] by simp
  have room': "MAXALIGN (length item) + (if n = n \<or> False then 4 else 0) \<le> pd_upper p - pd_lower p" using room by simp
  obtain p' where p': "place_item p item n n False = (n, p')" "page_wf p'" "lines p' = put_line True (n - 1) (Tuple LP_NORMAL item) (lines p)"
    using place_item_spec[OF wf n_def n(1-3) item l] room' by auto
  from place_item_placed[OF wf n_def n(1-3) room'] p'(1) have
    f: "pd_upper p' = pd_upper p - MAXALIGN (length item)" "pd_special p' = pd_special p" "pd_flags p' = pd_flags p" "pd_lower p' = pd_lower p + 4"
    by auto
  have "select_offset p n 0 0 = Some (n, False, p)" using nohint by (simp add: select_offset_def OffsetNumberIsValid_def InvalidOffsetNumber_def)
  then have "PageAddItem p item 0 False False = Inr (n, p')"
    using add_item_unfold[OF wf n_def, of item 0 0] p'(1) by (simp add: PageAddItem_def)
  then show ?thesis using p' f n(4) by (auto simp: put_line_def n_def)
qed

end
