(* ===== verification/PageCompact.thy ===== *)
theory PageCompact
  imports PageAdd
begin

text \<open>
  \<open>compactify_tuples\<close> moves the items to the end of the page without changing their bytes, by moving
  within the page when they are sorted and through a temporary buffer otherwise. On it rest
  \<open>PageRepairFragmentation\<close> and \<open>PageIndexMultiDelete\<close>.
\<close>

section \<open>Where the items go\<close>

definition total_len :: "itemIdCompactData list \<Rightarrow> nat" where
  "total_len its = sum_list (map alignedlen its)"

fun places :: "nat \<Rightarrow> itemIdCompactData list \<Rightarrow> nat list" where
  "places u [] = []"
| "places u (it # its) = (u - alignedlen it) # places (u - alignedlen it) its"

lemma total_len_simps [simp]: "total_len [] = 0" "total_len (it # its) = alignedlen it + total_len its" "total_len (xs @ ys) = total_len xs + total_len ys"
  by (simp_all add: total_len_def)

lemma places_append: "places u (xs @ ys) = places u xs @ places (u - total_len xs) ys"
  by (induction xs arbitrary: u) auto

lemma length_places [simp]: "length (places u its) = length its"
  by (induction its arbitrary: u) auto

lemma places_bounds:
  "k < length its \<Longrightarrow> total_len its \<le> u \<Longrightarrow> u - total_len its \<le> places u its ! k \<and> places u its ! k + alignedlen (its ! k) \<le> u"
proof (induction its arbitrary: u k)
  case (Cons it its)
  then have "total_len its \<le> u - alignedlen it" "alignedlen it \<le> u" by auto
  then show ?case using Cons.IH[of "k - 1" "u - alignedlen it"] Cons.prems by (cases k) auto
qed simp

section \<open>The loop with a fixed source\<close>

definition copy_const :: "bytes \<Rightarrow> bytes \<Rightarrow> nat \<Rightarrow> nat \<Rightarrow> nat \<Rightarrow> bytes option" where
  "copy_const s page dst src n = Some (memcpy page dst s src n)"

text \<open>What the loop leaves: the pending bytes and the items in their places, the line pointers set to them, the rest as before.\<close>

definition compacted :: "bytes \<Rightarrow> itemIdCompactData list \<Rightarrow> nat \<Rightarrow> nat \<Rightarrow> nat \<Rightarrow> bytes \<Rightarrow> bytes \<Rightarrow> bool" where
  "compacted s its u t h m m' \<longleftrightarrow>
     (\<forall>d < t - h. m' (u + d) = s (h + d)) \<and>
     (\<forall>k < length its. \<forall>d < alignedlen (its ! k). m' (places u its ! k + d) = s (itemoff (its ! k) + d)) \<and>
     (\<forall>x \<ge> u + (t - h). m' x = m x) \<and> (\<forall>x < 24. m' x = m x) \<and>
     (\<forall>k < length its. get_linp m' (offsetindex (its ! k)) = (get_linp m (offsetindex (its ! k)))\<lparr>lp_off := of_nat (places u its ! k)\<rparr>)"

definition linps_kept :: "nat \<Rightarrow> itemIdCompactData list \<Rightarrow> bytes \<Rightarrow> bytes \<Rightarrow> bool" where
  "linps_kept lower its m m' \<longleftrightarrow> (\<forall>i. i \<notin> offsetindex ` set its \<and> linp_addr i + 4 \<le> lower \<longrightarrow> get_linp m' i = get_linp m i)"

lemma put_linp_above: "linp_addr i + 4 \<le> lower \<Longrightarrow> lower \<le> x \<Longrightarrow> put_linp m i lp x = m x"
  by (simp add: put_linp_def put32_other)

lemma put_linp_below: "x < 24 \<Longrightarrow> put_linp m i lp x = m x"
  by (simp add: put_linp_def put32_other linp_addr_eq)

lemma compact_loop_const:
  assumes "lower + total_len its \<le> u" "24 \<le> lower" "h \<le> t"
    and "\<forall>it \<in> set its. linp_addr (offsetindex it) + 4 \<le> lower" "distinct (map offsetindex its)"
  shows "\<exists>m'. compact_loop (copy_const s) its u t h m = Some (u - total_len its, m') \<and> compacted s its u t h m m' \<and> linps_kept lower its m m'"
  using assms
proof (induction its arbitrary: u t h m)
  case Nil
  then have "linps_kept lower [] m (memcpy m u s h (t - h))" by (simp add: linps_kept_def)
  moreover have "compacted s [] u t h m (memcpy m u s h (t - h))" using Nil by (auto simp: compacted_def memcpy_def)
  ultimately show ?case by (simp add: copy_const_def)
next
  case (Cons it its)
  let ?i = "offsetindex it" and ?n = "alignedlen it"
  define flush where "flush \<longleftrightarrow> h \<noteq> item_end it"
  define m1 where "m1 = (if flush then memcpy m u s h (t - h) else m)"
  define t' where "t' = (if flush then item_end it else t)"
  define m2 where "m2 = put_linp m1 ?i ((get_linp m1 ?i)\<lparr>lp_off := of_nat (u - ?n)\<rparr>)"
  have step: "compact_loop (copy_const s) (it # its) u t h m = compact_loop (copy_const s) its (u - ?n) t' (itemoff it) m2"
    by (simp add: copy_const_def m1_def m2_def t'_def flush_def Let_def)
  have pre: "lower + total_len its \<le> u - ?n" "itemoff it \<le> t'"
    using Cons.prems by (auto simp: t'_def flush_def item_end_def)
  obtain m' where m': "compact_loop (copy_const s) its (u - ?n) t' (itemoff it) m2 = Some (u - ?n - total_len its, m')"
    "compacted s its (u - ?n) t' (itemoff it) m2 m'" "linps_kept lower its m2 m'"
    using Cons.IH[OF pre(1) Cons.prems(2) pre(2), of m2] Cons.prems(4,5) by auto
  have lp1: "get_linp m1 i = get_linp m i" if "linp_addr i + 4 \<le> lower" for i
    using that Cons.prems(1) by (simp add: m1_def)
  have above: "m2 x = m1 x" if "lower \<le> x" for x
    using that Cons.prems(4) put_linp_above[of ?i lower x] by (simp add: m2_def)
  have below: "m2 x = m x" if "x < 24" for x
    using that Cons.prems(1,2) by (simp add: m2_def put_linp_below m1_def memcpy_def)
  have pend: "m' (u - ?n + d) = s (itemoff it + d)" if "d < t' - itemoff it" for d
    using m'(2) that by (simp add: compacted_def)
  have high: "m' x = m2 x" if "u - ?n + (t' - itemoff it) \<le> x" for x using m'(2) that by (simp add: compacted_def)
  have len: "?n \<le> t' - itemoff it" "u - ?n + ?n = u" "lower \<le> u"
    using Cons.prems by (auto simp: t'_def flush_def item_end_def)
  have "m' (u + d) = s (h + d)" if "d < t - h" for d
  proof (cases flush)
    case True
    then have "m' (u + d) = m1 (u + d)" using high above len by (simp add: t'_def item_end_def)
    then show ?thesis using True that by (auto simp: m1_def memcpy_def)
  next
    case False
    then show ?thesis using pend[of "?n + d"] len that by (simp add: t'_def flush_def item_end_def add.assoc[symmetric])
  qed
  moreover have "m' x = m x" if "u + (t - h) \<le> x" for x
  proof -
    have "u - ?n + (t' - itemoff it) \<le> x"
      using that len Cons.prems(3) by (auto simp: t'_def flush_def item_end_def)
    then show ?thesis using high above that len by (simp add: m1_def memcpy_def)
  qed
  moreover have "m' x = m x" if "x < 24" for x using that m'(2) below by (simp add: compacted_def)
  moreover have "m' (places u (it # its) ! k + d) = s (itemoff ((it # its) ! k) + d)"
    if "k < length (it # its)" "d < alignedlen ((it # its) ! k)" for k d
    using that m'(2) pend len by (cases k) (auto simp: compacted_def)
  moreover have "get_linp m' (offsetindex ((it # its) ! k)) = (get_linp m (offsetindex ((it # its) ! k)))\<lparr>lp_off := of_nat (places u (it # its) ! k)\<rparr>"
    if "k < length (it # its)" for k
  proof (cases k)
    case 0
    then show ?thesis using m'(3) Cons.prems(4,5) lp1 by (auto simp: linps_kept_def m2_def)
  next
    case (Suc j)
    then have "offsetindex (its ! j) \<in> offsetindex ` set its" "linp_addr (offsetindex (its ! j)) + 4 \<le> lower"
      using that Cons.prems(4) by auto
    moreover have "?i \<notin> offsetindex ` set its" using Cons.prems(5) by simp
    ultimately have "offsetindex (its ! j) \<noteq> ?i" "linp_addr (offsetindex (its ! j)) + 4 \<le> lower" by metis+
    then show ?thesis using Suc that m'(2) lp1 by (auto simp: compacted_def m2_def)
  qed
  moreover have "linps_kept lower (it # its) m m'" using m'(3) lp1 by (auto simp: linps_kept_def m2_def)
  ultimately show ?case using step m'(1) unfolding compacted_def by auto
qed

section \<open>Both sources\<close>

text \<open>Copying from the buffer, when no item ends behind it.\<close>

lemma compact_loop_from:
  assumes "h \<le> t" "t \<le> 8192" "\<forall>it \<in> set its. item_end it \<le> 8192"
  shows "compact_loop (copy_from s) its u t h m = compact_loop (copy_const s) its u t h m"
  using assms
proof (induction its arbitrary: u t h m)
  case (Cons it its)
  have "copy_from s m u h (t - h) = copy_const s m u h (t - h)"
    using Cons.prems by (simp add: copy_from_def copy_const_def)
  moreover have "copy_const s m u h (t - h) = Some (memcpy m u s h (t - h))" by (simp add: copy_const_def)
  moreover have "compact_loop (copy_from s) its u' (item_end it) (itemoff it) m' = compact_loop (copy_const s) its u' (item_end it) (itemoff it) m'"
    "h = item_end it \<Longrightarrow> compact_loop (copy_from s) its u' t (itemoff it) m' = compact_loop (copy_const s) its u' t (itemoff it) m'" for u' m'
    using Cons.prems by (auto intro!: Cons.IH simp: item_end_def)
  ultimately show ?case by (simp add: Let_def)
qed (simp add: copy_from_def copy_const_def)

text \<open>Items from high to low offsets: moving them within the page reads what the page held at first.\<close>

fun descending :: "nat \<Rightarrow> itemIdCompactData list \<Rightarrow> bool" where
  "descending h [] = True"
| "descending h (it # its) = (item_end it \<le> h \<and> descending (itemoff it) its)"

lemma memmove_as_memcpy: "(\<And>x. a \<le> x \<Longrightarrow> x < a + n \<Longrightarrow> m x = s x) \<Longrightarrow> memmove m u a n = memcpy m u s a n"
  unfolding memmove_def memcpy_def by (rule ext) auto

lemma compact_loop_within:
  assumes "descending h its" "h \<le> u" "h \<le> t" "lower \<le> h" "\<forall>it \<in> set its. lower \<le> itemoff it \<and> linp_addr (offsetindex it) + 4 \<le> lower"
    and "\<forall>x. lower \<le> x \<and> x < t \<longrightarrow> m x = s x"
  shows "compact_loop copy_within its u t h m = compact_loop (copy_const s) its u t h m"
  using assms
proof (induction its arbitrary: u t h m)
  case Nil
  then have "memmove m u h (t - h) = memcpy m u s h (t - h)" by (intro memmove_as_memcpy) auto
  then show ?case by (simp add: copy_within_def copy_const_def)
next
  case (Cons it its)
  let ?f = "h \<noteq> item_end it"
  define m1 where "m1 = (if ?f then memcpy m u s h (t - h) else m)"
  define t' where "t' = (if ?f then item_end it else t)"
  define m2 where "m2 = put_linp m1 (offsetindex it) ((get_linp m1 (offsetindex it))\<lparr>lp_off := of_nat (u - alignedlen it)\<rparr>)"
  have "memmove m u h (t - h) = memcpy m u s h (t - h)" using Cons.prems(3,4,6) by (intro memmove_as_memcpy) auto
  then have "compact_loop copy_within (it # its) u t h m = compact_loop copy_within its (u - alignedlen it) t' (itemoff it) m2"
    "compact_loop (copy_const s) (it # its) u t h m = compact_loop (copy_const s) its (u - alignedlen it) t' (itemoff it) m2"
    by (simp_all add: copy_within_def copy_const_def m1_def m2_def t'_def Let_def)
  moreover have "m2 x = s x" if "lower \<le> x" "x < t'" for x
  proof -
    have "m2 x = m1 x" using that Cons.prems(5) put_linp_above[of "offsetindex it" lower x] by (simp add: m2_def)
    then show ?thesis using that Cons.prems by (auto simp: m1_def t'_def memcpy_def split: if_splits)
  qed
  then have "compact_loop copy_within its (u - alignedlen it) t' (itemoff it) m2 = compact_loop (copy_const s) its (u - alignedlen it) t' (itemoff it) m2"
    using Cons.prems by (intro Cons.IH) (auto simp: t'_def item_end_def)
  ultimately show ?case by simp
qed

section \<open>Items of a page\<close>

definition items_ok :: "nat \<Rightarrow> nat \<Rightarrow> itemIdCompactData list \<Rightarrow> bool" where
  "items_ok lo hi its \<longleftrightarrow> (\<forall>it \<in> set its. lo \<le> itemoff it \<and> item_end it \<le> hi \<and> 0 < alignedlen it) \<and>
     sorted_wrt (\<lambda>a b. item_end a \<le> itemoff b \<or> item_end b \<le> itemoff a) its"

text \<open>Items that do not overlap fit into their range together.\<close>

lemma items_total: "items_ok lo hi its \<Longrightarrow> total_len its \<le> hi - lo"
proof -
  assume ok: "items_ok lo hi its"
  have "card (\<Union>it \<in> set its. {itemoff it ..< item_end it}) = total_len its \<and> distinct its"
    using ok
  proof (induction its)
    case (Cons it its)
    then have IH: "card (\<Union>it \<in> set its. {itemoff it ..< item_end it}) = total_len its" "distinct its"
      by (auto simp: items_ok_def)
    have "{itemoff it ..< item_end it} \<inter> (\<Union>it \<in> set its. {itemoff it ..< item_end it}) = {}"
      using Cons.prems by (fastforce simp: items_ok_def)
    moreover have "it \<notin> set its" using Cons.prems by (force simp: items_ok_def item_end_def)
    ultimately show ?case using IH by (simp add: card_Un_disjoint item_end_def)
  qed simp
  moreover have "(\<Union>it \<in> set its. {itemoff it ..< item_end it}) \<subseteq> {lo ..< hi}"
    using ok by (fastforce simp: items_ok_def)
  ultimately show ?thesis using card_mono[of "{lo ..< hi}"] by (metis card_atLeastLessThan finite_atLeastLessThan)
qed

lemma skip_placed_spec:
  assumes "items_ok lo hi its" "skip_placed hi its = (u, rest)"
  shows "\<exists>pre. its = pre @ rest \<and> total_len pre + u = hi \<and> (\<forall>k < length pre. itemoff (pre ! k) = places hi pre ! k) \<and> items_ok lo u rest"
  using assms
proof (induction hi its rule: skip_placed.induct)
  case (2 hi it its)
  show ?case
  proof (cases "hi = item_end it")
    case True
    have "items_ok lo (hi - alignedlen it) its"
    proof -
      have "item_end x \<le> itemoff it" if "x \<in> set its" for x
        using 2(2) that True by (fastforce simp: items_ok_def item_end_def)
      then show ?thesis using 2(2) True by (auto simp: items_ok_def item_end_def)
    qed
    then obtain pre where pre: "its = pre @ rest" "total_len pre + u = hi - alignedlen it"
      "\<forall>k < length pre. itemoff (pre ! k) = places (hi - alignedlen it) pre ! k" "items_ok lo u rest"
      using 2(1,3) True by auto
    have "alignedlen it \<le> hi" using True by (simp add: item_end_def)
    then have "it # its = (it # pre) @ rest \<and> total_len (it # pre) + u = hi \<and>
      (\<forall>k < length (it # pre). itemoff ((it # pre) ! k) = places hi (it # pre) ! k) \<and> items_ok lo u rest"
      using pre True by (auto simp: nth_Cons' item_end_def)
    then show ?thesis by blast
  next
    case False
    then show ?thesis using 2 by (intro exI[of _ "[]"]) auto
  qed
qed auto

lemma descending_sorted:
  assumes "items_ok lo hi its" "sorted_wrt (\<lambda>a b. itemoff a > itemoff b) its" "\<forall>it \<in> set its. item_end it \<le> h"
  shows "descending h its"
  using assms
proof (induction its arbitrary: h)
  case (Cons it its)
  have "item_end x \<le> itemoff it" if "x \<in> set its" for x
    using Cons.prems(1,2) that by (fastforce simp: items_ok_def item_end_def)
  then show ?case using Cons by (auto simp: items_ok_def)
qed simp

section \<open>Moving all items\<close>

text \<open>The buffer holds the items that have to be moved, as they are in the page.\<close>

lemma copy_items_spec:
  assumes "\<forall>it \<in> set its. item_end it \<le> 8192"
  shows "\<exists>s'. copy_items s p its = Some s' \<and> (\<forall>x. s' x = s x \<or> s' x = p x) \<and>
    (\<forall>it \<in> set its. \<forall>d < alignedlen it. s' (itemoff it + d) = p (itemoff it + d))"
proof -
  have "\<exists>s'. copy_items s p its = Some s' \<and> (\<forall>x. s x = p x \<longrightarrow> s' x = p x) \<and> (\<forall>x. s' x = s x \<or> s' x = p x) \<and>
    (\<forall>it \<in> set its. \<forall>d < alignedlen it. s' (itemoff it + d) = p (itemoff it + d))"
    using assms
  proof (induction its arbitrary: s)
    case (Cons it its)
    let ?s = "memcpy s (itemoff it) p (itemoff it) (alignedlen it)"
    obtain s' where s': "copy_items ?s p its = Some s'" "\<forall>x. ?s x = p x \<longrightarrow> s' x = p x" "\<forall>x. s' x = ?s x \<or> s' x = p x"
      "\<forall>it \<in> set its. \<forall>d < alignedlen it. s' (itemoff it + d) = p (itemoff it + d)"
      using Cons.IH[of ?s] Cons.prems by auto
    have mc: "?s x = (if itemoff it \<le> x \<and> x < item_end it then p x else s x)" for x by (simp add: memcpy_def item_end_def)
    then have "s' (itemoff it + d) = p (itemoff it + d)" if "d < alignedlen it" for d using s'(2) that by (simp add: item_end_def)
    then show ?case using s' mc Cons.prems by auto metis+
  qed simp
  then show ?thesis by blast
qed

text \<open>Every item is at its place, with its bytes, and its line pointer says so; nothing else has changed.\<close>

definition packed :: "itemIdCompactData list \<Rightarrow> bytes \<Rightarrow> bytes \<Rightarrow> bool" where
  "packed its p p' \<longleftrightarrow>
     (\<forall>k < length its. get_linp p' (offsetindex (its ! k)) =
        (get_linp p (offsetindex (its ! k)))\<lparr>lp_off := of_nat (places (pd_special p) its ! k)\<rparr>) \<and>
     (\<forall>k < length its. \<forall>d < alignedlen (its ! k). p' (places (pd_special p) its ! k + d) = p (itemoff (its ! k) + d)) \<and>
     (\<forall>x \<ge> pd_special p. p' x = p x) \<and> (\<forall>x < 24. p' x = p x) \<and> linps_kept (pd_lower p) its p p'"

lemma loop_packs:
  assumes its: "its = pre @ rest" "total_len pre + u = pd_special p" "\<forall>k < length pre. itemoff (pre ! k) = places (pd_special p) pre ! k"
    and ok: "items_ok (pd_upper p) u rest" "\<forall>it \<in> set rest. \<forall>d < alignedlen it. s (itemoff it + d) = p (itemoff it + d)"
    and all: "items_ok (pd_upper p) (pd_special p) its"
    and hdr: "24 \<le> pd_lower p" "pd_lower p \<le> pd_upper p" "pd_upper p \<le> pd_special p"
    and lps: "\<forall>it \<in> set its. linp_addr (offsetindex it) + 4 \<le> pd_lower p \<and> lp_off (get_linp p (offsetindex it)) = of_nat (itemoff it)"
      "distinct (map offsetindex its)"
  shows "\<exists>m. compact_loop (copy_const s) rest u t t p = Some (pd_special p - total_len its, m) \<and> packed its p m"
proof -
  have room: "pd_lower p + total_len rest \<le> u" using items_total[OF all] its(1,2) hdr by simp
  obtain m where m: "compact_loop (copy_const s) rest u t t p = Some (u - total_len rest, m)" "compacted s rest u t t p m" "linps_kept (pd_lower p) rest p m"
    using compact_loop_const[OF room hdr(1) le_refl, of s t p] lps its(1) by auto
  have pl: "places (pd_special p) its = places (pd_special p) pre @ places u rest"
    using its(1,2) by (simp add: places_append flip: its(2))
  have low: "u \<le> itemoff (pre ! k)" if "k < length pre" for k
    using places_bounds[of k pre "pd_special p"] its(2,3) that by auto
  have high: "m x = p x" if "u \<le> x" for x using m(2) that by (simp add: compacted_def)
  have "packed its p m" unfolding packed_def
  proof (intro conjI allI impI)
    fix k assume k: "k < length its"
    have first: "its ! k = pre ! k" "places (pd_special p) its ! k = itemoff (pre ! k)" if "k < length pre"
    proof -
      show "its ! k = pre ! k" using that its(1) by (simp add: nth_append)
      show "places (pd_special p) its ! k = itemoff (pre ! k)" using that its(3) by (simp add: pl nth_append)
    qed
    have rest: "k - length pre < length rest" "its ! k = rest ! (k - length pre)"
      "places (pd_special p) its ! k = places u rest ! (k - length pre)" if "\<not> k < length pre"
    proof -
      show "k - length pre < length rest" "its ! k = rest ! (k - length pre)" using that k its(1) by (auto simp: nth_append)
      show "places (pd_special p) its ! k = places u rest ! (k - length pre)" using that by (simp add: pl nth_append)
    qed
    show "get_linp m (offsetindex (its ! k)) = (get_linp p (offsetindex (its ! k)))\<lparr>lp_off := of_nat (places (pd_special p) its ! k)\<rparr>"
    proof (cases "k < length pre")
      case True
      then have "offsetindex (pre ! k) \<in> offsetindex ` set pre" by simp
      moreover have "offsetindex ` set pre \<inter> offsetindex ` set rest = {}" using lps(2) its(1) by simp
      ultimately have "offsetindex (pre ! k) \<notin> offsetindex ` set rest" by blast
      moreover have "its ! k \<in> set its" using k by simp
      ultimately show ?thesis using m(3) lps(1) first[OF True] by (auto simp: linps_kept_def)
    next
      case False
      then show ?thesis using m(2) k rest by (simp add: compacted_def)
    qed
    fix d assume d: "d < alignedlen (its ! k)"
    show "m (places (pd_special p) its ! k + d) = p (itemoff (its ! k) + d)"
    proof (cases "k < length pre")
      case True
      then show ?thesis using low[of k] high first by simp
    next
      case False
      then show ?thesis using m(2) ok(2) k d rest nth_mem[of "k - length pre" rest] by (simp add: compacted_def)
    qed
  qed (use m high its in \<open>auto simp: compacted_def linps_kept_def\<close>)
  then show ?thesis using m(1) its(1,2) by auto
qed

lemma compactify_spec:
  assumes ok: "items_ok (pd_upper p) (pd_special p) its" and "its \<noteq> []"
    and hdr: "24 \<le> pd_lower p" "pd_lower p \<le> pd_upper p" "pd_upper p \<le> pd_special p" "pd_special p \<le> 8192"
    and lps: "\<forall>it \<in> set its. linp_addr (offsetindex it) + 4 \<le> pd_lower p \<and> lp_off (get_linp p (offsetindex it)) = of_nat (itemoff it)"
      "distinct (map offsetindex its)"
    and sorted: "presorted \<Longrightarrow> sorted_wrt (\<lambda>a b. itemoff a > itemoff b) its"
  shows "\<exists>m. compactify_tuples s its p presorted = Some (set_upper m (pd_special p - total_len its)) \<and> packed its p m"
proof -
  let ?start = "\<lambda>its'. item_end (case its' of it # _ \<Rightarrow> it | [] \<Rightarrow> last its)"
  obtain u rest where sk: "skip_placed (pd_special p) its = (u, rest)" by fastforce
  obtain pre where pre: "its = pre @ rest" "total_len pre + u = pd_special p"
    "\<forall>k < length pre. itemoff (pre ! k) = places (pd_special p) pre ! k" "items_ok (pd_upper p) u rest"
    using skip_placed_spec[OF ok sk] by blast
  have ends: "item_end it \<le> 8192" "pd_upper p \<le> itemoff it" if "it \<in> set its" for it
    using that ok hdr(4) by (auto simp: items_ok_def)
  then have st: "?start its' \<le> 8192" if "set its' \<subseteq> set its" for its'
    using that assms(2) by (cases its') auto
  have all: "\<forall>it \<in> set its'. item_end it \<le> 8192" if "set its' \<subseteq> set its" for its' using that ends by blast
  note pack = loop_packs[OF pre(1-4) _ ok hdr(1-3) lps]
  show ?thesis
  proof (cases presorted)
    case True
    have "compact_loop copy_within rest u (?start rest) (?start rest) p = compact_loop (copy_const p) rest u (?start rest) (?start rest) p"
    proof (cases rest)
      case (Cons it its')
      have "descending (item_end it) rest"
      proof -
        have "descending u rest" using descending_sorted[OF pre(4)] sorted[OF True] pre(1,4) by (auto simp: items_ok_def sorted_wrt_append)
        then show ?thesis using Cons by simp
      qed
      moreover have "\<forall>it \<in> set rest. pd_lower p \<le> itemoff it \<and> linp_addr (offsetindex it) + 4 \<le> pd_lower p"
        using lps(1) ends(2) hdr(2) pre(1) by fastforce
      moreover have "item_end it \<le> u" "itemoff it \<le> item_end it" using Cons pre(4) by (auto simp: items_ok_def item_end_def)
      ultimately show ?thesis using Cons by (intro compact_loop_within[of _ _ _ _ "pd_lower p"]) auto
    qed (simp add: copy_within_def copy_const_def memmove_def)
    then show ?thesis using pack[of p "?start rest"] True sk by (auto simp: compactify_tuples_def Let_def)
  next
    case False
    show ?thesis
    proof (cases "length its < PageGetMaxOffsetNumber p div 4")
      case True
      obtain s' where s': "copy_items s p its = Some s'" "\<forall>it \<in> set its. \<forall>d < alignedlen it. s' (itemoff it + d) = p (itemoff it + d)"
        using copy_items_spec[OF all[OF subset_refl], of s p] by blast
      have "compact_loop (copy_from s') its (pd_special p) (?start its) (?start its) p = compact_loop (copy_const s') its (pd_special p) (?start its) (?start its) p"
        using compact_loop_from[OF le_refl st[OF subset_refl] all[OF subset_refl]] .
      then show ?thesis using loop_packs[of its "[]" its "pd_special p" p s' "?start its", OF _ _ _ ok s'(2) ok hdr(1-3) lps] False True s'(1)
        by (auto simp: compactify_tuples_def Let_def)
    next
      case nt: False
      define s' where "s' = memcpy s (pd_upper p) p (pd_upper p) (u - pd_upper p)"
      have "s' (itemoff it + d) = p (itemoff it + d)" if "it \<in> set rest" "d < alignedlen it" for it d
        using that pre(4) by (auto simp: s'_def memcpy_def items_ok_def item_end_def)
      moreover have "compact_loop (copy_from s') rest u (?start rest) (?start rest) p = compact_loop (copy_const s') rest u (?start rest) (?start rest) p"
        using compact_loop_from[OF le_refl st all, of rest rest] pre(1) by simp
      ultimately show ?thesis using pack[of s' "?start rest"] False nt sk by (auto simp: compactify_tuples_def Let_def s'_def)
    qed
  qed
qed

section \<open>Moving the items of a well-formed page\<close>

definition item_of :: "bytes \<Rightarrow> nat \<Rightarrow> itemIdCompactData" where
  "item_of p i = \<lparr>offsetindex = i, itemoff = ItemIdGetOffset (get_linp p i), alignedlen = MAXALIGN (ItemIdGetLength (get_linp p i))\<rparr>"

definition stored :: "bytes \<Rightarrow> nat \<Rightarrow> nat list" where
  "stored p n = filter (\<lambda>i. ItemIdHasStorage (get_linp p i)) [0 ..< n]"

definition items_of :: "bytes \<Rightarrow> nat \<Rightarrow> itemIdCompactData list" where
  "items_of p n = map (item_of p) (stored p n)"

lemma item_of_simps [simp]:
  "offsetindex (item_of p i) = i" "itemoff (item_of p i) = ItemIdGetOffset (get_linp p i)"
  "alignedlen (item_of p i) = MAXALIGN (ItemIdGetLength (get_linp p i))" "item_end (item_of p i) = lp_stop (get_linp p i)"
  by (simp_all add: item_of_def item_end_def lp_stop_def)

lemma stored_simps [simp]: "set (stored p n) = {i. i < n \<and> ItemIdHasStorage (get_linp p i)}" "distinct (stored p n)"
  by (auto simp: stored_def)

lemma sorted_stored: "sorted_wrt (<) (stored p n)"
  by (simp add: stored_def sorted_wrt_filter)

lemma items_of_ok:
  assumes "page_wf p" "n \<le> PageGetMaxOffsetNumber p"
  shows "items_ok (pd_upper p) (pd_special p) (items_of p n)"
proof -
  have "pd_upper p \<le> ItemIdGetOffset (get_linp p i) \<and> lp_stop (get_linp p i) \<le> pd_special p \<and> 0 < MAXALIGN (ItemIdGetLength (get_linp p i))"
    if "i \<in> set (stored p n)" for i
    using that page_wf_nth[OF assms(1), of i] assms(2) storage_pos(1)[of "get_linp p i"] align_bounds(1)[of "ItemIdGetLength (get_linp p i)"]
    by (auto simp: lp_ok_def)
  moreover have "sorted_wrt (\<lambda>i j. lp_stop (get_linp p i) \<le> ItemIdGetOffset (get_linp p j) \<or> lp_stop (get_linp p j) \<le> ItemIdGetOffset (get_linp p i)) (stored p n)"
  proof (rule sorted_wrt_mono_rel[OF _ sorted_stored])
    fix i j assume "i \<in> set (stored p n)" "j \<in> set (stored p n)" "i < j"
    then show "lp_stop (get_linp p i) \<le> ItemIdGetOffset (get_linp p j) \<or> lp_stop (get_linp p j) \<le> ItemIdGetOffset (get_linp p i)"
      using page_wf_apart[OF assms(1), of i j] assms(2) by (auto simp: apart_def)
  qed
  ultimately show ?thesis by (auto simp: items_ok_def items_of_def sorted_wrt_map)
qed

lemma places_desc:
  "k < l \<Longrightarrow> l < length its \<Longrightarrow> total_len its \<le> u \<Longrightarrow> places u its ! l + alignedlen (its ! l) \<le> places u its ! k"
proof (induction its arbitrary: u k l)
  case (Cons it its)
  then have t: "total_len its \<le> u - alignedlen it" by simp
  show ?case using Cons places_bounds[OF _ t, of "l - 1"] by (cases k; cases l) auto
qed simp

lemma places_aligned:
  "k < length its \<Longrightarrow> total_len its \<le> u \<Longrightarrow> u mod 8 = 0 \<Longrightarrow> \<forall>it \<in> set its. alignedlen it mod 8 = 0 \<Longrightarrow> places u its ! k mod 8 = 0"
proof (induction its arbitrary: u k)
  case (Cons it its)
  then have "(u - alignedlen it) mod 8 = 0" by (simp add: mod_eq_0_iff_dvd)
  then show ?case using Cons by (cases k) auto
qed simp

lemma total_aligned: "\<forall>it \<in> set its. alignedlen it mod 8 = 0 \<Longrightarrow> total_len its mod 8 = 0"
  by (induction its) (auto simp: mod_eq_0_iff_dvd)

text \<open>Fields and line pointers of a page after the items have moved.\<close>

lemma packed_header:
  assumes "packed its p m"
  shows "pd_lower m = pd_lower p" "pd_special m = pd_special p" "pd_flags m = pd_flags p"
  using assms by (auto simp: packed_def intro!: flower.get_local fspecial.get_local fflags.get_local)

lemma packed_stored:
  assumes "packed (items_of p n) p m" "i < n" "ItemIdHasStorage (get_linp p i)" "total_len (items_of p n) \<le> pd_special p" "pd_special p \<le> 8192"
  obtains k where "k < length (stored p n)" "stored p n ! k = i" "get_linp m i = (get_linp p i)\<lparr>lp_off := of_nat (places (pd_special p) (items_of p n) ! k)\<rparr>"
    "ItemIdGetOffset (get_linp m i) = places (pd_special p) (items_of p n) ! k"
    "lp_stop (get_linp m i) = places (pd_special p) (items_of p n) ! k + alignedlen (items_of p n ! k)"
proof -
  have "i \<in> set (stored p n)" using assms(2,3) by simp
  then obtain k where k: "k < length (stored p n)" "stored p n ! k = i" by (metis in_set_conv_nth)
  let ?pl = "places (pd_special p) (items_of p n) ! k"
  have len: "length (items_of p n) = length (stored p n)" "items_of p n ! k = item_of p i" using k by (simp_all add: items_of_def)
  have lp: "get_linp m i = (get_linp p i)\<lparr>lp_off := of_nat ?pl\<rparr>" using assms(1) k len by (auto simp: packed_def)
  have "?pl < 32768" using places_bounds[of k "items_of p n" "pd_special p"] k len assms(4,5) by simp
  then have "ItemIdGetOffset (get_linp m i) = ?pl" by (simp add: lp ItemIdGetOffset_def)
  moreover from this have "lp_stop (get_linp m i) = ?pl + alignedlen (items_of p n ! k)"
    using len lp by (simp add: lp_stop_def ItemIdGetLength_def)
  ultimately show thesis using that k lp by blast
qed

lemma packed_bare:
  assumes "packed (items_of p n) p m" "i < n" "n \<le> PageGetMaxOffsetNumber p" "\<not> ItemIdHasStorage (get_linp p i)"
  shows "get_linp m i = get_linp p i"
  using assms linp_below_lower[of i p] by (auto simp: packed_def linps_kept_def items_of_def)

lemma packed_kept:
  assumes "packed (items_of p n) p m" "i < n" "n \<le> PageGetMaxOffsetNumber p" "total_len (items_of p n) \<le> pd_special p" "pd_special p \<le> 8192"
  shows "lp_len (get_linp m i) = lp_len (get_linp p i)" "lp_flags (get_linp m i) = lp_flags (get_linp p i)"
    "ItemIdHasStorage (get_linp m i) = ItemIdHasStorage (get_linp p i)" "ItemIdIsUsed (get_linp m i) = ItemIdIsUsed (get_linp p i)"
proof -
  show "lp_len (get_linp m i) = lp_len (get_linp p i)" "lp_flags (get_linp m i) = lp_flags (get_linp p i)"
    using packed_bare[OF assms(1-3)] packed_stored[OF assms(1,2) _ assms(4,5)]
    by (cases "ItemIdHasStorage (get_linp p i)"; fastforce)+
  then show "ItemIdHasStorage (get_linp m i) = ItemIdHasStorage (get_linp p i)" "ItemIdIsUsed (get_linp m i) = ItemIdIsUsed (get_linp p i)"
    by (simp_all add: ItemIdHasStorage_def ItemIdIsUsed_def)
qed

lemma items_aligned: "\<forall>it \<in> set (items_of p n). alignedlen it mod 8 = 0"
  by (simp add: items_of_def)

lemma packed_layout:
  assumes "page_wf p" "packed (items_of p n) p m" "n = PageGetMaxOffsetNumber p" "total_len (items_of p n) \<le> pd_special p"
  shows "layout_ok (pd_special p - total_len (items_of p n)) (pd_special p) (map (get_linp m) [0 ..< n])"
proof -
  have hdr: "pd_special p \<le> 8192" "pd_special p mod 8 = 0" using assms(1) by (simp_all add: page_wf_simps)
  note kept = packed_kept[OF assms(2) _ eq_refl[OF assms(3)] assms(4) hdr(1)]
  note stored = packed_stored[OF assms(2) _ _ assms(4) hdr(1)]
  have "lp_ok (pd_special p - total_len (items_of p n)) (pd_special p) (get_linp m i)" if i: "i < n" for i
    unfolding lp_ok_def
  proof
    assume "ItemIdHasStorage (get_linp m i)"
    then have s: "ItemIdHasStorage (get_linp p i)" using kept(3)[OF i] by simp
    obtain k where k: "k < length (stored p n)" "ItemIdGetOffset (get_linp m i) = places (pd_special p) (items_of p n) ! k"
      "lp_stop (get_linp m i) = places (pd_special p) (items_of p n) ! k + alignedlen (items_of p n ! k)"
      using stored[OF i s] by blast
    have "k < length (items_of p n)" using k(1) by (simp add: items_of_def)
    then show "ItemIdIsUsed (get_linp m i) \<and> pd_special p - total_len (items_of p n) \<le> ItemIdGetOffset (get_linp m i) \<and>
      lp_stop (get_linp m i) \<le> pd_special p \<and> ItemIdGetOffset (get_linp m i) mod 8 = 0"
      using kept(4)[OF i] s page_wf_nth[OF assms(1), of i] i assms(3,4) k hdr(2) places_bounds[of k "items_of p n" "pd_special p"]
        places_aligned[of k "items_of p n" "pd_special p"] items_aligned[of p n] by (simp add: lp_ok_def)
  qed
  moreover have "apart (get_linp m i) (get_linp m j)" if j: "i < j" "j < n" for i j
    unfolding apart_def
  proof
    assume "ItemIdHasStorage (get_linp m i) \<and> ItemIdHasStorage (get_linp m j)"
    moreover have i: "i < n" using j by simp
    ultimately have s: "ItemIdHasStorage (get_linp p i)" "ItemIdHasStorage (get_linp p j)" using kept(3) j by auto
    obtain k where k: "k < length (stored p n)" "stored p n ! k = i" "ItemIdGetOffset (get_linp m i) = places (pd_special p) (items_of p n) ! k"
      "lp_stop (get_linp m i) = places (pd_special p) (items_of p n) ! k + alignedlen (items_of p n ! k)"
      using stored[OF i s(1)] by blast
    obtain l where l: "l < length (stored p n)" "stored p n ! l = j" "ItemIdGetOffset (get_linp m j) = places (pd_special p) (items_of p n) ! l"
      "lp_stop (get_linp m j) = places (pd_special p) (items_of p n) ! l + alignedlen (items_of p n ! l)"
      using stored[OF j(2) s(2)] by blast
    have "k < l \<or> l < k" using k(2) l(2) j(1) by (metis linorder_neqE_nat less_irrefl)
    then show "lp_stop (get_linp m i) \<le> ItemIdGetOffset (get_linp m j) \<or> lp_stop (get_linp m j) \<le> ItemIdGetOffset (get_linp m i)"
      using places_desc[of k l "items_of p n" "pd_special p"] places_desc[of l k "items_of p n" "pd_special p"] k l assms(4)
      by (auto simp: items_of_def)
  qed
  ultimately show ?thesis by (auto intro!: layoutI)
qed

lemma packed_line:
  assumes "page_wf p" "packed (items_of p n) p m" "n = PageGetMaxOffsetNumber p" "total_len (items_of p n) \<le> pd_special p" "i < n"
  shows "line_of m (get_linp m i) = line_of p (get_linp p i)"
proof (cases "ItemIdHasStorage (get_linp p i)")
  case True
  have hdr: "pd_special p \<le> 8192" using assms(1) by (simp add: page_wf_simps)
  obtain k where k: "k < length (stored p n)" "stored p n ! k = i" "ItemIdGetOffset (get_linp m i) = places (pd_special p) (items_of p n) ! k"
    using packed_stored[OF assms(2,5) True assms(4) hdr] by blast
  have "items_of p n ! k = item_of p i" "k < length (items_of p n)" using k by (simp_all add: items_of_def)
  then have "m (ItemIdGetOffset (get_linp m i) + d) = p (ItemIdGetOffset (get_linp p i) + d)" if "d < MAXALIGN (ItemIdGetLength (get_linp p i))" for d
    using assms(2) k(3) that by (auto simp: packed_def)
  then show ?thesis
    using True packed_kept(1,2)[OF assms(2,5) eq_refl[OF assms(3)] assms(4) hdr] by (intro line_of_moved) auto
next
  case False
  then show ?thesis using packed_bare[OF assms(2,5) eq_refl[OF assms(3)]] by (simp add: line_of_def)
qed

lemma compactify_page:
  assumes wf: "page_wf p" and its: "its = items_of p (PageGetMaxOffsetNumber p)" "its \<noteq> []"
    and sorted: "presorted \<Longrightarrow> sorted_wrt (\<lambda>a b. itemoff a > itemoff b) its"
  shows "\<exists>p'. compactify_tuples s its p presorted = Some p' \<and> page_wf p' \<and> lines p' = lines p \<and>
    pd_lower p' = pd_lower p \<and> pd_special p' = pd_special p \<and> pd_flags p' = pd_flags p \<and>
    pd_upper p' = pd_special p - total_len its \<and> (\<forall>x \<ge> pd_special p. p' x = p x)"
proof -
  let ?n = "PageGetMaxOffsetNumber p" and ?s = "pd_special p"
  have hdr: "24 \<le> pd_lower p" "pd_lower p \<le> pd_upper p" "pd_upper p \<le> ?s" "?s \<le> 8192" "?s mod 8 = 0"
    using wf by (simp_all add: page_wf_simps)
  have ok: "items_ok (pd_upper p) ?s its" using items_of_ok[OF wf] its(1) by simp
  have tot: "total_len its \<le> ?s - pd_upper p" by (rule items_total[OF ok])
  have lps: "\<forall>it \<in> set its. linp_addr (offsetindex it) + 4 \<le> pd_lower p \<and> lp_off (get_linp p (offsetindex it)) = of_nat (itemoff it)"
    using linp_below_lower[of _ p] by (auto simp: its(1) items_of_def ItemIdGetOffset_def)
  have "distinct (map offsetindex its)" by (simp add: its(1) items_of_def comp_def)
  from compactify_spec[OF ok its(2) hdr(1-4) lps this sorted] obtain m where
    m: "compactify_tuples s its p presorted = Some (set_upper m (?s - total_len its))" "packed its p m" by blast
  note packed = m(2)[unfolded its(1)]
  have tot': "total_len (items_of p ?n) \<le> ?s" using tot its(1) by simp
  define p' where "p' = set_upper m (?s - total_len its)"
  have f: "pd_lower p' = pd_lower p" "pd_special p' = ?s" "pd_flags p' = pd_flags p" "pd_upper p' = ?s - total_len its"
    using packed_header[OF m(2)] hdr(4) by (simp_all add: p'_def)
  have n: "PageGetMaxOffsetNumber p' = ?n" using f(1) by (rule max_offset_cong)
  have lp: "linps p' = map (get_linp m) [0 ..< ?n]" using n by (simp add: linps_def p'_def)
  have lay: "layout_ok (?s - total_len its) ?s (linps p')"
    using packed_layout[OF wf packed refl tot'] lp its(1) by simp
  have "8 dvd total_len its" using total_aligned[OF items_aligned] its(1) by (simp add: mod_eq_0_iff_dvd)
  then have "page_wf p'" using lay f hdr tot by (simp add: page_wf_simps mod_eq_0_iff_dvd)
  moreover have "line_of p' (get_linp m i) = line_of m (get_linp m i)" if "i < ?n" for i
  proof (rule line_of_cong)
    fix x assume "ItemIdHasStorage (get_linp m i)" "ItemIdGetOffset (get_linp m i) \<le> x"
    then show "p' x = m x" using lay that lp hdr(1-3) tot by (auto simp: p'_def layout_ok_def lp_ok_def)
  qed
  then have "lines p' = lines p" using packed_line[OF wf packed refl tot'] by (simp add: lines_def lp linps_def[of p])
  moreover have "\<forall>x \<ge> ?s. p' x = p x" using m(2) hdr by (simp add: p'_def packed_def)
  ultimately show ?thesis using m(1) f p'_def by blast
qed

end
