(* ===== verification/PageRepair.thy ===== *)
theory PageRepair
  imports PageCompact
begin

text \<open>
  \<open>PageRepairFragmentation\<close> and \<open>PageTruncateLinePointerArray\<close>: the lines of the page stay, but for
  unused ones at the end, and all free space of the page is in one piece afterwards.
\<close>

section \<open>The scan of the line pointers\<close>

text \<open>
  What the scan over the first \<open>n\<close> line pointers of a well-formed page has collected.
\<close>

definition scan_items :: "bytes \<Rightarrow> nat \<Rightarrow> repair_scan \<Rightarrow> bool" where
  "scan_items p n s \<longleftrightarrow> rs_items s = items_of p n \<and> rs_totallen s = total_len (items_of p n) \<and>
     (rs_presorted s \<longrightarrow> sorted_wrt (\<lambda>a b. itemoff a > itemoff b) (items_of p n)) \<and>
     (\<forall>it \<in> set (items_of p n). rs_last_offset s \<le> itemoff it)"

definition scan_used :: "bytes \<Rightarrow> nat \<Rightarrow> repair_scan \<Rightarrow> bool" where
  "scan_used p n s \<longleftrightarrow> rs_nunused s = length (filter (\<lambda>i. \<not> ItemIdIsUsed (get_linp p i)) [0 ..< n]) \<and>
     rs_finalusedlp s \<le> n \<and> (\<forall>i < n. rs_finalusedlp s \<le> i \<longrightarrow> \<not> ItemIdIsUsed (get_linp p i)) \<and>
     (rs_finalusedlp s = 0 \<or> ItemIdIsUsed (get_linp p (rs_finalusedlp s - 1)))"

definition scan_page :: "bytes \<Rightarrow> nat \<Rightarrow> repair_scan \<Rightarrow> bool" where
  "scan_page p n s \<longleftrightarrow>
     (\<forall>i. get_linp (rs_page s) i = (if i < n \<and> \<not> ItemIdIsUsed (get_linp p i) then ItemIdSetUnused (get_linp p i) else get_linp p i)) \<and>
     (\<forall>x. x < 24 \<or> pd_lower p \<le> x \<longrightarrow> rs_page s x = p x)"

definition scanned :: "bytes \<Rightarrow> nat \<Rightarrow> repair_scan \<Rightarrow> bool" where
  "scanned p n s \<longleftrightarrow> scan_items p n s \<and> scan_used p n s \<and> scan_page p n s"

lemma items_of_Suc: "items_of p (Suc n) = items_of p n @ (if ItemIdHasStorage (get_linp p n) then [item_of p n] else [])"
  by (simp add: items_of_def stored_def)

lemma scan_used_Suc:
  assumes "scan_used p n s"
  shows "ItemIdIsUsed (get_linp p n) \<Longrightarrow> rs_nunused s' = rs_nunused s \<Longrightarrow> rs_finalusedlp s' = Suc n \<Longrightarrow> scan_used p (Suc n) s'"
    and "\<not> ItemIdIsUsed (get_linp p n) \<Longrightarrow> rs_nunused s' = rs_nunused s + 1 \<Longrightarrow> rs_finalusedlp s' = rs_finalusedlp s \<Longrightarrow> scan_used p (Suc n) s'"
  using assms by (auto simp: scan_used_def less_Suc_eq)

lemma scan_items_Suc:
  assumes "scan_items p n s" "ItemIdHasStorage (get_linp p n)"
    and "rs_items s' = rs_items s @ [item_of p n]" "rs_totallen s' = rs_totallen s + alignedlen (item_of p n)"
    and "rs_last_offset s' = min (rs_last_offset s) (itemoff (item_of p n))"
    "rs_presorted s' = (itemoff (item_of p n) < rs_last_offset s \<and> rs_presorted s)"
  shows "scan_items p (Suc n) s'"
proof -
  have "sorted_wrt (\<lambda>a b. itemoff a > itemoff b) (items_of p n @ [item_of p n])" if "rs_presorted s'"
    using that assms(1,6) by (fastforce simp: scan_items_def sorted_wrt_append)
  moreover have "rs_last_offset s' \<le> itemoff it" if "it \<in> set (items_of p n @ [item_of p n])" for it
    using that assms(1,5) by (auto simp: scan_items_def min_le_iff_disj)
  ultimately show ?thesis using assms by (simp add: scan_items_def items_of_Suc)
qed

lemma scan_page_Suc:
  assumes "scan_page p n s" "n < PageGetMaxOffsetNumber p"
  shows "ItemIdIsUsed (get_linp p n) \<Longrightarrow> rs_page s' = rs_page s \<Longrightarrow> scan_page p (Suc n) s'"
    and "\<not> ItemIdIsUsed (get_linp p n) \<Longrightarrow> rs_page s' = put_linp (rs_page s) n (ItemIdSetUnused (get_linp p n)) \<Longrightarrow> scan_page p (Suc n) s'"
  using assms(1) put_linp_above[OF linp_below_lower[OF assms(2)]] put_linp_below
  by (auto simp: scan_page_def less_Suc_eq)

lemma repair_step_scanned:
  assumes wf: "page_wf p" and n: "n < PageGetMaxOffsetNumber p" and s: "scanned p n s"
    and few: "length (items_of p (Suc n)) \<le> 291"
  shows "\<exists>s'. repair_step (pd_upper p) (pd_special p) (Suc n) s = Inr s' \<and> scanned p (Suc n) s'"
proof -
  have sc: "scan_items p n s" "scan_used p n s" "scan_page p n s" using s by (simp_all add: scanned_def)
  have lp: "get_linp (rs_page s) n = get_linp p n" using sc(3) by (simp add: scan_page_def)
  have bare: "scan_items p (Suc n) s'" if "\<not> ItemIdHasStorage (get_linp p n)" "rs_items s' = rs_items s" "rs_totallen s' = rs_totallen s"
    "rs_last_offset s' = rs_last_offset s" "rs_presorted s' = rs_presorted s" for s'
    using sc(1) that by (simp add: scan_items_def items_of_Suc)
  consider "\<not> ItemIdIsUsed (get_linp p n)" "\<not> ItemIdHasStorage (get_linp p n)"
    | "ItemIdIsUsed (get_linp p n)" "\<not> ItemIdHasStorage (get_linp p n)"
    | "ItemIdIsUsed (get_linp p n)" "ItemIdHasStorage (get_linp p n)"
    using page_wf_nth[OF wf n] by (auto simp: lp_ok_def)
  then show ?thesis
  proof cases
    case 1
    then show ?thesis using bare scan_used_Suc(2)[OF sc(2)] scan_page_Suc(2)[OF sc(3) n] lp by (simp add: repair_step_def scanned_def)
  next
    case 2
    then show ?thesis using bare scan_used_Suc(1)[OF sc(2)] scan_page_Suc(1)[OF sc(3) n] lp by (simp add: repair_step_def scanned_def)
  next
    case 3
    have "pd_upper p \<le> ItemIdGetOffset (get_linp p n)" "ItemIdGetOffset (get_linp p n) < pd_special p" "length (rs_items s) < 291"
      using page_wf_nth[OF wf n] 3(2) storage_pos(2)[OF 3(2)] few sc(1) by (auto simp: lp_ok_def items_of_Suc scan_items_def)
    then show ?thesis
      using 3 lp scan_used_Suc(1)[OF sc(2)] scan_page_Suc(1)[OF sc(3) n]
      by (auto simp: repair_step_def item_of_def[symmetric] scanned_def Let_def intro!: scan_items_Suc[OF sc(1)])
  qed
qed

lemma repair_loop_scanned:
  assumes "page_wf p" "length (items_of p (PageGetMaxOffsetNumber p)) \<le> 291" "n \<le> PageGetMaxOffsetNumber p" "scanned p n s"
  shows "\<exists>s'. repair_loop (pd_upper p) (pd_special p) [Suc n ..< Suc (PageGetMaxOffsetNumber p)] s = Inr s' \<and> scanned p (PageGetMaxOffsetNumber p) s'"
  using assms(3,4)
proof (induction "PageGetMaxOffsetNumber p - n" arbitrary: n s)
  case (Suc k)
  then have n: "n < PageGetMaxOffsetNumber p" by simp
  have mono: "length (items_of p (Suc n)) \<le> length (items_of p (Suc n + d))" for d
    by (induction d) (auto simp: items_of_Suc)
  have "length (items_of p (Suc n)) \<le> 291"
    using assms(2) mono[of "PageGetMaxOffsetNumber p - Suc n"] n by simp
  then obtain s1 where s1: "repair_step (pd_upper p) (pd_special p) (Suc n) s = Inr s1" "scanned p (Suc n) s1"
    using repair_step_scanned[OF assms(1) n Suc.prems(2)] by blast
  have "[Suc n ..< Suc (PageGetMaxOffsetNumber p)] = Suc n # [Suc (Suc n) ..< Suc (PageGetMaxOffsetNumber p)]"
    using n by (simp add: upt_conv_Cons)
  then show ?case using Suc.hyps(1)[of "Suc n" s1] Suc.hyps(2) n s1 by simp
qed simp

lemma set_unused_simps [simp]: "\<not> ItemIdHasStorage (ItemIdSetUnused lp)" "\<not> ItemIdIsUsed (ItemIdSetUnused lp)"
  by (simp_all add: ItemIdSetUnused_def ItemIdHasStorage_def ItemIdIsUsed_def)

lemma same_header:
  assumes "\<forall>x < 24. q x = p x"
  shows "pd_lower q = pd_lower p" "pd_upper q = pd_upper p" "pd_special q = pd_special p" "pd_flags q = pd_flags p"
  using assms by (auto intro!: flower.get_local fupper.get_local fspecial.get_local fflags.get_local)

lemma scan_page_wf:
  assumes "page_wf p" "scan_page p (PageGetMaxOffsetNumber p) s"
  shows "page_wf (rs_page s)" "lines (rs_page s) = lines p" "items_of (rs_page s) (PageGetMaxOffsetNumber p) = items_of p (PageGetMaxOffsetNumber p)"
    "\<forall>x < 24. rs_page s x = p x" "\<forall>x \<ge> pd_special p. rs_page s x = p x"
proof -
  let ?q = "rs_page s" and ?n = "PageGetMaxOffsetNumber p"
  have hdr: "24 \<le> pd_lower p" "pd_lower p \<le> pd_upper p" "pd_upper p \<le> pd_special p" using assms(1) by (simp_all add: page_wf_simps)
  show x: "\<forall>x < 24. ?q x = p x" "\<forall>x \<ge> pd_special p. ?q x = p x" using assms(2) hdr by (auto simp: scan_page_def)
  note h = same_header[OF x(1)]
  have n: "PageGetMaxOffsetNumber ?q = ?n" using h(1) by (rule max_offset_cong)
  have lp: "get_linp ?q i = get_linp p i \<or> \<not> ItemIdIsUsed (get_linp p i) \<and> get_linp ?q i = ItemIdSetUnused (get_linp p i)" if "i < ?n" for i
    using assms(2) that by (auto simp: scan_page_def)
  have ns: "\<not> ItemIdIsUsed (get_linp p i) \<Longrightarrow> \<not> ItemIdHasStorage (get_linp p i)" if "i < ?n" for i
    using page_wf_nth[OF assms(1) that] by (auto simp: lp_ok_def)
  have st: "ItemIdHasStorage (get_linp ?q i) = ItemIdHasStorage (get_linp p i)" if "i < ?n" for i
    using lp[OF that] ns[OF that] by auto
  have "layout_ok (pd_upper p) (pd_special p) (linps ?q)"
  proof (rule layoutI)
    fix i assume "i < length (linps ?q)"
    then show "lp_ok (pd_upper p) (pd_special p) (linps ?q ! i)"
      using lp[of i] page_wf_nth[OF assms(1), of i] n by (auto simp: lp_ok_def)
  next
    fix i j assume "i < j" "j < length (linps ?q)"
    then show "apart (linps ?q ! i) (linps ?q ! j)"
      using lp[of i] lp[of j] page_wf_apart[OF assms(1), of i j] n by (auto simp: apart_def)
  qed
  then show "page_wf ?q" using assms(1) h by (simp add: page_wf_simps)
  have "line_of ?q (get_linp ?q i) = line_of p (get_linp p i)" if i: "i < ?n" for i
  proof (cases "ItemIdIsUsed (get_linp p i)")
    case True
    then have "line_of ?q (get_linp p i) = line_of p (get_linp p i)"
      using page_wf_nth[OF assms(1) i] hdr assms(2) by (intro line_of_cong) (auto simp: lp_ok_def scan_page_def)
    then show ?thesis using lp[OF i] True by auto
  next
    case False
    then show ?thesis using lp[OF i] by (auto simp: line_of_def)
  qed
  then show "lines ?q = lines p" using n by (simp add: lines_def linps_def)
  have "item_of ?q i = item_of p i" if "i \<in> set (stored p ?n)" for i
    using that lp[of i] ns[of i] by (auto simp: item_of_def)
  moreover have "stored ?q ?n = stored p ?n" using st by (auto simp: stored_def intro!: filter_cong)
  ultimately show "items_of ?q ?n = items_of p ?n" by (simp add: items_of_def)
qed

section \<open>The whole operation\<close>

definition strip_unused :: "line list \<Rightarrow> line list" where
  "strip_unused ls = rev (dropWhile (\<lambda>l. l = Unused) (rev ls))"

fun line_size :: "line \<Rightarrow> nat" where
  "line_size (Tuple flags bs) = MAXALIGN (length bs)"
| "line_size _ = 0"

lemma strip_unused_take:
  assumes "n \<le> length ls" "\<forall>i < length ls. n \<le> i \<longrightarrow> ls ! i = Unused" "n = 0 \<or> ls ! (n - 1) \<noteq> Unused"
  shows "strip_unused ls = take n ls"
proof -
  have "\<forall>l \<in> set (rev (drop n ls)). l = Unused" using assms(2) by (auto simp: in_set_conv_nth)
  then have "dropWhile (\<lambda>l. l = Unused) (rev (drop n ls) @ rev (take n ls)) = dropWhile (\<lambda>l. l = Unused) (rev (take n ls))"
    by (simp add: dropWhile_append)
  moreover have "rev ls = rev (drop n ls) @ rev (take n ls)" by (metis append_take_drop_id rev_append)
  moreover have "dropWhile (\<lambda>l. l = Unused) (rev (take n ls)) = rev (take n ls)"
  proof (cases "n = 0")
    case False
    then have "rev (take n ls) = ls ! (n - 1) # rev (take (n - 1) ls)"
      using assms(1) take_Suc_conv_app_nth[of "n - 1" ls] by simp
    then show ?thesis using False assms(3) by simp
  qed simp
  ultimately show ?thesis by (simp add: strip_unused_def)
qed

lemma total_lines:
  assumes "page_wf p"
  shows "total_len (items_of p (PageGetMaxOffsetNumber p)) = sum_list (map line_size (lines p))"
proof -
  have "total_len (items_of p n) = sum_list (map line_size (map (\<lambda>i. line_of p (get_linp p i)) [0 ..< n]))" if "n \<le> PageGetMaxOffsetNumber p" for n
    using that
  proof (induction n)
    case (Suc n)
    have "line_size (line_of p (get_linp p n)) = (if ItemIdHasStorage (get_linp p n) then alignedlen (item_of p n) else 0)"
      using page_wf_nth[OF assms, of n] Suc.prems by (auto simp: line_of_def lp_ok_def load_bytes_def)
    then show ?case using Suc by (simp add: items_of_Suc)
  qed (simp add: items_of_def stored_def)
  from this[OF le_refl] show ?thesis by (simp add: lines_def linps_def comp_def)
qed

lemma cut_lines:
  assumes "page_wf p" "n \<le> PageGetMaxOffsetNumber p" "q = set_lower p (pd_lower p - 4 * (PageGetMaxOffsetNumber p - n))"
  shows "page_wf q" "lines q = take n (lines p)" "PageGetMaxOffsetNumber q = n" "linps q = take n (linps p)"
proof -
  let ?N = "PageGetMaxOffsetNumber p"
  have l: "24 \<le> pd_lower p" "pd_lower p \<le> 8192" using assms(1) by (simp_all add: page_wf_simps)
  have lo: "pd_lower q = pd_lower p - 4 * (?N - n)" using l assms(3) by simp
  have N: "24 + 4 * ?N \<le> pd_lower p" using l linp_end[of p ?N] by (simp add: linp_addr_eq)
  have "pd_lower p - 24 = 4 * ?N + (pd_lower p - 24) mod 4" by (simp add: max_offset_eq)
  then have "pd_lower q - 24 = 4 * n + (pd_lower p - 24) mod 4" using lo N assms(2) by linarith
  then show n: "PageGetMaxOffsetNumber q = n" by (simp add: max_offset_eq[of q])
  show lps: "linps q = take n (linps p)"
    using n assms(2,3) by (simp add: linps_def take_map min_def)
  have "layout_ok (pd_upper p) (pd_special p) (take n (linps p))"
    using assms(1) by (auto simp: page_wf_simps layout_ok_def sorted_wrt_take dest: in_set_takeD)
  moreover have "24 \<le> pd_lower q" using lo N by linarith
  moreover have "pd_lower q \<le> pd_lower p" using lo by simp
  moreover have "pd_upper q = pd_upper p" "pd_special q = pd_special p" using assms(3) by simp_all
  ultimately show "page_wf q" using assms(1) lps by (simp add: page_wf_simps)
  have "line_of q lp = line_of p lp" if "lp \<in> set (linps p)" for lp
    using that assms(1,3) by (intro line_of_cong) (auto simp: page_wf_simps layout_ok_def lp_ok_def)
  then show "lines q = take n (lines p)" by (auto simp: lines_def lps take_map dest: in_set_takeD)
qed

lemma no_items_page:
  assumes "page_wf q" "items_of q (PageGetMaxOffsetNumber q) = []"
  shows "page_wf (set_upper q (pd_special q))" "lines (set_upper q (pd_special q)) = lines q"
proof -
  let ?r = "set_upper q (pd_special q)"
  have h: "pd_special q \<le> 8192" "pd_upper q \<le> pd_special q" "pd_lower q \<le> pd_upper q" using assms(1) by (simp_all add: page_wf_simps)
  have lps: "linps ?r = linps q" by (rule linps_cong) simp_all
  have ns: "\<not> ItemIdHasStorage lp" if "lp \<in> set (linps q)" for lp
    using that assms(2) by (auto simp: linps_def items_of_def stored_def filter_empty_conv)
  then have "layout_ok (pd_special q) (pd_special q) (linps q)"
    using assms(1) by (simp add: layout_ok_def lp_ok_def page_wf_simps)
  then show "page_wf ?r" using assms(1) h lps by (auto simp: page_wf_simps)
  have "line_of ?r lp = line_of q lp" if "lp \<in> set (linps q)" for lp using ns[OF that] by (simp add: line_of_def)
  then show "lines ?r = lines q" by (simp add: lines_def lps)
qed

text \<open>The items together at the end of the page, in either way.\<close>

lemma repair_moves:
  assumes wf: "page_wf p" and s: "scanned p (PageGetMaxOffsetNumber p) s"
  defines "its \<equiv> items_of p (PageGetMaxOffsetNumber p)"
  shows "\<exists>p'. (if rs_items s = [] then Inr (set_upper (rs_page s) (pd_special p))
      else if rs_totallen s > pd_special p - pd_lower p then Inl CorruptedItemLengths
      else case compactify_tuples scratch (rs_items s) (rs_page s) (rs_presorted s) of None \<Rightarrow> Inl Overrun | Some page \<Rightarrow> Inr page) = Inr p' \<and>
    page_wf p' \<and> lines p' = lines p \<and> pd_lower p' = pd_lower p \<and> pd_special p' = pd_special p \<and>
    pd_upper p' = pd_special p - total_len its \<and> (\<forall>x \<ge> pd_special p. p' x = p x)"
proof -
  let ?q = "rs_page s" and ?n = "PageGetMaxOffsetNumber p"
  have si: "rs_items s = its" "rs_totallen s = total_len its" "rs_presorted s \<Longrightarrow> sorted_wrt (\<lambda>a b. itemoff a > itemoff b) its"
    using s by (simp_all add: scanned_def scan_items_def its_def)
  have sp: "scan_page p ?n s" using s by (simp add: scanned_def)
  note q = scan_page_wf[OF wf sp] note h = same_header[OF q(4)]
  have n: "PageGetMaxOffsetNumber ?q = ?n" using h(1) by (rule max_offset_cong)
  have hdr: "pd_special p \<le> 8192" "24 \<le> pd_special p" using wf by (auto simp: page_wf_simps)
  show ?thesis
  proof (cases "its = []")
    case True
    then show ?thesis using no_items_page[of ?q] q h n si hdr by (auto simp: its_def)
  next
    case False
    have its: "its = items_of ?q (PageGetMaxOffsetNumber ?q)" using q(3) n by (simp add: its_def)
    have "total_len its \<le> pd_special p - pd_upper p" using items_total[OF items_of_ok[OF wf le_refl]] by (simp add: its_def)
    then have "\<not> rs_totallen s > pd_special p - pd_lower p" using si(2) wf by (auto simp: page_wf_simps)
    moreover obtain p' where "compactify_tuples scratch its ?q (rs_presorted s) = Some p'" "page_wf p'" "lines p' = lines ?q"
      "pd_lower p' = pd_lower ?q" "pd_special p' = pd_special ?q" "pd_upper p' = pd_special ?q - total_len its" "\<forall>x \<ge> pd_special ?q. p' x = ?q x"
      using compactify_page[OF q(1) its False si(3)] by blast
    ultimately show ?thesis using q h False si(1) by auto
  qed
qed

lemma count_unused:
  assumes "scan_used p n s" "n = PageGetMaxOffsetNumber p"
  shows "rs_nunused s - (n - rs_finalusedlp s) > 0 \<longleftrightarrow> Unused \<in> set (take (rs_finalusedlp s) (lines p))"
    "rs_finalusedlp s = n \<Longrightarrow> rs_nunused s > 0 \<longleftrightarrow> Unused \<in> set (lines p)"
proof -
  let ?f = "rs_finalusedlp s" and ?P = "\<lambda>i. \<not> ItemIdIsUsed (get_linp p i)"
  have f: "?f \<le> n" "\<forall>i < n. ?f \<le> i \<longrightarrow> ?P i" using assms(1) by (simp_all add: scan_used_def)
  have ls: "lines p ! i = Unused \<longleftrightarrow> ?P i" if "i < n" for i using that assms(2) by (simp add: lines_def line_of_def)
  have "[0 ..< n] = [0 ..< ?f] @ [?f ..< n]" using f(1) by (metis le_add_diff_inverse upt_add_eq_append zero_le)
  moreover have "filter ?P [?f ..< n] = [?f ..< n]" using f(2) by (simp add: filter_id_conv)
  ultimately have "rs_nunused s = length (filter ?P [0 ..< ?f]) + (n - ?f)"
    using assms(1) by (simp add: scan_used_def)
  then have "rs_nunused s - (n - ?f) > 0 \<longleftrightarrow> (\<exists>i < ?f. ?P i)" by (auto simp: filter_empty_conv)
  also have "\<dots> \<longleftrightarrow> Unused \<in> set (take ?f (lines p))"
    using f(1) ls assms(2) by (auto simp: in_set_conv_nth)
  finally show *: "rs_nunused s - (n - ?f) > 0 \<longleftrightarrow> Unused \<in> set (take ?f (lines p))" .
  then show "?f = n \<Longrightarrow> rs_nunused s > 0 \<longleftrightarrow> Unused \<in> set (lines p)" using assms(2) by simp
qed

lemma hint_only:
  assumes "page_wf r" "q = PageSetHasFreeLinePointers r \<or> q = PageClearHasFreeLinePointers r"
  shows "page_wf q" "lines q = lines r" "pd_upper q = pd_upper r" "pd_special q = pd_special r" "pd_lower q = pd_lower r" "24 \<le> x \<Longrightarrow> q x = r x"
proof -
  show f: "pd_upper q = pd_upper r" "pd_special q = pd_special r" "pd_lower q = pd_lower r" "24 \<le> x \<Longrightarrow> q x = r x" for x using assms(2) by auto
  have l: "linps q = linps r" using assms(2) by (auto intro: linps_cong)
  show "page_wf q" using assms(1) by (simp add: page_wf_def f l)
  have "line_of q lp = line_of r lp" if "lp \<in> set (linps r)" for lp
    using that assms(1) f(4) by (intro line_of_cong) (auto simp: page_wf_simps layout_ok_def lp_ok_def)
  then show "lines q = lines r" by (simp add: lines_def l)
qed

lemma repair_spec:
  assumes wf: "page_wf p" and few: "PageGetMaxOffsetNumber p \<le> 291"
  shows "\<exists>p'. PageRepairFragmentation scratch p = Inr p' \<and> page_wf p' \<and> lines p' = strip_unused (lines p) \<and>
    pd_special p' = pd_special p \<and> pd_upper p' = pd_special p - sum_list (map line_size (lines p)) \<and> pd_lower p' \<le> pd_lower p \<and>
    (PageHasFreeLinePointers p' \<longleftrightarrow> Unused \<in> set (lines p')) \<and> (\<forall>x \<ge> pd_special p. p' x = p x)"
proof -
  let ?n = "PageGetMaxOffsetNumber p"
  define s0 where "s0 = \<lparr>rs_page = p, rs_items = [], rs_last_offset = pd_special p, rs_presorted = True,
    rs_totallen = 0, rs_nunused = 0, rs_finalusedlp = 0\<rparr>"
  have "scanned p 0 s0"
    by (simp add: scanned_def scan_items_def scan_used_def scan_page_def items_of_def stored_def s0_def)
  moreover have "length (items_of p ?n) \<le> 291"
    using few length_filter_le[of "\<lambda>i. ItemIdHasStorage (get_linp p i)" "[0 ..< ?n]"] by (simp add: items_of_def stored_def)
  ultimately obtain s where s: "repair_loop (pd_upper p) (pd_special p) [1 ..< ?n + 1] s0 = Inr s" "scanned p ?n s"
    using repair_loop_scanned[OF wf] by fastforce
  obtain r where r: "page_wf r" "lines r = lines p" "pd_lower r = pd_lower p" "pd_special r = pd_special p"
    "pd_upper r = pd_special p - total_len (items_of p ?n)" "\<forall>x \<ge> pd_special p. r x = p x"
    and mv: "(if rs_items s = [] then Inr (set_upper (rs_page s) (pd_special p))
      else if rs_totallen s > pd_special p - pd_lower p then Inl CorruptedItemLengths
      else case compactify_tuples scratch (rs_items s) (rs_page s) (rs_presorted s) of None \<Rightarrow> Inl Overrun | Some page \<Rightarrow> Inr page) = Inr r"
    using repair_moves[OF wf s(2), of scratch] by blast
  have n: "PageGetMaxOffsetNumber r = ?n" using r(3) by (rule max_offset_cong)
  have used: "scan_used p ?n s" using s(2) by (simp add: scanned_def)
  let ?f = "rs_finalusedlp s"
  define q where "q = (if ?f \<noteq> ?n then set_lower r (pd_lower r - 4 * (?n - ?f)) else r)"
  have q: "page_wf q" "lines q = take ?f (lines p)"
  proof -
    have f: "?f \<le> PageGetMaxOffsetNumber r" using used n by (simp add: scan_used_def)
    show "page_wf q" "lines q = take ?f (lines p)"
      using cut_lines[OF r(1) f refl] r(1,2) n by (cases "?f = ?n"; simp add: q_def)+
  qed
  have strip: "strip_unused (lines p) = take ?f (lines p)"
    using used unused_line[OF wf] by (intro strip_unused_take) (auto simp: scan_used_def)
  define nu where "nu = (if ?f \<noteq> ?n then rs_nunused s - (?n - ?f) else rs_nunused s)"
  have nu: "nu > 0 \<longleftrightarrow> Unused \<in> set (lines q)" using count_unused[OF used refl] q(2) by (auto simp: nu_def)
  define p' where "p' = (if nu > 0 then PageSetHasFreeLinePointers q else PageClearHasFreeLinePointers q)"
  have "PageRepairFragmentation scratch p = Inr p'"
    using page_wf_pointers[OF wf] s(1) mv by (simp add: PageRepairFragmentation_def s0_def p'_def nu_def q_def Let_def)
  moreover have "p' = PageSetHasFreeLinePointers q \<or> p' = PageClearHasFreeLinePointers q" by (simp add: p'_def)
  note hint_only[OF q(1) this]
  moreover have "PageHasFreeLinePointers p' \<longleftrightarrow> Unused \<in> set (lines q)" using nu by (simp add: p'_def)
  moreover have "pd_lower p < 65536" using wf by (simp add: page_wf_simps)
  then have "pd_special q = pd_special p" "pd_upper q = pd_upper r" "\<forall>x \<ge> pd_special p. q x = p x" "24 \<le> pd_special p" "pd_lower q \<le> pd_lower p"
    using r(3,4,6) wf by (auto simp: q_def page_wf_simps)
  ultimately show ?thesis using q(2) strip r(5) total_lines[OF wf] by auto
qed

section \<open>Truncating the line pointer array\<close>

lemma truncate_done: "truncate_scan p n True k = (k, \<exists>i < n. \<not> ItemIdIsUsed (get_linp p i))"
  by (induction n) (auto simp: less_Suc_eq)

lemma truncate_count:
  "\<exists>m \<le> n. truncate_scan p n False k = (k + (n - m), \<exists>i < m. \<not> ItemIdIsUsed (get_linp p i)) \<and>
    (\<forall>i. m \<le> i \<and> i < n \<longrightarrow> \<not> ItemIdIsUsed (get_linp p i)) \<and> (m = min 1 n \<or> 0 < m \<and> ItemIdIsUsed (get_linp p (m - 1)))"
proof (induction n arbitrary: k)
  case (Suc n)
  show ?case
  proof (cases "n = 0 \<or> ItemIdIsUsed (get_linp p n)")
    case True
    then show ?thesis
      by (intro exI[of _ "Suc n"], cases n) (auto simp: truncate_done FirstOffsetNumber_def less_Suc_eq Let_def intro: gr0I)
  next
    case False
    obtain m where "m \<le> n" "truncate_scan p n False (k + 1) = (k + 1 + (n - m), \<exists>i < m. \<not> ItemIdIsUsed (get_linp p i))"
      "\<forall>i. m \<le> i \<and> i < n \<longrightarrow> \<not> ItemIdIsUsed (get_linp p i)" "m = min 1 n \<or> 0 < m \<and> ItemIdIsUsed (get_linp p (m - 1))"
      using Suc.IH[of "k + 1"] by blast
    then show ?thesis using False by (intro exI[of _ m]) (auto simp: FirstOffsetNumber_def less_Suc_eq Let_def Suc_diff_le)
  qed
qed simp

lemma truncate_spec:
  assumes wf: "page_wf p" and q: "q = PageTruncateLinePointerArray p"
  shows "page_wf q" "lines q = take (max 1 (length (strip_unused (lines p)))) (lines p)"
    "PageHasFreeLinePointers q \<longleftrightarrow> Unused \<in> set (lines q)" "pd_upper q = pd_upper p" "pd_special q = pd_special p"
    "\<forall>x \<ge> pd_upper p. q x = p x"
proof -
  let ?n = "PageGetMaxOffsetNumber p" and ?ls = "lines p"
  have ln: "length ?ls = ?n" by (simp add: lines_def)
  have un: "?ls ! i = Unused \<longleftrightarrow> \<not> ItemIdIsUsed (get_linp p i)" if "i < ?n" for i using that by (simp add: lines_def line_of_def)
  obtain m where m: "m \<le> ?n" "truncate_scan p ?n False 0 = (?n - m, \<exists>i < m. \<not> ItemIdIsUsed (get_linp p i))"
    "\<forall>i. m \<le> i \<and> i < ?n \<longrightarrow> \<not> ItemIdIsUsed (get_linp p i)" "m = min 1 ?n \<or> 0 < m \<and> ItemIdIsUsed (get_linp p (m - 1))"
    using truncate_count[of ?n p 0] by auto
  have tk: "take (max 1 (length (strip_unused ?ls))) ?ls = take m ?ls"
  proof (cases "0 < m \<and> ItemIdIsUsed (get_linp p (m - 1))")
    case True
    then have "strip_unused ?ls = take m ?ls" using m(1,3) un ln by (intro strip_unused_take) auto
    then show ?thesis using True m(1) ln by simp
  next
    case False
    have "\<not> ItemIdIsUsed (get_linp p i)" if "i < ?n" for i
      using that False m(3,4) by (cases i) (auto simp: min_def)
    then have "strip_unused ?ls = take 0 ?ls" using un ln by (intro strip_unused_take) auto
    moreover have "m = min 1 ?n" using False m(4) by blast
    ultimately show ?thesis using ln by (cases ?ls) auto
  qed
  define r where "r = (if ?n - m > 0 then set_lower p (pd_lower p - 4 * (?n - m)) else p)"
  have r: "page_wf r" "lines r = take m ?ls" "pd_upper r = pd_upper p" "pd_special r = pd_special p" "24 \<le> x \<Longrightarrow> r x = p x" for x
    using cut_lines(1,2)[OF wf m(1) refl] wf m(1) ln by (auto simp: r_def)
  have q': "q = (if \<exists>i < m. \<not> ItemIdIsUsed (get_linp p i) then PageSetHasFreeLinePointers r else PageClearHasFreeLinePointers r)"
    by (auto simp: q PageTruncateLinePointerArray_def m(2) r_def sizeof_ItemIdData_def Let_def)
  then have "q = PageSetHasFreeLinePointers r \<or> q = PageClearHasFreeLinePointers r" by auto
  note hq = hint_only[OF r(1) this]
  show "page_wf q" "pd_upper q = pd_upper p" "pd_special q = pd_special p" using hq r by simp_all
  show lq: "lines q = take (max 1 (length (strip_unused ?ls))) ?ls" using hq(2) r(2) tk by simp
  have "Unused \<in> set (take m ?ls) \<longleftrightarrow> (\<exists>i < m. \<not> ItemIdIsUsed (get_linp p i))"
    using m(1) ln un by (auto simp: in_set_conv_nth)
  then show "PageHasFreeLinePointers q \<longleftrightarrow> Unused \<in> set (lines q)" using q' lq tk by simp
  show "\<forall>x \<ge> pd_upper p. q x = p x" using hq(6) r(5) wf by (simp add: page_wf_simps)
qed

end
