(* ===== verification/PageIndex.thy ===== *)
theory PageIndex
  imports PageRepair
begin

text \<open>
  The operations on index pages: deleting one tuple, several tuples, a tuple without closing its line,
  and overwriting a tuple in place.
\<close>

section \<open>Shifting line pointers\<close>

lemma shift_linps_spec:
  assumes "distinct is" "\<forall>i \<in> set is. 0 < i"
  shows "get_linp (shift_linps c off \<delta> is p) j =
      (let lp = get_linp p j in if Suc j \<in> set is \<and> (c \<longrightarrow> ItemIdHasStorage lp) \<and> ItemIdGetOffset lp \<le> off
       then lp\<lparr>lp_off := lp_off lp + of_int \<delta>\<rparr> else lp)"
    and "(\<forall>i \<in> set is. linp_addr (i - 1) + 4 \<le> x) \<or> x < 24 \<Longrightarrow> shift_linps c off \<delta> is p x = p x"
  using assms
proof (induction "is" arbitrary: p)
  case (Cons i "is")
  case 1
  then show ?case using Cons.IH(1) by (cases i) (auto simp: Let_def)
next
  case (Cons i "is")
  case 2
  then show ?case using Cons.IH(2) put_linp_above[of "i - 1" x x] put_linp_below[of x]
    by (auto simp: Let_def)
qed (auto simp: Let_def)

section \<open>Moving the tuples before a tuple\<close>

text \<open>A line pointer after the bytes before \<open>off\<close> have moved by \<open>\<delta>\<close>.\<close>

definition moved :: "nat \<Rightarrow> int \<Rightarrow> ItemIdData \<Rightarrow> ItemIdData" where
  "moved off \<delta> lp = (if ItemIdHasStorage lp \<and> ItemIdGetOffset lp \<le> off then lp\<lparr>lp_off := lp_off lp + of_int \<delta>\<rparr> else lp)"

lemma moved_simps [simp]:
  "lp_len (moved off \<delta> lp) = lp_len lp" "lp_flags (moved off \<delta> lp) = lp_flags lp" "ItemIdHasStorage (moved off \<delta> lp) = ItemIdHasStorage lp"
  "ItemIdIsUsed (moved off \<delta> lp) = ItemIdIsUsed lp" "ItemIdGetLength (moved off \<delta> lp) = ItemIdGetLength lp"
  "\<not> ItemIdHasStorage lp \<Longrightarrow> moved off \<delta> lp = lp"
  by (simp_all add: moved_def ItemIdHasStorage_def ItemIdIsUsed_def ItemIdGetLength_def)

lemma unat_15_add:
  assumes "0 \<le> int (unat (w :: 15 word)) + \<delta>" "int (unat w) + \<delta> < 32768"
  shows "int (unat (w + of_int \<delta>)) = int (unat w) + \<delta>"
proof -
  define n where "n = nat (int (unat w) + \<delta>)"
  have n: "int n = int (unat w) + \<delta>" "n < 32768" using assms by (simp_all add: n_def)
  have "(of_int (int n) :: 15 word) = of_int (int (unat w) + \<delta>)" by (simp only: n(1))
  then have "w + of_int \<delta> = of_nat n" by simp
  then show ?thesis using n by simp
qed

lemma moved_offset:
  assumes "ItemIdHasStorage lp" "0 \<le> int (ItemIdGetOffset lp) + \<delta>" "int (ItemIdGetOffset lp) + \<delta> < 32768"
  shows "int (ItemIdGetOffset (moved off \<delta> lp)) = int (ItemIdGetOffset lp) + (if ItemIdGetOffset lp \<le> off then \<delta> else 0)"
  using assms unat_15_add[of "lp_off lp" \<delta>] by (simp add: moved_def ItemIdGetOffset_def)

text \<open>
  The space of the tuple at \<open>off\<close> of old size \<open>len\<close> shrinks by \<open>\<delta>\<close>, or grows when \<open>\<delta>\<close> is negative, and
  the bytes between \<open>upper\<close> and \<open>off\<close> have moved. What this does to the line pointer of another tuple.
\<close>

definition tuple_move :: "bytes \<Rightarrow> bytes \<Rightarrow> nat \<Rightarrow> nat \<Rightarrow> nat \<Rightarrow> nat \<Rightarrow> int \<Rightarrow> bool" where
  "tuple_move p q upper off len special \<delta> \<longleftrightarrow>
     24 \<le> int upper + \<delta> \<and> upper \<le> off \<and> off + len \<le> special \<and> special \<le> 8192 \<and> \<delta> \<le> int len \<and> \<delta> mod 8 = 0 \<and>
     (\<forall>x. upper \<le> x \<and> x < off \<longrightarrow> q (nat (int x + \<delta>)) = p x) \<and> (\<forall>x. off + len \<le> x \<longrightarrow> q x = p x)"

definition clear :: "nat \<Rightarrow> nat \<Rightarrow> nat \<Rightarrow> nat \<Rightarrow> ItemIdData \<Rightarrow> bool" where
  "clear upper off len special lp \<longleftrightarrow> lp_ok upper special lp \<and>
     (ItemIdHasStorage lp \<longrightarrow> lp_stop lp \<le> off \<or> off + len \<le> ItemIdGetOffset lp \<and> off < ItemIdGetOffset lp)"

lemma tuple_moveD:
  assumes "tuple_move p q upper off len special \<delta>"
  shows "24 \<le> int upper + \<delta>" "upper \<le> off" "off + len \<le> special" "special \<le> 8192" "\<delta> \<le> int len" "\<delta> mod 8 = 0"
    "\<And>x. upper \<le> x \<Longrightarrow> x < off \<Longrightarrow> q (nat (int x + \<delta>)) = p x" "\<And>x. off + len \<le> x \<Longrightarrow> q x = p x"
  using assms by (simp_all add: tuple_move_def)

lemma before_or_after:
  assumes tm: "tuple_move p q upper off len special \<delta>" and "clear upper off len special lp" "ItemIdHasStorage lp"
  shows "ItemIdGetOffset lp \<le> off \<longleftrightarrow> lp_stop lp \<le> off" "24 \<le> int (ItemIdGetOffset lp) + \<delta> \<or> off < ItemIdGetOffset lp"
    "int (ItemIdGetOffset (moved off \<delta> lp)) = int (ItemIdGetOffset lp) + (if ItemIdGetOffset lp \<le> off then \<delta> else 0)"
    "int (lp_stop (moved off \<delta> lp)) = int (lp_stop lp) + (if ItemIdGetOffset lp \<le> off then \<delta> else 0)"
proof -
  show a: "ItemIdGetOffset lp \<le> off \<longleftrightarrow> lp_stop lp \<le> off" using assms storage_pos(2)[OF assms(3)] by (auto simp: clear_def)
  show b: "24 \<le> int (ItemIdGetOffset lp) + \<delta> \<or> off < ItemIdGetOffset lp"
    using assms tuple_moveD(1-6)[OF tm] by (auto simp: clear_def lp_ok_def)
  show c: "int (ItemIdGetOffset (moved off \<delta> lp)) = int (ItemIdGetOffset lp) + (if ItemIdGetOffset lp \<le> off then \<delta> else 0)"
  proof (cases "ItemIdGetOffset lp \<le> off")
    case True
    then show ?thesis using b tuple_moveD(1-6)[OF tm] assms(3) by (intro moved_offset) auto
  next
    case False
    then show ?thesis by (simp add: moved_def)
  qed
  then show "int (lp_stop (moved off \<delta> lp)) = int (lp_stop lp) + (if ItemIdGetOffset lp \<le> off then \<delta> else 0)"
    by (simp add: lp_stop_def)
qed

lemma moved_line:
  assumes tm: "tuple_move p q upper off len special \<delta>" and "clear upper off len special lp"
  shows "line_of q (moved off \<delta> lp) = line_of p lp"
proof (cases "ItemIdHasStorage lp")
  case True
  note b = before_or_after[OF tm assms(2) True]
  have "q (ItemIdGetOffset (moved off \<delta> lp) + d) = p (ItemIdGetOffset lp + d)" if "d < MAXALIGN (ItemIdGetLength lp)" for d
  proof (cases "ItemIdGetOffset lp \<le> off")
    case le: True
    then have "q (nat (int (ItemIdGetOffset lp + d) + \<delta>)) = p (ItemIdGetOffset lp + d)"
      using that b(1) assms True by (intro tuple_moveD(7)[OF tm]) (auto simp: clear_def lp_ok_def lp_stop_def)
    moreover have "nat (int (ItemIdGetOffset lp + d) + \<delta>) = ItemIdGetOffset (moved off \<delta> lp) + d" using b(3) le by simp
    ultimately show ?thesis by simp
  next
    case False
    then have "ItemIdGetOffset (moved off \<delta> lp) = ItemIdGetOffset lp" "off + len \<le> ItemIdGetOffset lp"
      using b(1) assms True by (auto simp: moved_def clear_def)
    then show ?thesis using tuple_moveD(8)[OF tm] by simp
  qed
  then show ?thesis using True by (intro line_of_moved) auto
next
  case False
  then show ?thesis by (simp add: line_of_def)
qed

lemma moved_ok:
  assumes tm: "tuple_move p q upper off len special \<delta>" and "clear upper off len special lp"
  shows "lp_ok (nat (int upper + \<delta>)) special (moved off \<delta> lp)"
  unfolding lp_ok_def
proof
  assume "ItemIdHasStorage (moved off \<delta> lp)"
  then have s: "ItemIdHasStorage lp" by simp
  note b = before_or_after[OF tm assms(2) s]
  have ok: "ItemIdIsUsed lp" "upper \<le> ItemIdGetOffset lp" "lp_stop lp \<le> special" "ItemIdGetOffset lp mod 8 = 0"
    using assms s by (auto simp: clear_def lp_ok_def)
  have "int (ItemIdGetOffset (moved off \<delta> lp)) mod 8 = 0"
    using b(3) ok(4) tuple_moveD(6)[OF tm] by (simp split: if_splits) presburger+
  moreover have "int upper + \<delta> \<le> int (ItemIdGetOffset (moved off \<delta> lp))" "int (lp_stop (moved off \<delta> lp)) \<le> int special"
    using b ok tuple_moveD(1-6)[OF tm] assms s by (auto simp: clear_def split: if_splits)
  ultimately show "ItemIdIsUsed (moved off \<delta> lp) \<and> nat (int upper + \<delta>) \<le> ItemIdGetOffset (moved off \<delta> lp) \<and>
    lp_stop (moved off \<delta> lp) \<le> special \<and> ItemIdGetOffset (moved off \<delta> lp) mod 8 = 0"
    using ok(1) by (simp add: nat_le_iff) presburger
qed

lemma moved_apart:
  assumes tm: "tuple_move p q upper off len special \<delta>" and "clear upper off len special lp" "clear upper off len special lp'" "apart lp lp'"
  shows "apart (moved off \<delta> lp) (moved off \<delta> lp')"
  unfolding apart_def
proof
  assume "ItemIdHasStorage (moved off \<delta> lp) \<and> ItemIdHasStorage (moved off \<delta> lp')"
  then have s: "ItemIdHasStorage lp" "ItemIdHasStorage lp'" by simp_all
  note b = before_or_after[OF tm assms(2) s(1)] before_or_after[OF tm assms(3) s(2)]
  then show "lp_stop (moved off \<delta> lp) \<le> ItemIdGetOffset (moved off \<delta> lp') \<or> lp_stop (moved off \<delta> lp') \<le> ItemIdGetOffset (moved off \<delta> lp)"
    using assms s tuple_moveD(1-6)[OF tm] by (auto simp: apart_def clear_def split: if_splits)
qed

text \<open>The room between the moved tuples and the ones behind is free for the tuple itself.\<close>

lemma moved_gap:
  assumes tm: "tuple_move p q upper off len special \<delta>" and "clear upper off len special lp" "ItemIdHasStorage lp"
  shows "int (lp_stop (moved off \<delta> lp)) \<le> int off + \<delta> \<or> off + len \<le> ItemIdGetOffset (moved off \<delta> lp)"
  using before_or_after[OF assms] assms(2,3) by (auto simp: clear_def split: if_splits)

section \<open>Pages whose tuples have moved\<close>

text \<open>The other line pointers of a page are clear of a tuple.\<close>

lemma others_clear:
  assumes "page_wf p" "i < PageGetMaxOffsetNumber p" "j < PageGetMaxOffsetNumber p" "i \<noteq> j" "ItemIdHasStorage (get_linp p i)"
  shows "clear (pd_upper p) (ItemIdGetOffset (get_linp p i)) (MAXALIGN (ItemIdGetLength (get_linp p i))) (pd_special p) (get_linp p j)"
  using page_wf_nth[OF assms(1,3)] page_wf_apart[OF assms(1-4)] assms(5) storage_pos(2)[OF assms(5)]
  by (auto simp: clear_def apart_def lp_stop_def)

lemma moved_list:
  assumes tm: "tuple_move p q upper off len special \<delta>" and "\<forall>lp \<in> set lps. clear upper off len special lp" "sorted_wrt apart lps"
  shows "layout_ok (nat (int upper + \<delta>)) special (map (moved off \<delta>) lps)" "map (line_of q) (map (moved off \<delta>) lps) = map (line_of p) lps"
proof -
  have "sorted_wrt (\<lambda>x y. apart (moved off \<delta> x) (moved off \<delta> y)) lps"
    by (rule sorted_wrt_mono_rel[OF _ assms(3)]) (use moved_apart[OF tm] assms(2) in blast)
  then show "layout_ok (nat (int upper + \<delta>)) special (map (moved off \<delta>) lps)"
    using moved_ok[OF tm] assms(2) by (simp add: layout_ok_def sorted_wrt_map)
  show "map (line_of q) (map (moved off \<delta>) lps) = map (line_of p) lps"
    using moved_line[OF tm] assms(2) by simp
qed

text \<open>Closing the gap that a deleted tuple leaves.\<close>

lemma close_gap:
  fixes p :: bytes and c :: bool
  assumes "24 \<le> pd_lower p" "pd_lower p \<le> pd_upper p" "pd_upper p \<le> off" "off + len \<le> pd_special p" "pd_special p \<le> 8192" "len mod 8 = 0"
    and ns: "distinct ns" "\<forall>i \<in> set ns. 0 < i \<and> linp_addr (i - 1) + 4 \<le> pd_upper p"
  defines "q \<equiv> shift_linps c off (int len) ns
    (set_upper (if off > pd_upper p then memmove p (pd_upper p + len) (pd_upper p) (off - pd_upper p) else p) (pd_upper p + len))"
  shows "tuple_move p q (pd_upper p) off len (pd_special p) (int len)" "pd_upper q = pd_upper p + len" "pd_lower q = pd_lower p"
    "pd_special q = pd_special p" "pd_flags q = pd_flags p"
    "Suc j \<in> set ns \<Longrightarrow> get_linp q j = (if (c \<longrightarrow> ItemIdHasStorage (get_linp p j)) \<and> ItemIdGetOffset (get_linp p j) \<le> off
       then (get_linp p j)\<lparr>lp_off := lp_off (get_linp p j) + of_int (int len)\<rparr> else get_linp p j)"
    "\<forall>x \<ge> pd_special p. q x = p x"
proof -
  define m where "m = (if off > pd_upper p then memmove p (pd_upper p + len) (pd_upper p) (off - pd_upper p) else p)"
  define r where "r = set_upper m (pd_upper p + len)"
  have q: "q = shift_linps c off (int len) ns r" by (simp add: q_def r_def m_def)
  have isp: "\<forall>i \<in> set ns. 0 < i" using ns(2) by blast
  note sh = shift_linps_spec[OF ns(1) isp, where c = c and off = off and \<delta> = "int len"]
  have above: "q x = r x" if "pd_upper p \<le> x" for x unfolding q by (rule sh(2)) (use ns(2) that in \<open>auto intro: order_trans\<close>)
  have below: "\<forall>x < 24. q x = r x" unfolding q using sh(2) by blast
  have m: "m x = (if pd_upper p + len \<le> x \<and> x < off + len then p (x - len) else p x)" for x
    using assms(3) by (auto simp: m_def memmove_def memcpy_def algebra_simps)
  have r24: "r x = m x" if "24 \<le> x" for x using that by (simp add: r_def)
  have u: "24 \<le> pd_upper p" using assms by simp
  have mvd: "q (nat (int x + int len)) = p x" if "pd_upper p \<le> x" "x < off" for x
  proof -
    have "nat (int x + int len) = x + len" by simp
    then show ?thesis using that above[of "x + len"] r24[of "x + len"] m[of "x + len"] u by simp
  qed
  have hi: "q x = p x" if "off + len \<le> x" for x using that above[of x] r24[of x] m[of x] u assms(3) by simp
  show "tuple_move p q (pd_upper p) off len (pd_special p) (int len)"
  proof -
    have "int len mod 8 = 0" using assms(6) by presburger
    then show ?thesis using assms(3-5) u mvd hi by (simp add: tuple_move_def)
  qed
  show "\<forall>x \<ge> pd_special p. q x = p x" using hi assms(4) by auto
  note h = same_header[OF below]
  have "pd_lower m = pd_lower p" "pd_special m = pd_special p" "pd_flags m = pd_flags p" using u by (simp_all add: m_def)
  then show "pd_upper q = pd_upper p + len" "pd_lower q = pd_lower p" "pd_special q = pd_special p" "pd_flags q = pd_flags p"
    using h assms(4,5,3) by (simp_all add: r_def)
  assume j: "Suc j \<in> set ns"
  then have "get_linp m j = get_linp p j" using ns(2) by (auto simp: m_def)
  then have "get_linp r j = get_linp p j" by (simp add: r_def)
  then show "get_linp q j = (if (c \<longrightarrow> ItemIdHasStorage (get_linp p j)) \<and> ItemIdGetOffset (get_linp p j) \<le> off
       then (get_linp p j)\<lparr>lp_off := lp_off (get_linp p j) + of_int (int len)\<rparr> else get_linp p j)"
    using sh(1)[of r j] j by (simp add: q Let_def)
qed

text \<open>Closing a gap that no line points to keeps the lines.\<close>

lemma gap_closed:
  fixes p :: bytes and c :: bool
  assumes wf: "page_wf p" and gap: "pd_upper p \<le> off" "off + len \<le> pd_special p" "len mod 8 = 0"
    and cl: "\<forall>lp \<in> set (linps p). clear (pd_upper p) off len (pd_special p) lp"
    and c: "c \<or> (\<forall>lp \<in> set (linps p). ItemIdHasStorage lp)"
  defines "q \<equiv> shift_linps c off (int len) [1 ..< PageGetMaxOffsetNumber p + 1]
    (set_upper (if off > pd_upper p then memmove p (pd_upper p + len) (pd_upper p) (off - pd_upper p) else p) (pd_upper p + len))"
  shows "page_wf q \<and> lines q = lines p \<and> pd_upper q = pd_upper p + len \<and> pd_special q = pd_special p \<and>
    pd_lower q = pd_lower p \<and> pd_flags q = pd_flags p \<and> (\<forall>x \<ge> pd_special p. q x = p x)"
proof -
  let ?n = "PageGetMaxOffsetNumber p"
  have h: "24 \<le> pd_lower p" "pd_lower p \<le> pd_upper p" "pd_special p \<le> 8192" "pd_special p mod 8 = 0" "pd_upper p mod 8 = 0"
    using wf by (simp_all add: page_wf_simps)
  have ns: "\<forall>i \<in> set [1 ..< ?n + 1]. 0 < i \<and> linp_addr (i - 1) + 4 \<le> pd_upper p"
  proof
    fix i assume "i \<in> set [1 ..< ?n + 1]"
    then have "0 < i" "i - 1 < ?n" by auto
    then show "0 < i \<and> linp_addr (i - 1) + 4 \<le> pd_upper p" using linp_below_lower[of "i - 1" p] h(2) by simp
  qed
  note cg = close_gap[OF h(1,2) gap(1,2) h(3) gap(3) distinct_upt ns, where c = c, folded q_def]
  have n: "PageGetMaxOffsetNumber q = ?n" using cg(3) by (rule max_offset_cong)
  have "get_linp q j = moved off (int len) (get_linp p j)" if "j < ?n" for j
  proof -
    have "c \<or> ItemIdHasStorage (get_linp p j)" using c that by (auto simp: linps_def)
    moreover have "Suc j \<in> set [1 ..< ?n + 1]" using that by auto
    ultimately show ?thesis using cg(6)[of j] by (auto simp: moved_def)
  qed
  then have lps: "linps q = map (moved off (int len)) (linps p)" using n by (simp add: linps_def)
  have "sorted_wrt apart (linps p)" using wf by (simp add: page_wf_simps layout_ok_def)
  note ml = moved_list[OF cg(1) cl this]
  have "nat (int (pd_upper p) + int len) = pd_upper p + len" by simp
  then have "layout_ok (pd_upper p + len) (pd_special p) (linps q)" using ml(1) lps by simp
  moreover have "(pd_upper p + len) mod 8 = 0" using h(5) gap(3) by presburger
  ultimately have "page_wf q" using h gap cg(2-4) by (simp add: page_wf_simps)
  moreover have "lines q = lines p" using ml(2) lps by (simp add: lines_def)
  ultimately show ?thesis using cg(2-5,7) by simp
qed

text \<open>A line made unused, and a line taken out.\<close>

lemma unused_line_page:
  assumes wf: "page_wf p" and i: "i < PageGetMaxOffsetNumber p"
  defines "q \<equiv> put_linp p i (ItemIdSetUnused (get_linp p i))"
  shows "page_wf q" "linps q = (linps p)[i := ItemIdSetUnused (get_linp p i)]" "lines q = (lines p)[i := Unused]"
    "pd_lower q = pd_lower p" "pd_upper q = pd_upper p" "pd_special q = pd_special p" "\<forall>x \<ge> pd_upper p. q x = p x"
proof -
  let ?lp = "ItemIdSetUnused (get_linp p i)"
  show h: "pd_lower q = pd_lower p" "pd_upper q = pd_upper p" "pd_special q = pd_special p" by (simp_all add: q_def)
  have n: "PageGetMaxOffsetNumber q = PageGetMaxOffsetNumber p" using h(1) by (rule max_offset_cong)
  show lps: "linps q = (linps p)[i := ?lp]"
    using i n by (intro linpsI) (auto simp: q_def nth_list_update)
  have lu: "pd_lower p \<le> pd_upper p" using wf by (simp add: page_wf_simps)
  then show x: "\<forall>x \<ge> pd_upper p. q x = p x" using put_linp_above[OF linp_below_lower[OF i]] by (auto simp: q_def)
  have "layout_ok (pd_upper p) (pd_special p) (linps q)"
  proof (rule layoutI)
    fix j assume "j < length (linps q)"
    then show "lp_ok (pd_upper p) (pd_special p) (linps q ! j)"
      using page_wf_nth[OF wf, of j] lps n i by (cases "j = i") (auto simp: lp_ok_def)
  next
    fix j k assume "j < k" "k < length (linps q)"
    then show "apart (linps q ! j) (linps q ! k)"
      using page_wf_apart[OF wf, of j k] lps n i by (cases "j = i"; cases "k = i") (auto simp: apart_def)
  qed
  then show "page_wf q" using wf h by (simp add: page_wf_simps)
  have "line_of q lp = line_of p lp" if "lp \<in> set (linps p)" for lp
    using that wf x by (intro line_of_cong) (auto simp: page_wf_simps layout_ok_def lp_ok_def)
  then have "map (line_of q) (linps p) = lines p" by (simp add: lines_def)
  moreover have "line_of q ?lp = Unused" by (simp add: line_of_def)
  ultimately show "lines q = (lines p)[i := Unused]" by (simp add: lines_def[of q] lps map_update)
qed

lemma remove_line_page:
  assumes wf: "page_wf p" and i: "i < PageGetMaxOffsetNumber p"
  defines "nb \<equiv> pd_lower p - linp_addr (i + 1)"
  defines "q \<equiv> set_lower (if nb > 0 then memmove p (linp_addr i) (linp_addr (i + 1)) nb else p) (pd_lower p - 4)"
  shows "page_wf q" "linps q = take i (linps p) @ drop (Suc i) (linps p)" "lines q = take i (lines p) @ drop (Suc i) (lines p)"
    "pd_lower q = pd_lower p - 4" "pd_upper q = pd_upper p" "pd_special q = pd_special p" "\<forall>x \<ge> pd_upper p. q x = p x"
    "PageGetMaxOffsetNumber q = PageGetMaxOffsetNumber p - 1"
proof -
  let ?n = "PageGetMaxOffsetNumber p"
  define m where "m = (if nb > 0 then memmove p (linp_addr i) (linp_addr (i + 1)) nb else p)"
  have q: "q = set_lower m (pd_lower p - 4)" by (simp add: q_def m_def)
  have b: "24 \<le> pd_lower p" "pd_lower p \<le> pd_upper p" "pd_special p \<le> 8192" "pd_upper p \<le> pd_special p" using wf by (simp_all add: page_wf_simps)
  have n: "24 + 4 * ?n \<le> pd_lower p" "pd_lower p < 28 + 4 * ?n"
    using b(1) div_times_less_eq_dividend[of "pd_lower p - 24" 4] dividend_less_div_times[of 4 "pd_lower p - 24"]
    by (auto simp: max_offset_eq)
  show h: "pd_lower q = pd_lower p - 4" "pd_upper q = pd_upper p" "pd_special q = pd_special p"
    using b by (simp_all add: q m_def)
  show n': "PageGetMaxOffsetNumber q = ?n - 1" by (simp add: max_offset_eq h) 
  have mv: "get_linp m j = (if i \<le> j then get_linp p (Suc j) else get_linp p j)" if "j < ?n - 1" for j
  proof (cases "i \<le> j")
    case True
    then have "4 * (j - i) + 4 \<le> nb" using that n(1) by (auto simp: nb_def linp_addr_eq)
    then show ?thesis using True get_linp_memcpy[of i j nb p p "i + 1"] by (simp add: m_def memmove_def)
  next
    case False
    then have "linp_addr j + 4 \<le> linp_addr i" by (simp add: linp_addr_eq)
    then show ?thesis using False by (simp add: m_def)
  qed
  show lps: "linps q = take i (linps p) @ drop (Suc i) (linps p)"
  proof (rule linpsI)
    fix j assume "j < length (take i (linps p) @ drop (Suc i) (linps p))"
    then show "get_linp q j = (take i (linps p) @ drop (Suc i) (linps p)) ! j"
      using mv[of j] i by (auto simp: q nth_append)
  qed (use n' i in simp)
  show x: "\<forall>x \<ge> pd_upper p. q x = p x"
  proof (intro allI impI)
    fix x assume "pd_upper p \<le> x"
    then have "24 \<le> x" "linp_addr i + nb \<le> x" using b linp_below_lower[OF i] by (auto simp: nb_def linp_addr_eq)
    then show "q x = p x" by (simp add: q m_def memmove_def memcpy_def)
  qed
  have "linps p = take i (linps p) @ get_linp p i # drop (Suc i) (linps p)" using i by (metis id_take_nth_drop length_linps nth_linps)
  then have "layout_ok (pd_upper p) (pd_special p) (linps q)"
    using wf layout_delete lps unfolding page_wf_simps by metis
  moreover have "24 \<le> pd_lower p - 4" "pd_lower p - 4 \<le> pd_upper p" using i n b by linarith+
  ultimately show "page_wf q" using wf h by (simp add: page_wf_simps)
  have "line_of q lp = line_of p lp" if "lp \<in> set (linps p)" for lp
    using that wf x by (intro line_of_cong) (auto simp: page_wf_simps layout_ok_def lp_ok_def)
  then show "lines q = take i (lines p) @ drop (Suc i) (lines p)"
    by (auto simp: lines_def lps take_map drop_map dest: in_set_takeD in_set_dropD)
qed

section \<open>Deleting a tuple\<close>

lemma wf_pointers:
  assumes "page_wf p"
  shows "\<not> bad_page_pointers p" "i < PageGetMaxOffsetNumber p \<Longrightarrow> ItemIdHasStorage (get_linp p i) \<Longrightarrow> \<not> bad_line_pointer p (get_linp p i)"
proof -
  show "\<not> bad_page_pointers p" using assms by (auto simp: page_wf_simps bad_page_pointers_def MAXALIGN_def SizeOfPageHeaderData_def BLCKSZ_def)
  assume "i < PageGetMaxOffsetNumber p" "ItemIdHasStorage (get_linp p i)"
  then have "pd_upper p \<le> ItemIdGetOffset (get_linp p i)" "lp_stop (get_linp p i) \<le> pd_special p" "ItemIdGetOffset (get_linp p i) mod 8 = 0"
    using page_wf_nth[OF assms] by (auto simp: lp_ok_def)
  then show "\<not> bad_line_pointer p (get_linp p i)"
    using align_bounds[of "ItemIdGetLength (get_linp p i)"] by (auto simp: bad_line_pointer_def lp_stop_def MAXALIGN_def)
qed

lemma set_lower_commute:
  assumes "24 \<le> dst" "24 \<le> src"
  shows "set_lower (set_upper (memmove p dst src n) u) l = set_upper (memmove (set_lower p l) dst src n) u"
    "set_lower (set_upper p u) l = set_upper (set_lower p l) u"
  using assms by (auto simp: set_lower_def set_upper_def put16_def memmove_def memcpy_def fun_eq_iff)

lemma lp_clear:
  assumes wf: "page_wf p" and i: "i < PageGetMaxOffsetNumber p" and s: "ItemIdHasStorage (get_linp p i)"
    and sub: "\<And>lp. lp \<in> set lps \<Longrightarrow> \<not> ItemIdHasStorage lp \<or> (\<exists>j < PageGetMaxOffsetNumber p. j \<noteq> i \<and> lp = get_linp p j)"
  shows "\<forall>lp \<in> set lps. clear (pd_upper p) (ItemIdGetOffset (get_linp p i)) (MAXALIGN (ItemIdGetLength (get_linp p i))) (pd_special p) lp"
proof
  fix lp assume "lp \<in> set lps"
  from sub[OF this] show "clear (pd_upper p) (ItemIdGetOffset (get_linp p i)) (MAXALIGN (ItemIdGetLength (get_linp p i))) (pd_special p) lp"
    using others_clear[OF wf i _ _ s] by (auto simp: clear_def lp_ok_def)
qed

lemma empty_page: "PageIsEmpty p \<Longrightarrow> PageGetMaxOffsetNumber p = 0"
  by (simp add: PageIsEmpty_def max_offset_eq SizeOfPageHeaderData_def)

lemma shift_unless_empty:
  assumes "pd_lower q = pd_lower p"
  shows "(if \<not> PageIsEmpty q then shift_linps c off d [1 ..< PageGetMaxOffsetNumber p + 1] q else q) =
    shift_linps c off d [1 ..< PageGetMaxOffsetNumber p + 1] q"
  using empty_page[of q] max_offset_cong[OF assms] by auto

lemma delete_unfold:
  assumes "\<not> bad_page_pointers p" "i < PageGetMaxOffsetNumber p" "\<not> bad_line_pointer p (get_linp p i)" "24 \<le> pd_upper p"
    and "off = ItemIdGetOffset (get_linp p i)" "len = MAXALIGN (ItemIdGetLength (get_linp p i))" "nb = pd_lower p - linp_addr (i + 1)"
    and "m = (if nb > 0 then memmove p (linp_addr i) (linp_addr (i + 1)) nb else p)"
    and "t = set_lower (set_upper (if off > pd_upper p then memmove m (pd_upper p + len) (pd_upper p) (off - pd_upper p) else m) (pd_upper p + len)) (pd_lower p - 4)"
  shows "PageIndexTupleDelete p (Suc i) =
    Inr (if \<not> PageIsEmpty t then shift_linps False off (int len) [1 ..< PageGetMaxOffsetNumber p] t else t)"
  using assms(1-4) unfolding PageIndexTupleDelete_def Let_def assms(5-9)
  by (cases "pd_lower p - linp_addr (i + 1) > 0"; cases "ItemIdGetOffset (get_linp p i) > pd_upper p")
    (simp_all add: sizeof_ItemIdData_def)

text \<open>One delete: the line goes, the later lines move up by one, and the space of the tuple is free again.\<close>

lemma delete_spec:
  assumes wf: "page_wf p" and st: "\<forall>lp \<in> set (linps p). ItemIdHasStorage lp" and i: "i < PageGetMaxOffsetNumber p"
  shows "\<exists>p'. PageIndexTupleDelete p (Suc i) = Inr p' \<and> page_wf p' \<and> lines p' = take i (lines p) @ drop (Suc i) (lines p) \<and>
    pd_upper p' = pd_upper p + MAXALIGN (ItemIdGetLength (get_linp p i)) \<and> pd_lower p' = pd_lower p - 4 \<and>
    pd_special p' = pd_special p \<and> (\<forall>x \<ge> pd_special p. p' x = p x)"
proof -
  let ?lp = "get_linp p i"
  let ?off = "ItemIdGetOffset ?lp" and ?len = "MAXALIGN (ItemIdGetLength ?lp)"
  define nb where "nb = pd_lower p - linp_addr (i + 1)"
  define m where "m = (if nb > 0 then memmove p (linp_addr i) (linp_addr (i + 1)) nb else p)"
  define q where "q = set_lower m (pd_lower p - 4)"
  note r = remove_line_page[OF wf i, folded nb_def, folded m_def, folded q_def]
  have s: "ItemIdHasStorage ?lp" using st i by (simp add: linps_def)
  have b: "24 \<le> pd_upper p" "pd_upper p \<le> ?off" "?off + ?len \<le> pd_special p" "?len mod 8 = 0" "pd_special p \<le> 8192"
    using wf page_wf_nth[OF wf i] s by (auto simp: page_wf_simps lp_ok_def lp_stop_def MAXALIGN_def)
  have cl: "\<forall>lp \<in> set (linps q). clear (pd_upper q) ?off ?len (pd_special q) lp"
    unfolding r(5,6)
  proof (rule lp_clear[OF wf i s])
    fix lp assume "lp \<in> set (linps q)"
    then obtain j where "j < length (linps q)" "lp = linps q ! j" by (auto simp: in_set_conv_nth)
    then have "\<exists>k < PageGetMaxOffsetNumber p. k \<noteq> i \<and> lp = get_linp p k"
      using i r(2) r(8) by (intro exI[of _ "if j < i then j else Suc j"]) (auto simp: nth_append)
    then show "\<not> ItemIdHasStorage lp \<or> (\<exists>k < PageGetMaxOffsetNumber p. k \<noteq> i \<and> lp = get_linp p k)" by blast
  qed
  have st': "False \<or> (\<forall>lp \<in> set (linps q). ItemIdHasStorage lp)" using st r(2) by (auto dest: in_set_takeD in_set_dropD)
  have gap: "pd_upper q \<le> ?off" "?off + ?len \<le> pd_special q" using b r(5,6) by simp_all
  note g = gap_closed[OF r(1) gap b(4) cl st']
  have hm: "pd_upper m = pd_upper p" "pd_lower m = pd_lower p" by (simp_all add: m_def)
  define t where "t = set_upper (if ?off > pd_upper p then memmove q (pd_upper p + ?len) (pd_upper p) (?off - pd_upper p) else q) (pd_upper p + ?len)"
  have t: "set_lower (set_upper (if ?off > pd_upper p then memmove m (pd_upper p + ?len) (pd_upper p) (?off - pd_upper p) else m) (pd_upper p + ?len)) (pd_lower p - 4) = t"
    using b(1) set_lower_commute by (simp add: t_def q_def)
  have "pd_lower t = pd_lower q" using b(1) by (simp add: t_def)
  note e = shift_unless_empty[OF this, where c = False and off = ?off and d = "int ?len"]
  have n: "PageGetMaxOffsetNumber p = PageGetMaxOffsetNumber q + 1" using r(8) i by simp
  have "PageIndexTupleDelete p (Suc i) = Inr (shift_linps False ?off (int ?len) [1 ..< PageGetMaxOffsetNumber q + 1] t)"
    using delete_unfold[OF wf_pointers(1)[OF wf] i wf_pointers(2)[OF wf i s] b(1) refl refl nb_def m_def t[symmetric]]
    unfolding n e .
  then show ?thesis using g[unfolded r(5), folded t_def] unfolding r(3,4,6) using r(7) b(2,3) by force
qed

text \<open>Deleting without compacting: the line stays as an unused one, unless it is the last.\<close>

lemma nocompact_unfold:
  assumes "\<not> bad_page_pointers p" "i < PageGetMaxOffsetNumber p" "\<not> bad_line_pointer p (get_linp p i)" "24 \<le> pd_upper p"
    and "off = ItemIdGetOffset (get_linp p i)" "len = MAXALIGN (ItemIdGetLength (get_linp p i))"
    and "q = (if Suc i < PageGetMaxOffsetNumber p then put_linp p i (ItemIdSetUnused (get_linp p i)) else set_lower p (pd_lower p - 4))"
    and "n = (if Suc i < PageGetMaxOffsetNumber p then PageGetMaxOffsetNumber p else PageGetMaxOffsetNumber p - 1)"
    and "t = set_upper (if off > pd_upper p then memmove q (pd_upper p + len) (pd_upper p) (off - pd_upper p) else q) (pd_upper p + len)"
  shows "PageIndexTupleDeleteNoCompact p (Suc i) = Inr (if \<not> PageIsEmpty t then shift_linps True off (int len) [1 ..< n + 1] t else t)"
  using assms(1-4) unfolding PageIndexTupleDeleteNoCompact_def Let_def assms(5-9)
  by (cases "Suc i < PageGetMaxOffsetNumber p"; cases "ItemIdGetOffset (get_linp p i) > pd_upper p")
    (simp_all add: sizeof_ItemIdData_def)

lemma nocompact_page:
  assumes wf: "page_wf p" and i: "i < PageGetMaxOffsetNumber p"
    and q: "q = (if Suc i < PageGetMaxOffsetNumber p then put_linp p i (ItemIdSetUnused (get_linp p i)) else set_lower p (pd_lower p - 4))"
  shows "page_wf q" "lines q = (if Suc i < PageGetMaxOffsetNumber p then (lines p)[i := Unused] else butlast (lines p))"
    "pd_upper q = pd_upper p" "pd_special q = pd_special p" "\<forall>x \<ge> pd_upper p. q x = p x"
    "PageGetMaxOffsetNumber q = (if Suc i < PageGetMaxOffsetNumber p then PageGetMaxOffsetNumber p else PageGetMaxOffsetNumber p - 1)"
    "lp \<in> set (linps q) \<Longrightarrow> \<not> ItemIdHasStorage lp \<or> (\<exists>j < PageGetMaxOffsetNumber p. j \<noteq> i \<and> lp = get_linp p j)"
proof -
  let ?n = "PageGetMaxOffsetNumber p"
  have l: "24 \<le> pd_upper p" using wf by (simp add: page_wf_simps)
  have "page_wf q \<and> lines q = (if Suc i < ?n then (lines p)[i := Unused] else butlast (lines p)) \<and> pd_upper q = pd_upper p \<and>
    pd_special q = pd_special p \<and> (\<forall>x \<ge> pd_upper p. q x = p x) \<and> PageGetMaxOffsetNumber q = (if Suc i < ?n then ?n else ?n - 1) \<and>
    linps q = (if Suc i < ?n then (linps p)[i := ItemIdSetUnused (get_linp p i)] else take (?n - 1) (linps p))"
  proof (cases "Suc i < ?n")
    case True
    then show ?thesis using unused_line_page[OF wf i] max_offset_cong[of q p] by (simp add: q)
  next
    case False
    then have n: "?n = Suc i" using i by simp
    have "q = set_lower p (pd_lower p - 4 * (?n - i))" using False n q by simp
    note c = cut_lines[OF wf less_imp_le[OF i] this]
    then show ?thesis using n l by (simp add: q butlast_conv_take)
  qed
  note f = this
  then show "page_wf q" "lines q = (if Suc i < ?n then (lines p)[i := Unused] else butlast (lines p))"
    "pd_upper q = pd_upper p" "pd_special q = pd_special p" "\<forall>x \<ge> pd_upper p. q x = p x"
    "PageGetMaxOffsetNumber q = (if Suc i < ?n then ?n else ?n - 1)" by blast+
  assume "lp \<in> set (linps q)"
  then obtain j where "j < length (linps q)" "lp = linps q ! j" by (auto simp: in_set_conv_nth)
  then show "\<not> ItemIdHasStorage lp \<or> (\<exists>j < ?n. j \<noteq> i \<and> lp = get_linp p j)"
    using f i by (cases "j = i") (auto split: if_splits intro!: exI[of _ j])
qed

lemma nocompact_spec:
  assumes wf: "page_wf p" and i: "i < PageGetMaxOffsetNumber p" and s: "ItemIdHasStorage (get_linp p i)"
  shows "\<exists>p'. PageIndexTupleDeleteNoCompact p (Suc i) = Inr p' \<and> page_wf p' \<and>
    lines p' = (if Suc i < PageGetMaxOffsetNumber p then (lines p)[i := Unused] else butlast (lines p)) \<and>
    pd_upper p' = pd_upper p + MAXALIGN (ItemIdGetLength (get_linp p i)) \<and>
    pd_special p' = pd_special p \<and> (\<forall>x \<ge> pd_special p. p' x = p x)"
proof -
  let ?lp = "get_linp p i"
  let ?off = "ItemIdGetOffset ?lp" and ?len = "MAXALIGN (ItemIdGetLength ?lp)"
  define q where "q = (if Suc i < PageGetMaxOffsetNumber p then put_linp p i (ItemIdSetUnused (get_linp p i)) else set_lower p (pd_lower p - 4))"
  note r = nocompact_page[OF wf i q_def]
  have b: "24 \<le> pd_upper p" "pd_upper p \<le> ?off" "?off + ?len \<le> pd_special p" "?len mod 8 = 0" "pd_special p \<le> 8192"
    using wf page_wf_nth[OF wf i] s by (auto simp: page_wf_simps lp_ok_def lp_stop_def MAXALIGN_def)
  have cl: "\<forall>lp \<in> set (linps q). clear (pd_upper q) ?off ?len (pd_special q) lp"
    unfolding r(3,4) by (rule lp_clear[OF wf i s r(7)])
  have gap: "pd_upper q \<le> ?off" "?off + ?len \<le> pd_special q" using b r(3,4) by simp_all
  note g = gap_closed[OF r(1) gap b(4) cl disjI1[OF TrueI]]
  define t where "t = set_upper (if ?off > pd_upper p then memmove q (pd_upper p + ?len) (pd_upper p) (?off - pd_upper p) else q) (pd_upper p + ?len)"
  have "pd_lower t = pd_lower q" using b(1) by (simp add: t_def)
  note e = shift_unless_empty[OF this, where c = True and off = ?off and d = "int ?len"]
  have "PageIndexTupleDeleteNoCompact p (Suc i) = Inr (shift_linps True ?off (int ?len) [1 ..< PageGetMaxOffsetNumber q + 1] t)"
    using nocompact_unfold[OF wf_pointers(1)[OF wf] i wf_pointers(2)[OF wf i s] b(1) refl refl q_def r(6) t_def] unfolding e .
  then show ?thesis using g[unfolded r(3), folded t_def] unfolding r(2,4) using r(5) b(2,3) by force
qed

section \<open>Overwriting a tuple\<close>

text \<open>The tuples before the overwritten one move by the difference of the sizes, in either direction.\<close>

lemma resize_gap:
  fixes p :: bytes
  assumes b: "24 \<le> pd_lower p" "pd_lower p \<le> pd_upper p" "pd_upper p \<le> off" "off + len \<le> pd_special p" "pd_special p \<le> 8192"
    and d: "int (pd_lower p) \<le> int (pd_upper p) + \<delta>" "\<delta> \<le> int len" "\<delta> mod 8 = 0"
    and t: "t = (if \<delta> \<noteq> 0 then shift_linps True off \<delta> [FirstOffsetNumber ..< PageGetMaxOffsetNumber p + 1]
      (set_upper (memmove p (nat (int (pd_upper p) + \<delta>)) (pd_upper p) (off - pd_upper p)) (nat (int (pd_upper p) + \<delta>))) else p)"
  shows "tuple_move p t (pd_upper p) off len (pd_special p) \<delta>" "pd_upper t = nat (int (pd_upper p) + \<delta>)" "pd_lower t = pd_lower p"
    "pd_special t = pd_special p" "\<forall>j < PageGetMaxOffsetNumber p. get_linp t j = moved off \<delta> (get_linp p j)"
proof -
  let ?n = "PageGetMaxOffsetNumber p" and ?u = "nat (int (pd_upper p) + \<delta>)"
  define m where "m = memmove p ?u (pd_upper p) (off - pd_upper p)"
  have u: "pd_lower p \<le> ?u" "int ?u = int (pd_upper p) + \<delta>" "?u < 65536" using b d by linarith+
  have "tuple_move p t (pd_upper p) off len (pd_special p) \<delta> \<and> pd_upper t = ?u \<and> pd_lower t = pd_lower p \<and>
    pd_special t = pd_special p \<and> (\<forall>j < ?n. get_linp t j = moved off \<delta> (get_linp p j))"
  proof (cases "\<delta> = 0")
    case True
    then show ?thesis using b t by (simp add: tuple_move_def moved_def)
  next
    case False
    then have t: "t = shift_linps True off \<delta> [1 ..< ?n + 1] (set_upper m ?u)" using t by (simp add: m_def FirstOffsetNumber_def)
    have pos: "\<forall>i \<in> set [1 ..< ?n + 1]. 0 < i" by auto
    note sh = shift_linps_spec[OF distinct_upt pos, where c = True and off = off and \<delta> = \<delta>]
    have "linp_addr (i - 1) + 4 \<le> pd_lower p" if "i \<in> set [1 ..< ?n + 1]" for i
    proof -
      have "i - 1 < ?n" using that by auto
      then show ?thesis by (rule linp_below_lower)
    qed
    then have above: "t x = m x" if "pd_lower p \<le> x" for x
    proof -
      have "\<forall>i \<in> set [1 ..< ?n + 1]. linp_addr (i - 1) + 4 \<le> x"
        using that \<open>\<And>i. i \<in> set [1 ..< ?n + 1] \<Longrightarrow> linp_addr (i - 1) + 4 \<le> pd_lower p\<close> le_trans by blast
      from sh(2)[OF disjI1[OF this], of "set_upper m ?u"] show ?thesis using that b(1) t by simp
    qed
    have below: "\<forall>x < 24. t x = set_upper m ?u x" using sh(2) t by blast
    have m: "m x = (if ?u \<le> x \<and> x < ?u + (off - pd_upper p) then p (x - ?u + pd_upper p) else p x)" for x
      by (auto simp: m_def memmove_def memcpy_def algebra_simps)
    have lo: "t (nat (int x + \<delta>)) = p x" if "pd_upper p \<le> x" "x < off" for x
    proof -
      have x: "?u \<le> nat (int x + \<delta>)" "nat (int x + \<delta>) < ?u + (off - pd_upper p)" "nat (int x + \<delta>) - ?u + pd_upper p = x"
        using that u by linarith+
      have "t (nat (int x + \<delta>)) = m (nat (int x + \<delta>))" using x(1) u(1) by (intro above) simp
      also have "\<dots> = p (nat (int x + \<delta>) - ?u + pd_upper p)" by (simp only: m x(1,2) simp_thms if_True)
      also have "\<dots> = p x" by (simp only: x(3))
      finally show ?thesis .
    qed
    have hi: "t x = p x" if "off + len \<le> x" for x
    proof -
      have "\<not> x < ?u + (off - pd_upper p)" "pd_lower p \<le> x" using that u d(2) b by linarith+
      then show ?thesis using above m by simp
    qed
    have "tuple_move p t (pd_upper p) off len (pd_special p) \<delta>" using b d u lo hi by (simp add: tuple_move_def)
    moreover have "get_linp m j = get_linp p j" if "j < ?n" for j using linp_below_lower[OF that] u(1) by (simp add: m_def)
    then have "\<forall>j < ?n. get_linp t j = moved off \<delta> (get_linp p j)" using sh(1)[of "set_upper m ?u"] t by (auto simp: moved_def Let_def)
    moreover have "24 \<le> ?u" using b(1) u(1) by simp
    ultimately show ?thesis using same_header[OF below] u(3) by (simp add: m_def)
  qed
  then show "tuple_move p t (pd_upper p) off len (pd_special p) \<delta>" "pd_upper t = ?u" "pd_lower t = pd_lower p"
    "pd_special t = pd_special p" "\<forall>j < ?n. get_linp t j = moved off \<delta> (get_linp p j)" by blast+
qed

lemma overwrite_unfold:
  assumes "\<not> bad_page_pointers p" "i < PageGetMaxOffsetNumber p" "\<not> bad_line_pointer p (get_linp p i)"
    and "off = ItemIdGetOffset (get_linp p i)" "len = MAXALIGN (ItemIdGetLength (get_linp p i))" "MAXALIGN (length newtup) \<le> len + (pd_upper p - pd_lower p)"
    and "\<delta> = int len - int (MAXALIGN (length newtup))" and "24 \<le> nat (int (pd_upper p) + \<delta>)"
    and "t = (if \<delta> \<noteq> 0 then shift_linps True off \<delta> [FirstOffsetNumber ..< PageGetMaxOffsetNumber p + 1]
      (set_upper (memmove p (nat (int (pd_upper p) + \<delta>)) (pd_upper p) (off - pd_upper p)) (nat (int (pd_upper p) + \<delta>))) else p)"
    and "lp = (get_linp t i)\<lparr>lp_off := of_int (int off + \<delta>), lp_len := of_nat (length newtup)\<rparr>"
  shows "PageIndexTupleOverwrite p (Suc i) newtup = Inr (True, store_bytes (put_linp t i lp) (ItemIdGetOffset lp) newtup)"
  using assms(1-3,6,8) unfolding PageIndexTupleOverwrite_def Let_def assms(9,10,7,4,5)
  by (cases "int (MAXALIGN (ItemIdGetLength (get_linp p i))) - int (MAXALIGN (length newtup)) = 0") (simp_all add: PageGetItem_def)

text \<open>The page with the tuples before moved, the new line pointer and the new tuple stored.\<close>

lemma overwrite_layout:
  assumes wf: "page_wf p" and i: "i < PageGetMaxOffsetNumber p" and s: "ItemIdHasStorage (get_linp p i)"
    and tm: "tuple_move p f (pd_upper p) (ItemIdGetOffset (get_linp p i)) (MAXALIGN (ItemIdGetLength (get_linp p i))) (pd_special p) \<delta>"
    and f: "linps f = (map (moved (ItemIdGetOffset (get_linp p i)) \<delta>) (linps p))[i := lp]"
    and lp: "ItemIdHasStorage lp" "ItemIdIsUsed lp" "int (ItemIdGetOffset lp) = int (ItemIdGetOffset (get_linp p i)) + \<delta>" "lp_stop lp = lp_stop (get_linp p i)"
  shows "layout_ok (nat (int (pd_upper p) + \<delta>)) (pd_special p) (linps f)" "lines f = (lines p)[i := line_of f lp]"
proof -
  let ?n = "PageGetMaxOffsetNumber p" and ?off = "ItemIdGetOffset (get_linp p i)"
  have nth: "linps f ! j = (if j = i then lp else moved ?off \<delta> (get_linp p j))" if "j < ?n" for j
    using that f by (simp add: nth_list_update)
  have l: "length (linps f) = ?n" by (simp only: f length_list_update length_map length_linps)
  note oc = others_clear[OF wf i _ not_sym s] and w = page_wf_nth[OF wf i] 
  have gap: "apart lp (moved ?off \<delta> (get_linp p j))" if "j < ?n" "j \<noteq> i" for j
    using moved_gap[OF tm oc[OF that]] lp(3,4) by (auto simp: apart_def lp_stop_def)
  have oki: "lp_ok (nat (int (pd_upper p) + \<delta>)) (pd_special p) lp"
  proof -
    have "?off mod 8 = 0" "pd_upper p \<le> ?off" "lp_stop lp \<le> pd_special p" using w s lp(4) by (auto simp: lp_ok_def)
    moreover have "int (ItemIdGetOffset lp) mod 8 = 0"
      using \<open>?off mod 8 = 0\<close> tuple_moveD(6)[OF tm] unfolding lp(3) by presburger
    then have "ItemIdGetOffset lp mod 8 = 0" by presburger
    ultimately show ?thesis using lp by (simp add: lp_ok_def nat_le_iff)
  qed
  show "layout_ok (nat (int (pd_upper p) + \<delta>)) (pd_special p) (linps f)"
  proof (rule layoutI)
    fix j assume "j < length (linps f)"
    then have "j < ?n" unfolding l .
    then show "lp_ok (nat (int (pd_upper p) + \<delta>)) (pd_special p) (linps f ! j)"
      unfolding nth[OF \<open>j < ?n\<close>] using oki moved_ok[OF tm oc] by (cases "j = i") auto
  next
    fix j k assume "j < k" "k < length (linps f)"
    then have jk: "j < ?n" "k < ?n" "j \<noteq> k" unfolding l by auto
    then show "apart (linps f ! j) (linps f ! k)" unfolding nth[OF jk(1)] nth[OF jk(2)]
      using gap apart_sym moved_apart[OF tm oc oc page_wf_apart[OF wf]] by (cases "j = i"; cases "k = i") auto
  qed
  show "lines f = (lines p)[i := line_of f lp]"
  proof (rule nth_equalityI)
    fix j assume "j < length (lines f)"
    then have "j < ?n" using l by (simp add: lines_def)
    then have "lines f ! j = line_of f (if j = i then lp else moved ?off \<delta> (get_linp p j))"
      using nth[of j] l unfolding lines_def by (simp only: nth_map)
    then show "lines f ! j = (lines p)[i := line_of f lp] ! j"
      using \<open>j < ?n\<close> moved_line[OF tm oc] by (simp add: lines_def nth_list_update)
  qed (use l in \<open>simp add: lines_def\<close>)
qed

lemma nat_aligned:
  assumes "u mod 8 = 0" "\<delta> mod 8 = 0" "0 \<le> int u + \<delta>"
  shows "nat (int u + \<delta>) mod 8 = 0"
proof -
  have "(int u + \<delta>) mod 8 = 0" using assms by presburger
  then show ?thesis using nat_mod_distrib[OF assms(3), of 8] by simp
qed

lemma overwrite_store:
  assumes tm: "tuple_move p t (pd_upper p) off len (pd_special p) \<delta>" and lo: "24 \<le> pd_lower p" "pd_lower t = pd_lower p"
    and lps: "\<forall>j < PageGetMaxOffsetNumber p. get_linp t j = moved off \<delta> (get_linp p j)" and i: "i < PageGetMaxOffsetNumber p"
    and d: "int (pd_lower p) \<le> int (pd_upper p) + \<delta>" and o': "int o' = int off + \<delta>" "o' + length newtup \<le> off + len"
    and f: "f = store_bytes (put_linp t i lp) o' newtup"
  shows "tuple_move p f (pd_upper p) off len (pd_special p) \<delta>" "linps f = (map (moved off \<delta>) (linps p))[i := lp]"
    "pd_lower f = pd_lower t" "pd_upper f = pd_upper t" "pd_special f = pd_special t"
proof -
  let ?n = "PageGetMaxOffsetNumber p"
  note b = tuple_moveD(2,3)[OF tm]
  have il: "linp_addr i + 4 \<le> pd_lower p" by (rule linp_below_lower[OF i])
  have ft: "f x = t x" if "pd_lower p \<le> x" "x < o' \<or> off + len \<le> x" for x
    using that o'(2) put_linp_above[OF il] by (auto simp: f store_bytes_def)
  have "f (nat (int x + \<delta>)) = t (nat (int x + \<delta>))" if "pd_upper p \<le> x" "x < off" for x using that d o'(1) by (intro ft) linarith+
  moreover have "f x = t x" if "off + len \<le> x" for x using that b d tuple_moveD(5)[OF tm] by (intro ft) linarith+
  ultimately show "tuple_move p f (pd_upper p) off len (pd_special p) \<delta>" using tm by (simp add: tuple_move_def)
  have o24: "24 \<le> o'" using o'(1) d b lo(1) by linarith
  show h: "pd_lower f = pd_lower t" "pd_upper f = pd_upper t" "pd_special f = pd_special t" using o24 by (simp_all add: f)
  have "linp_addr j + 4 \<le> o'" if "j < ?n" for j using linp_below_lower[OF that] o'(1) d b by linarith
  moreover have "PageGetMaxOffsetNumber f = ?n" using h(1) lo(2) by (intro max_offset_cong) simp
  ultimately show "linps f = (map (moved off \<delta>) (linps p))[i := lp]"
    using lps i by (intro linpsI) (auto simp: f nth_list_update)
qed

lemma overwrite_spec:
  assumes wf: "page_wf p" and i: "i < PageGetMaxOffsetNumber p" and s: "ItemIdHasStorage (get_linp p i)" and new: "newtup \<noteq> []"
    and room: "MAXALIGN (length newtup) \<le> MAXALIGN (ItemIdGetLength (get_linp p i)) + (pd_upper p - pd_lower p)"
  shows "\<exists>p'. PageIndexTupleOverwrite p (Suc i) newtup = Inr (True, p') \<and> page_wf p' \<and>
    lines p' = (lines p)[i := Tuple (lp_flags (get_linp p i)) newtup] \<and>
    pd_lower p' = pd_lower p \<and> pd_special p' = pd_special p \<and> (\<forall>x \<ge> pd_special p. p' x = p x)"
proof -
  let ?n = "PageGetMaxOffsetNumber p"
  define off where "off = ItemIdGetOffset (get_linp p i)"
  define len where "len = MAXALIGN (ItemIdGetLength (get_linp p i))"
  define new where "new = MAXALIGN (length newtup)"
  define \<delta> where "\<delta> = int len - int new"
  define t where "t = (if \<delta> \<noteq> 0 then shift_linps True off \<delta> [FirstOffsetNumber ..< ?n + 1]
      (set_upper (memmove p (nat (int (pd_upper p) + \<delta>)) (pd_upper p) (off - pd_upper p)) (nat (int (pd_upper p) + \<delta>))) else p)"
  define lp where "lp = (get_linp t i)\<lparr>lp_off := of_int (int off + \<delta>), lp_len := of_nat (length newtup)\<rparr>"
  have b: "24 \<le> pd_lower p" "pd_lower p \<le> pd_upper p" "pd_upper p \<le> off" "off + len \<le> pd_special p" "pd_special p \<le> 8192"
    using wf page_wf_nth[OF wf i] s by (auto simp: page_wf_simps lp_ok_def lp_stop_def off_def len_def)
  have al: "len mod 8 = 0" "new mod 8 = 0" "length newtup \<le> new" by (simp_all add: len_def new_def MAXALIGN_def)
  have d: "int (pd_lower p) \<le> int (pd_upper p) + \<delta>" "\<delta> \<le> int len" "\<delta> mod 8 = 0"
    using room b(2) al(1,2) unfolding \<delta>_def new_def[symmetric] len_def[symmetric] by (linarith, linarith, presburger)
  note rg = resize_gap[OF b d t_def]
  define o' where "o' = nat (int off + \<delta>)"
  have o': "int o' = int off + \<delta>" "o' + new = off + len" "o' < 32768" "nat (int (pd_upper p) + \<delta>) \<le> o'"
    using b d unfolding o'_def \<delta>_def by linarith+
  have "of_int (int off + \<delta>) = (of_nat o' :: 15 word)" unfolding o'(1)[symmetric] by simp
  then have lp: "ItemIdGetOffset lp = o'" "ItemIdGetLength lp = length newtup" "lp_flags lp = lp_flags (get_linp p i)"
    using o'(2,3) al(3) b(4,5) rg(5) i by (simp_all add: lp_def ItemIdGetOffset_def ItemIdGetLength_def)
  have lp': "ItemIdHasStorage lp" "ItemIdIsUsed lp" "int (ItemIdGetOffset lp) = int off + \<delta>" "lp_stop lp = lp_stop (get_linp p i)"
    using lp o' assms(4) page_wf_nth[OF wf i] s new_def off_def len_def
    by (auto simp: lp_ok_def lp_stop_def ItemIdHasStorage_def ItemIdIsUsed_def ItemIdGetLength_def)
  define f where "f = store_bytes (put_linp t i lp) o' newtup"
  have "o' + length newtup \<le> off + len" using o'(2) al(3) by simp
  note st = overwrite_store[OF rg(1) b(1) rg(3,5) i d(1) o'(1) this f_def]
  note tm = st(1) and lps = st(2)
  have h: "pd_lower f = pd_lower p" "pd_upper f = nat (int (pd_upper p) + \<delta>)" "pd_special f = pd_special p"
    using rg(2-4) st(3-5) by simp_all
  note ol = overwrite_layout[OF wf i s tm[unfolded off_def len_def] lps[unfolded off_def] lp'(1,2) lp'(3)[unfolded off_def] lp'(4)]
  have "line_of f lp = Tuple (lp_flags (get_linp p i)) newtup" using lp lp' by (simp add: line_of_def f_def load_store)
  then have "lines f = (lines p)[i := Tuple (lp_flags (get_linp p i)) newtup]" using ol(2) by simp
  moreover have "page_wf f"
  proof -
    have "pd_upper p mod 8 = 0" using wf by (simp add: page_wf_simps)
    then have "nat (int (pd_upper p) + \<delta>) mod 8 = 0" using d(1,3) by (intro nat_aligned) linarith+
    moreover have "nat (int (pd_upper p) + \<delta>) \<le> pd_special p" "pd_lower p \<le> nat (int (pd_upper p) + \<delta>)" using d b by linarith+
    ultimately show ?thesis using ol(1) wf h by (simp add: page_wf_simps)
  qed
  moreover have "PageIndexTupleOverwrite p (Suc i) newtup = Inr (True, f)"
    using overwrite_unfold[OF wf_pointers(1)[OF wf] i wf_pointers(2)[OF wf i s] off_def len_def _ \<delta>_def[unfolded new_def] _ t_def lp_def]
      room lp(1) d(1) b(1) by (simp add: f_def len_def)
  moreover have "\<forall>x \<ge> pd_special p. f x = p x" using tuple_moveD(3,8)[OF tm] by simp
  ultimately show ?thesis using h by blast
qed

end
