(* ===== verification/PageMulti.thy ===== *)
theory PageMulti
  imports PageIndex
begin

text \<open>
  Deleting several tuples of an index page at once: the page ends up with the lines that deleting the
  tuples one at a time leaves, whichever of the two ways \<open>PageIndexMultiDelete\<close> takes.
\<close>

section \<open>One at a time\<close>

fun is_tuple :: "line \<Rightarrow> bool" where
  "is_tuple (Tuple flags bs) = True"
| "is_tuple _ = False"

lemma stored_lines:
  assumes "page_wf p"
  shows "(\<forall>lp \<in> set (linps p). ItemIdHasStorage lp) \<longleftrightarrow> (\<forall>l \<in> set (lines p). is_tuple l)"
proof -
  have "ItemIdHasStorage lp \<longleftrightarrow> is_tuple (line_of p lp)" if "lp \<in> set (linps p)" for lp
    using assms that by (auto simp: page_wf_simps layout_ok_def lp_ok_def line_of_def)
  then show ?thesis by (auto simp: lines_def)
qed

text \<open>The lines that are left when the ones with the numbers \<open>ns\<close> (from 1) go.\<close>

definition drop_lines :: "nat list \<Rightarrow> 'a list \<Rightarrow> 'a list" where
  "drop_lines ns ls = nths ls {i. Suc i \<notin> set ns}"

lemma drop_lines_none [simp]: "drop_lines [] ls = ls"
  by (simp add: drop_lines_def nths_all)

lemma drop_lines_set: "set (drop_lines ns ls) \<subseteq> set ls"
  by (simp add: drop_lines_def set_nths_subset)

lemma drop_lines_length: "length (drop_lines ns ls) \<le> length ls"
  using length_filter_le[of _ "zip ls [0 ..< length ls]"] by (simp add: drop_lines_def nths_def)

lemma drop_lines_sorted: "sorted_wrt R ls \<Longrightarrow> sorted_wrt R (drop_lines ns ls)"
proof (induction ls rule: rev_induct)
  case (snoc l ls)
  then show ?case using drop_lines_set[of ns ls] by (auto simp: drop_lines_def nths_append sorted_wrt_append)
qed (simp add: drop_lines_def)

lemma drop_lines_last:
  assumes "i < length ls" "\<forall>n \<in> set ns. n \<le> i"
  shows "drop_lines ns (take i ls @ drop (Suc i) ls) = drop_lines (ns @ [Suc i]) ls"
proof -
  have "nths (take i ls) {j. Suc j \<notin> set ns} = nths (take i ls) {j. Suc j \<notin> set (ns @ [Suc i])}"
    unfolding nths_def by (rule arg_cong[where f = "map fst"], rule filter_cong) (auto simp: set_zip)
  moreover have "{j. j + i \<in> {j. Suc j \<notin> set ns}} = UNIV" "{j. Suc j + i \<in> {j. Suc j \<notin> set (ns @ [Suc i])}} = UNIV"
    using assms(2) by (fastforce, fastforce)
  ultimately show ?thesis
    using assms(1) by (subst (3) id_take_nth_drop[OF assms(1)]) (simp add: drop_lines_def nths_append nths_Cons nths_all min_def)
qed

lemma delete_each_spec:
  assumes "page_wf p" "\<forall>l \<in> set (lines p). is_tuple l" "sorted_wrt (<) ns" "\<forall>n \<in> set ns. 0 < n \<and> n \<le> length (lines p)"
  shows "\<exists>p'. delete_each p (rev ns) = Inr p' \<and> page_wf p' \<and> lines p' = drop_lines ns (lines p) \<and>
    pd_special p' = pd_special p \<and> (\<forall>x \<ge> pd_special p. p' x = p x)"
  using assms
proof (induction ns arbitrary: p rule: rev_induct)
  case (snoc n ns)
  then obtain i where i: "n = Suc i" "i < length (lines p)" by (cases n) auto
  then have "i < PageGetMaxOffsetNumber p" by (simp add: lines_def)
  then obtain q where q: "PageIndexTupleDelete p n = Inr q" "page_wf q" "lines q = take i (lines p) @ drop (Suc i) (lines p)"
    "pd_special q = pd_special p" "\<forall>x \<ge> pd_special p. q x = p x"
    using delete_spec[OF snoc.prems(1), of i] snoc.prems(2) stored_lines[OF snoc.prems(1)] i(1) by blast
  have le: "\<forall>n \<in> set ns. n \<le> i" using snoc.prems(3) i(1) by (auto simp: sorted_wrt_append)
  have "\<forall>l \<in> set (lines q). is_tuple l" using q(3) snoc.prems(2) by (auto dest: in_set_takeD in_set_dropD)
  moreover have "\<forall>n \<in> set ns. 0 < n \<and> n \<le> length (lines q)" using le snoc.prems(4) q(3) i(2) by auto
  moreover have "sorted_wrt (<) ns" using snoc.prems(3) by (simp add: sorted_wrt_append)
  ultimately obtain p' where "delete_each q (rev ns) = Inr p'" "page_wf p'" "lines p' = drop_lines ns (lines q)"
    "pd_special p' = pd_special q" "\<forall>x \<ge> pd_special q. p' x = q x"
    using snoc.IH[OF q(2)] by blast
  then show ?case using q drop_lines_last[OF i(2) le] i(1) by simp
qed simp

section \<open>All at once\<close>

definition items_list :: "ItemIdData list \<Rightarrow> itemIdCompactData list" where
  "items_list lps = map (\<lambda>i. \<lparr>offsetindex = i, itemoff = ItemIdGetOffset (lps ! i), alignedlen = MAXALIGN (ItemIdGetLength (lps ! i))\<rparr>) [0 ..< length lps]"

lemma items_list_snoc:
  "items_list (lps @ [lp]) = items_list lps @ [\<lparr>offsetindex = length lps, itemoff = ItemIdGetOffset lp, alignedlen = MAXALIGN (ItemIdGetLength lp)\<rparr>]"
  by (simp add: items_list_def nth_append)

lemma items_list_page:
  assumes "\<forall>lp \<in> set (linps p). ItemIdHasStorage lp"
  shows "items_of p (PageGetMaxOffsetNumber p) = items_list (linps p)"
proof -
  have "stored p (PageGetMaxOffsetNumber p) = [0 ..< PageGetMaxOffsetNumber p]"
    using assms by (auto simp: stored_def linps_def filter_id_conv)
  then show ?thesis by (auto simp: items_of_def items_list_def item_of_def)
qed

text \<open>What the scan has collected after \<open>k\<close> line pointers.\<close>

definition multi_scanned :: "nat list \<Rightarrow> ItemIdData list \<Rightarrow> nat \<Rightarrow> multi_scan \<Rightarrow> bool" where
  "multi_scanned ns lps k s \<longleftrightarrow>
     ms_newitemids s = drop_lines ns (take k lps) \<and> ms_items s = items_list (ms_newitemids s) \<and> ms_itemnos s = filter (\<lambda>n. k < n) ns \<and>
     ms_totallen s = total_len (ms_items s) \<and> (ms_presorted s \<longrightarrow> sorted_wrt (\<lambda>a b. itemoff a > itemoff b) (ms_items s)) \<and>
     (\<forall>it \<in> set (ms_items s). ms_last_offset s \<le> itemoff it)"

lemma next_itemno:
  assumes "sorted_wrt (<) ns"
  shows "filter (\<lambda>n. k < n) ns = (if Suc k \<in> set ns then Suc k # filter (\<lambda>n. Suc k < n) ns else filter (\<lambda>n. Suc k < n) ns)"
  using assms by (induction ns) (auto simp: Suc_lessI dest: Suc_lessI intro!: filter_cong)

lemma drop_lines_Suc:
  assumes "k < length ls"
  shows "drop_lines ns (take (Suc k) ls) = drop_lines ns (take k ls) @ (if Suc k \<in> set ns then [] else [ls ! k])"
  using assms by (simp add: drop_lines_def take_Suc_conv_app_nth nths_append)

lemma multi_step_scanned:
  assumes wf: "page_wf p" and k: "k < PageGetMaxOffsetNumber p" "PageGetMaxOffsetNumber p \<le> 408" and st: "ItemIdHasStorage (get_linp p k)"
    and ns: "sorted_wrt (<) ns" and s: "multi_scanned ns (linps p) k s"
  shows "\<exists>s'. multi_step p (Suc k) s = Inr s' \<and> multi_scanned ns (linps p) (Suc k) s'"
proof -
  have it: "ms_itemnos s \<noteq> [] \<and> Suc k = hd (ms_itemnos s) \<longleftrightarrow> Suc k \<in> set ns"
    using s next_itemno[OF ns, of k] hd_in_set[of "filter (\<lambda>n. Suc k < n) ns"] by (auto simp: multi_scanned_def)
  have dl: "drop_lines ns (take (Suc k) (linps p)) = drop_lines ns (take k (linps p)) @ (if Suc k \<in> set ns then [] else [get_linp p k])"
    using k(1) drop_lines_Suc[of k "linps p" ns] by simp
  have "length (ms_items s) \<le> k"
    using s k(1) drop_lines_length[of ns "take k (linps p)"] by (simp add: multi_scanned_def items_list_def)
  then have few: "length (ms_items s) < MaxIndexTuplesPerPage" using k by simp
  note ok = wf_pointers(2)[OF wf k(1) st]
  show ?thesis
  proof (cases "Suc k \<in> set ns")
    case True
    then have "multi_step p (Suc k) s = Inr (s\<lparr>ms_itemnos := tl (ms_itemnos s)\<rparr>)"
      unfolding multi_step_def Let_def it by (simp add: ok)
    moreover have "multi_scanned ns (linps p) (Suc k) (s\<lparr>ms_itemnos := tl (ms_itemnos s)\<rparr>)"
      using s dl True next_itemno[OF ns, of k] by (auto simp: multi_scanned_def)
    ultimately show ?thesis by blast
  next
    case False
    let ?off = "ItemIdGetOffset (get_linp p k)"
    let ?it = "\<lparr>offsetindex = length (ms_newitemids s), itemoff = ?off, alignedlen = MAXALIGN (ItemIdGetLength (get_linp p k))\<rparr>"
    define s' where "s' = s\<lparr>ms_items := ms_items s @ [?it], ms_newitemids := ms_newitemids s @ [get_linp p k],
        ms_last_offset := (if ms_last_offset s > ?off then ?off else ms_last_offset s),
        ms_presorted := (if ms_last_offset s > ?off then ms_presorted s else False),
        ms_totallen := ms_totallen s + MAXALIGN (ItemIdGetLength (get_linp p k))\<rparr>"
    have "multi_step p (Suc k) s = Inr s'"
      using False few unfolding multi_step_def Let_def it by (simp add: ok s'_def)
    moreover have "sorted_wrt (\<lambda>a b. itemoff a > itemoff b) (ms_items s')" if "ms_presorted s'"
      using s that by (fastforce simp: s'_def multi_scanned_def sorted_wrt_append split: if_splits)
    moreover have "\<forall>it \<in> set (ms_items s'). ms_last_offset s' \<le> itemoff it" using s by (fastforce simp: s'_def multi_scanned_def)
    ultimately show ?thesis using s dl next_itemno[OF ns, of k] False
      by (auto simp: s'_def multi_scanned_def items_list_snoc)
  qed
qed

lemma multi_loop_scanned:
  assumes "page_wf p" "PageGetMaxOffsetNumber p \<le> 408" "\<forall>lp \<in> set (linps p). ItemIdHasStorage lp" "sorted_wrt (<) ns"
    and "k \<le> PageGetMaxOffsetNumber p" "multi_scanned ns (linps p) k s"
  shows "\<exists>s'. multi_loop p [Suc k ..< Suc (PageGetMaxOffsetNumber p)] s = Inr s' \<and> multi_scanned ns (linps p) (PageGetMaxOffsetNumber p) s'"
  using assms(5,6)
proof (induction "PageGetMaxOffsetNumber p - k" arbitrary: k s)
  case (Suc d)
  then have k: "k < PageGetMaxOffsetNumber p" by simp
  then have "ItemIdHasStorage (get_linp p k)" using assms(3) by (simp add: linps_def)
  then obtain s1 where s1: "multi_step p (Suc k) s = Inr s1" "multi_scanned ns (linps p) (Suc k) s1"
    using multi_step_scanned[OF assms(1) k assms(2) _ assms(4) Suc.prems(2)] by blast
  have "[Suc k ..< Suc (PageGetMaxOffsetNumber p)] = Suc k # [Suc (Suc k) ..< Suc (PageGetMaxOffsetNumber p)]"
    using k by (simp add: upt_conv_Cons)
  then show ?case using Suc.hyps(1)[of "Suc k" s1] Suc.hyps(2) k s1 by simp
qed simp

lemma put_linps_spec:
  "get_linp (put_linps p i lps) j = (if i \<le> j \<and> j < i + length lps then lps ! (j - i) else get_linp p j)"
  "x < linp_addr i \<or> linp_addr (i + length lps) \<le> x \<Longrightarrow> put_linps p i lps x = p x"
proof (induction lps arbitrary: p i)
  case (Cons lp lps)
  case 1
  show ?case using Cons.IH(1) by (auto simp: nth_Cons')
next
  case (Cons lp lps)
  case 2
  then have "x < linp_addr i \<or> linp_addr i + 4 \<le> x" "x < linp_addr (i + 1) \<or> linp_addr (i + 1 + length lps) \<le> x"
    by (auto simp: linp_addr_eq)
  then show ?case using Cons.IH(2) by (auto simp: put_linp_def put32_def put16_def)
qed auto

text \<open>The page with the line pointers that are kept in front.\<close>

lemma kept_page:
  assumes wf: "page_wf p" and L: "L = drop_lines ns (linps p)"
    and q: "q = set_lower (put_linps p 0 L) (24 + length L * 4)"
  shows "page_wf q" "linps q = L" "lines q = drop_lines ns (lines p)" "pd_upper q = pd_upper p" "pd_special q = pd_special p"
    "\<forall>x \<ge> pd_upper p. q x = p x"
proof -
  have len: "length L \<le> PageGetMaxOffsetNumber p"
    using drop_lines_length[of ns "linps p"] by (simp add: L)
  have h: "24 \<le> pd_lower p" "pd_lower p \<le> pd_upper p" "pd_upper p \<le> pd_special p" "pd_special p \<le> 8192" using wf by (simp_all add: page_wf_simps)
  have a: "linp_addr (length L) \<le> pd_lower p" using linp_end[OF h(1) len] .
  have hd: "\<forall>x < 24. put_linps p 0 L x = p x" using put_linps_spec(2) by (simp add: linp_addr_eq)
  have lo: "pd_lower q = 24 + length L * 4" "24 + length L * 4 \<le> pd_lower p" using a h by (simp_all add: q linp_addr_eq)
  show up: "pd_upper q = pd_upper p" "pd_special q = pd_special p" using same_header[OF hd] by (simp_all add: q)
  show x: "\<forall>x \<ge> pd_upper p. q x = p x" using put_linps_spec(2)[of _ 0 L p] a h by (auto simp: q)
  show lps: "linps q = L" using lo put_linps_spec(1)[of p 0 L] by (intro linpsI) (simp_all add: q max_offset_eq)
  have sub: "set L \<subseteq> set (linps p)" unfolding L by (rule drop_lines_set)
  have lay: "layout_ok (pd_upper p) (pd_special p) L" using wf sub drop_lines_sorted[of apart "linps p" ns]
    by (auto simp: page_wf_simps layout_ok_def L)
  then show "page_wf q" using wf lo up lps h by (simp add: page_wf_simps)
  have "line_of q lp = line_of p lp" if "lp \<in> set L" for lp
    using that lay x by (intro line_of_cong) (auto simp: layout_ok_def lp_ok_def)
  then show "lines q = drop_lines ns (lines p)" by (simp add: lines_def lps L drop_lines_def nths_map)
qed

lemma multi_unfold:
  assumes "\<not> length ns \<le> 2" "\<not> bad_page_pointers p" "ms_itemnos s = []" "\<not> ms_totallen s > pd_special p - pd_lower p"
    and "multi_loop p [Suc 0 ..< Suc (PageGetMaxOffsetNumber p)] \<lparr>ms_items = [], ms_newitemids = [], ms_last_offset = pd_special p,
      ms_presorted = True, ms_totallen = 0, ms_itemnos = ns\<rparr> = Inr s"
    and "q = set_lower (put_linps p 0 (ms_newitemids s)) (24 + length (ms_newitemids s) * 4)"
  shows "PageIndexMultiDelete scratch p ns = (if ms_newitemids s \<noteq> [] then
      (case compactify_tuples scratch (ms_items s) q (ms_presorted s) of None \<Rightarrow> Inl Overrun | Some q \<Rightarrow> Inr q)
    else Inr (set_upper q (pd_special p)))"
  using assms by (simp add: PageIndexMultiDelete_def Let_def FirstOffsetNumber_def SizeOfPageHeaderData_def sizeof_ItemIdData_def del: upt_Suc)

lemma multi_delete_spec:
  assumes wf: "page_wf p" and tu: "\<forall>l \<in> set (lines p). is_tuple l" and few: "PageGetMaxOffsetNumber p \<le> 408"
    and ns: "sorted_wrt (<) ns" "\<forall>n \<in> set ns. 0 < n \<and> n \<le> length (lines p)"
  shows "\<exists>p'. PageIndexMultiDelete scratch p ns = Inr p' \<and> page_wf p' \<and> lines p' = drop_lines ns (lines p) \<and>
    pd_special p' = pd_special p \<and> (\<forall>x \<ge> pd_special p. p' x = p x)"
proof (cases "length ns \<le> 2")
  case True
  then show ?thesis using delete_each_spec[OF wf tu ns] by (simp add: PageIndexMultiDelete_def)
next
  case False
  let ?n = "PageGetMaxOffsetNumber p"
  have st: "\<forall>lp \<in> set (linps p). ItemIdHasStorage lp" using stored_lines[OF wf] tu by blast
  define s0 where "s0 = \<lparr>ms_items = [], ms_newitemids = [], ms_last_offset = pd_special p, ms_presorted = True, ms_totallen = 0, ms_itemnos = ns\<rparr>"
  have "multi_scanned ns (linps p) 0 s0" using ns(2) by (auto simp: multi_scanned_def s0_def items_list_def drop_lines_def filter_id_conv)
  then obtain s where s: "multi_loop p [Suc 0 ..< Suc ?n] s0 = Inr s" "multi_scanned ns (linps p) ?n s"
    using multi_loop_scanned[OF wf few st ns(1)] by blast
  have n0: "ms_itemnos s = []" using s(2) ns(2) by (auto simp: multi_scanned_def lines_def filter_empty_conv not_less)
  have L: "ms_newitemids s = drop_lines ns (linps p)" using s(2) by (simp add: multi_scanned_def)
  define q where "q = set_lower (put_linps p 0 (ms_newitemids s)) (24 + length (ms_newitemids s) * 4)"
  note q = kept_page[OF wf L q_def]
  have stq: "\<forall>lp \<in> set (linps q). ItemIdHasStorage lp" using st drop_lines_set[of ns "linps p"] by (auto simp: q(2) L)
  have its: "ms_items s = items_of q (PageGetMaxOffsetNumber q)" using s(2) items_list_page[OF stq] by (simp add: multi_scanned_def q(2))
  have h: "pd_lower p \<le> pd_upper p" "pd_upper p \<le> pd_special p" "pd_special p \<le> 8192" "pd_special p mod 8 = 0" using wf by (simp_all add: page_wf_simps)
  have "\<not> ms_totallen s > pd_special p - pd_lower p"
    using s(2) items_total[OF items_of_ok[OF q(1) order_refl]] h its by (simp add: multi_scanned_def q(4,5))
  note u = multi_unfold[OF False wf_pointers(1)[OF wf] n0 this s(1)[unfolded s0_def] q_def]
  show ?thesis
  proof (cases "ms_newitemids s = []")
    case True
    then have l: "linps q = []" by (simp add: q(2))
    let ?q = "set_upper q (pd_special p)"
    have "linps ?q = []" using l by (simp add: linps_def max_offset_eq)
    then have "page_wf ?q" "lines ?q = lines q" using q(1) h l by (simp_all add: page_wf_simps q(5) layout_ok_def lines_def)
    then show ?thesis using u True q h by (auto simp: page_wf_simps)
  next
    case False
    have "ms_items s \<noteq> []" using False s(2) by (auto simp: multi_scanned_def items_list_def)
    moreover have "ms_presorted s \<Longrightarrow> sorted_wrt (\<lambda>a b. itemoff a > itemoff b) (ms_items s)" using s(2) unfolding multi_scanned_def by blast
    ultimately obtain p' where p': "compactify_tuples scratch (ms_items s) q (ms_presorted s) = Some p'" "page_wf p'" "lines p' = lines q"
      "pd_special p' = pd_special q" "\<forall>x \<ge> pd_special q. p' x = q x"
      using compactify_page[OF q(1) its, of "ms_presorted s" scratch] by blast
    then have "PageIndexMultiDelete scratch p ns = Inr p'" using u False by simp
    then show ?thesis using p' q(3,5,6) h(2) by simp
  qed
qed

text \<open>Both ways give the same lines.\<close>

lemma multi_delete_each:
  assumes "page_wf p" "\<forall>l \<in> set (lines p). is_tuple l" "PageGetMaxOffsetNumber p \<le> 408"
    and "sorted_wrt (<) ns" "\<forall>n \<in> set ns. 0 < n \<and> n \<le> length (lines p)"
  shows "\<exists>p' p''. PageIndexMultiDelete scratch p ns = Inr p' \<and> delete_each p (rev ns) = Inr p'' \<and> lines p' = lines p''"
  using multi_delete_spec[OF assms] delete_each_spec[OF assms(1,2,4,5)] by fastforce

end
