(* ===== verification/PageProps.thy ===== *)
theory PageProps
  imports PageMulti
begin

text \<open>
  The properties of slotted pages: pages built by the operations of \<open>bufpage.c\<close> stay well formed, and
  what each operation does to the lines of a page.
\<close>

section \<open>Checksums\<close>

lemma set_checksum_twice: "set_checksum (set_checksum p c) d = set_checksum p d"
  by (auto simp: set_checksum_def put16_def fun_eq_iff)

lemma checksum_ignores_field: "pg_checksum_page (set_checksum p c) blkno = pg_checksum_page p blkno"
  by (simp add: pg_checksum_page_def set_checksum_twice)

lemma checksum_range: "unat (ucast (w mod 65535 + 1) :: uint16) = unat ((w :: uint32) mod 65535) + 1"
proof -
  have l: "unat (w mod 65535) < 65535" by (simp add: unat_mod)
  then have "unat (w mod 65535 + 1) = unat (w mod 65535) + 1" by (simp add: unat_word_ariths)
  then show ?thesis using l by (simp add: unsigned_ucast_eq unsigned_take_bit_eq take_bit_nat_eq_self)
qed

lemma checksum_nonzero: "pg_checksum_page p blkno \<noteq> 0"
proof
  assume "pg_checksum_page p blkno = 0"
  then show False using checksum_range[of "pg_checksum_block (set_checksum p 0) XOR blkno"]
    by (simp add: pg_checksum_page_def Let_def)
qed

lemma set_checksum_fields [simp]:
  "pd_lower (set_checksum p c) = pd_lower p" "pd_upper (set_checksum p c) = pd_upper p" "pd_special (set_checksum p c) = pd_special p"
  "pd_flags (set_checksum p c) = pd_flags p" "pd_checksum (set_checksum p c) = c"
  by (simp_all add: fchecksum.put_other)

text \<open>The block number is mixed in, so a page found at another block is refused, unless the numbers differ by more.\<close>

lemma split_word: "(w :: uint32) = push_bit 16 (drop_bit 16 w) OR take_bit 16 w"
  by (rule bit_word_eqI) (auto simp: bit_simps)

lemma low_high: "unat (w :: uint32) = unat (drop_bit 16 w) * 65536 + unat (take_bit 16 w)" "unat (take_bit 16 w) < 65536"
  by (simp_all add: unsigned_drop_bit_eq unsigned_take_bit_eq drop_bit_eq_div take_bit_eq_mod unat_div unat_mod)

lemma congruent_low:
  fixes lo lo' :: nat
  assumes "(h + lo) mod 65535 = (h + lo') mod 65535" "lo < 65536" "lo' < 65536"
  shows "lo = lo' \<or> lo = 0 \<and> lo' = 65535 \<or> lo = 65535 \<and> lo' = 0"
proof -
  obtain a b where "h + lo + 65535 * a = h + lo' + 65535 * b" using assms(1) unfolding nat_mod_eq_iff by blast
  then have e: "lo + 65535 * a = lo' + 65535 * b" by simp
  consider "a = b" | k where "b = a + Suc k" | k where "a = b + Suc k"
    using less_linear[of a b] by (auto simp: less_iff_Suc_add)
  then show ?thesis
  proof cases
    case 1
    then show ?thesis using e by simp
  next
    case (2 k)
    then have "lo = lo' + 65535 + 65535 * k" using e by simp
    then show ?thesis using assms(2) by linarith
  next
    case (3 k)
    then have "lo' = lo + 65535 + 65535 * k" using e by simp
    then show ?thesis using assms(3) by linarith
  qed
qed

lemma congruent_words:
  fixes u v :: uint32
  assumes "u mod 65535 = v mod 65535" "drop_bit 16 (u XOR v) = 0" "u \<noteq> v"
  shows "u XOR v = 65535"
proof -
  have h: "drop_bit 16 u = drop_bit 16 v" using assms(2) by (auto simp: bit_eq_iff bit_simps)
  define hi lo lo' where "hi = unat (drop_bit 16 u)" and "lo = unat (take_bit 16 u)" and "lo' = unat (take_bit 16 v)"
  have "unat u mod 65535 = unat v mod 65535" using assms(1) unat_mod[of u 65535] unat_mod[of v 65535] by simp
  then have "(hi * 65536 + lo) mod 65535 = (hi * 65536 + lo') mod 65535" "lo < 65536" "lo' < 65536"
    using low_high[of u] low_high[of v] h by (simp_all add: hi_def lo_def lo'_def)
  then have c: "lo = lo' \<or> lo = 0 \<and> lo' = 65535 \<or> lo = 65535 \<and> lo' = 0" by (rule congruent_low)
  have "lo \<noteq> lo'" using split_word[of u] split_word[of v] h assms(3) by (metis lo_def lo'_def word_unat_eq_iff)
  then have "(of_nat lo XOR of_nat lo' :: uint32) = 65535" using c by auto
  moreover have "of_nat lo = take_bit 16 u" "of_nat lo' = take_bit 16 v" by (simp_all add: lo_def lo'_def)
  ultimately have "take_bit 16 (u XOR v) = 65535" by (simp add: take_bit_xor)
  then have "u XOR v = push_bit 16 0 OR 65535" using split_word[of "u XOR v"] assms(2) by metis
  then show ?thesis by simp
qed

lemma block_number_mixed:
  fixes b b' :: uint32
  assumes "drop_bit 16 (b XOR b') = 0" "b \<noteq> b'" "b XOR b' \<noteq> 65535"
  shows "pg_checksum_page p b \<noteq> pg_checksum_page p b'"
proof
  define x where "x = pg_checksum_block (set_checksum p 0)"
  have ucast: "unat (ucast (w mod 65535 + 1) :: uint16) = unat (w mod 65535) + 1" for w :: uint32
    by (rule checksum_range)
  assume "pg_checksum_page p b = pg_checksum_page p b'"
  then have "unat ((x XOR b) mod 65535) = unat ((x XOR b') mod 65535)"
    using ucast[of "x XOR b"] ucast[of "x XOR b'"] by (simp add: pg_checksum_page_def x_def Let_def)
  then have "(x XOR b) mod 65535 = (x XOR b') mod 65535" by (simp only: word_unat_eq_iff)
  moreover have "(x XOR b) XOR (x XOR b') = b XOR b'" by (rule bit_word_eqI) (auto simp: bit_simps)
  moreover from this have "x XOR b \<noteq> x XOR b'" using assms(2) by (auto simp: bit_eq_iff bit_simps)
  ultimately show False using congruent_words[of "x XOR b" "x XOR b'"] assms(1,3) by simp
qed

section \<open>Pages in use\<close>

text \<open>
  One operation on a page, on the terms its callers keep: items are not empty, a heap page has at most
  \<open>MaxHeapTuplesPerPage\<close> line pointers, the index operations find storage behind every line pointer they
  assert it for, and the numbers of a multiple delete ascend.
\<close>

definition all_stored :: "bytes \<Rightarrow> bool" where
  "all_stored p = list_all ItemIdHasStorage (linps p)"

inductive page_step :: "bytes \<Rightarrow> bytes \<Rightarrow> bool" where
  add: "item \<noteq> [] \<Longrightarrow> length item < 2 ^ 31 - 8 \<Longrightarrow> PageAddItemExtended p item off flags = Inr (n, q) \<Longrightarrow> page_step p q"
| repair: "PageGetMaxOffsetNumber p \<le> MaxHeapTuplesPerPage \<Longrightarrow> PageRepairFragmentation scratch p = Inr q \<Longrightarrow> page_step p q"
| truncate: "page_step p (PageTruncateLinePointerArray p)"
| delete: "all_stored p \<Longrightarrow> PageIndexTupleDelete p n = Inr q \<Longrightarrow> page_step p q"
| delete_no_compact: "ItemIdHasStorage (PageGetItemId p n) \<Longrightarrow> PageIndexTupleDeleteNoCompact p n = Inr q \<Longrightarrow> page_step p q"
| overwrite: "ItemIdHasStorage (PageGetItemId p n) \<Longrightarrow> item \<noteq> [] \<Longrightarrow> PageIndexTupleOverwrite p n item = Inr (b, q) \<Longrightarrow> page_step p q"
| multi_delete: "all_stored p \<Longrightarrow> PageGetMaxOffsetNumber p \<le> MaxIndexTuplesPerPage \<Longrightarrow> sorted_wrt (<) ns \<Longrightarrow>
    \<forall>n \<in> set ns. 0 < n \<and> n \<le> PageGetMaxOffsetNumber p \<Longrightarrow> PageIndexMultiDelete scratch p ns = Inr q \<Longrightarrow> page_step p q"

inductive_cases page_stepE: "page_step p q"

text \<open>What a step keeps: the page is well formed, and nothing from its special space on is written.\<close>

definition kept :: "bytes \<Rightarrow> bytes \<Rightarrow> bool" where
  "kept p q \<longleftrightarrow> page_wf q \<and> pd_special q = pd_special p \<and> (\<forall>x \<ge> pd_special p. q x = p x)"

lemma kept_trans: "kept p q \<Longrightarrow> kept q r \<Longrightarrow> kept p r"
  by (simp add: kept_def)

lemma offnum_valid:
  assumes "page_wf p"
  shows "PageIndexTupleDelete p n = Inr q \<Longrightarrow> 0 < n \<and> n \<le> PageGetMaxOffsetNumber p"
    "PageIndexTupleDeleteNoCompact p n = Inr q \<Longrightarrow> 0 < n \<and> n \<le> PageGetMaxOffsetNumber p"
    "PageIndexTupleOverwrite p n item = Inr (b, q) \<Longrightarrow> 0 < n \<and> n \<le> PageGetMaxOffsetNumber p"
  by (auto simp: PageIndexTupleDelete_def PageIndexTupleDeleteNoCompact_def PageIndexTupleOverwrite_def Let_def split: if_splits)

lemma page_step_kept:
  assumes "page_step p q" "page_wf p"
  shows "kept p q"
  using assms(1)
proof cases
  case (add item off flags n)
  then show ?thesis using add_item_spec[OF assms(2) add(1,2), of off flags] by (auto simp: kept_def)
next
  case (repair scratch)
  then show ?thesis using repair_spec[OF assms(2), of scratch] by (auto simp: kept_def)
next
  case truncate
  have "pd_upper p \<le> pd_special p" using assms(2) by (simp add: page_wf_simps)
  then show ?thesis using truncate_spec[OF assms(2) truncate] by (simp add: kept_def)
next
  case (delete n)
  then obtain i where "n = Suc i" "i < PageGetMaxOffsetNumber p" using offnum_valid(1)[OF assms(2)] by (metis Suc_le_eq gr0_conv_Suc)
  then show ?thesis using delete delete_spec[OF assms(2), of i] by (auto simp: kept_def all_stored_def list_all_iff)
next
  case (delete_no_compact n)
  then obtain i where "n = Suc i" "i < PageGetMaxOffsetNumber p" using offnum_valid(2)[OF assms(2)] by (metis Suc_le_eq gr0_conv_Suc)
  then show ?thesis using delete_no_compact nocompact_spec[OF assms(2), of i] by (auto simp: kept_def)
next
  case (overwrite n item b)
  then obtain i where i: "n = Suc i" "i < PageGetMaxOffsetNumber p" using offnum_valid(3)[OF assms(2)] by (metis Suc_le_eq gr0_conv_Suc)
  show ?thesis
  proof (cases "MAXALIGN (length item) \<le> MAXALIGN (ItemIdGetLength (get_linp p i)) + (pd_upper p - pd_lower p)")
    case True
    then show ?thesis using overwrite i overwrite_spec[OF assms(2), of i item] by (auto simp: kept_def)
  next
    case False
    then show ?thesis using overwrite i assms(2) by (auto simp: kept_def PageIndexTupleOverwrite_def Let_def split: if_splits)
  qed
next
  case (multi_delete ns scratch)
  then have "\<forall>l \<in> set (lines p). is_tuple l" "\<forall>n \<in> set ns. 0 < n \<and> n \<le> length (lines p)"
    using stored_lines[OF assms(2)] by (simp_all add: all_stored_def list_all_iff lines_def)
  then show ?thesis using multi_delete multi_delete_spec[OF assms(2), of ns scratch] by (auto simp: kept_def)
qed

lemma page_steps_kept: "page_step\<^sup>*\<^sup>* p q \<Longrightarrow> page_wf p \<Longrightarrow> kept p q"
proof (induction rule: rtranclp_induct)
  case (step q r)
  then show ?case using page_step_kept kept_trans by (metis kept_def)
qed (simp add: kept_def)

section \<open>Free lines\<close>

lemma strip_unused_used: "filter (\<lambda>l. l \<noteq> Unused) (strip_unused ls) = filter (\<lambda>l. l \<noteq> Unused) ls"
proof -
  have "filter (\<lambda>l. l \<noteq> Unused) (dropWhile (\<lambda>l. l = Unused) xs) = filter (\<lambda>l. l \<noteq> Unused) xs" for xs
    by (induction xs) auto
  then show ?thesis by (metis rev_filter rev_rev_ident strip_unused_def)
qed

lemma free_linp_line:
  assumes "page_wf p"
  shows "list_ex (\<lambda>offnum. \<not> ItemIdIsUsed (PageGetItemId p offnum)) [FirstOffsetNumber ..< PageGetMaxOffsetNumber p + 1] \<longleftrightarrow> Unused \<in> set (lines p)"
proof -
  have "Unused \<in> set (lines p) \<longleftrightarrow> (\<exists>i < PageGetMaxOffsetNumber p. \<not> ItemIdIsUsed (get_linp p i))"
    by (auto simp: lines_def linps_def line_of_def)
  also have "\<dots> \<longleftrightarrow> (\<exists>n \<in> {1 ..< PageGetMaxOffsetNumber p + 1}. \<not> ItemIdIsUsed (get_linp p (n - 1)))"
  proof -
    have "{1 ..< PageGetMaxOffsetNumber p + 1} = Suc ` {..< PageGetMaxOffsetNumber p}"
      by (simp add: image_Suc_lessThan atLeastLessThanSuc_atLeastAtMost)
    then show ?thesis by auto
  qed
  finally show ?thesis by (simp add: list_ex_iff FirstOffsetNumber_def PageGetItemId_def del: upt_Suc)
qed

section \<open>Unchecked lengths\<close>

text \<open>
  A page whose header is in order and whose line pointers all pass the checks of
  \<open>PageRepairFragmentation\<close>, but whose second tuple reaches beyond the end of the page.
\<close>

definition overlong_page :: bytes where
  "overlong_page =
     put_linp (put_linp (set_lower (set_upper (set_special (\<lambda>_. 0) 8192) 8176) 32)
       0 \<lparr>lp_off = 8176, lp_flags = LP_NORMAL, lp_len = 8\<rparr>) 1 \<lparr>lp_off = 8184, lp_flags = LP_NORMAL, lp_len = 16\<rparr>"

lemma overlong_fields:
  "pd_lower overlong_page = 32" "pd_upper overlong_page = 8176" "pd_special overlong_page = 8192" "PageGetMaxOffsetNumber overlong_page = 2"
  "get_linp overlong_page 0 = \<lparr>lp_off = 8176, lp_flags = LP_NORMAL, lp_len = 8\<rparr>"
  "get_linp overlong_page (Suc 0) = \<lparr>lp_off = 8184, lp_flags = LP_NORMAL, lp_len = 16\<rparr>"
proof -
  show f: "pd_lower overlong_page = 32" "pd_upper overlong_page = 8176" "pd_special overlong_page = 8192"
    "get_linp overlong_page 0 = \<lparr>lp_off = 8176, lp_flags = LP_NORMAL, lp_len = 8\<rparr>"
    "get_linp overlong_page (Suc 0) = \<lparr>lp_off = 8184, lp_flags = LP_NORMAL, lp_len = 16\<rparr>"
    by (simp_all add: overlong_page_def flinp.get_put)
  show "PageGetMaxOffsetNumber overlong_page = 2" by (simp add: max_offset_eq f)
qed

text \<open>
  C39: the checks of \<open>PageRepairFragmentation\<close> do not cover the ends of the tuples. On the page above
  every check passes, and the function copies from behind the end of its temporary buffer.
\<close>

theorem repair_trusts_lengths: "PageRepairFragmentation scratch overlong_page = Inl Overrun"
proof -
  let ?a = "\<lparr>offsetindex = 0, itemoff = 8176, alignedlen = 8\<rparr>" and ?b = "\<lparr>offsetindex = 1, itemoff = 8184, alignedlen = 16\<rparr>"
  let ?s = "\<lambda>its last pre total final. \<lparr>rs_page = overlong_page, rs_items = its, rs_last_offset = last, rs_presorted = pre,
    rs_totallen = total, rs_nunused = 0, rs_finalusedlp = final\<rparr>"
  note st = repair_step_def PageGetItemId_def overlong_fields ItemIdIsUsed_def ItemIdHasStorage_def ItemIdGetOffset_def ItemIdGetLength_def
    LP_NORMAL_def LP_UNUSED_def MAXALIGN_def
  have "repair_loop 8176 8192 [1, 2] (?s [] 8192 True 0 0) = Inr (?s [?a, ?b] 8176 False 24 2)"
    by (simp add: st)
  moreover have "compactify_tuples scratch [?a, ?b] overlong_page False = None"
    by (simp add: compactify_tuples_def overlong_fields item_end_def copy_from_def BLCKSZ_def Let_def)
  moreover have "[Suc 0 ..< 2] = [1]" by (simp add: upt_rec)
  ultimately show ?thesis
    by (simp add: PageRepairFragmentation_def bad_page_pointers_def overlong_fields MAXALIGN_def SizeOfPageHeaderData_def BLCKSZ_def
        FirstOffsetNumber_def InvalidOffsetNumber_def)
qed

section \<open>Properties\<close>

text \<open>
  C33: a page that \<open>PageInit\<close> set up stays well formed under any sequence of the page operations:
  header and line pointers in order, every tuple aligned and inside the tuple space, no two tuples
  sharing a byte. The special space and the memory behind the page are never written.
\<close>

theorem page_stays_well_formed:
  assumes "special \<le> 8000" "page_step\<^sup>*\<^sup>* (PageInit m BLCKSZ special) p"
  shows "page_wf p \<and> pd_special p = BLCKSZ - MAXALIGN special \<and>
    (\<forall>x \<ge> BLCKSZ - MAXALIGN special. p x = (if x < BLCKSZ then 0 else m x))"
proof -
  let ?q = "PageInit m BLCKSZ special"
  have "page_wf ?q" using page_init_spec[OF assms(1), of m] by (simp add: BLCKSZ_def)
  moreover have "pd_special ?q = 8192 - MAXALIGN special" "24 \<le> x \<Longrightarrow> ?q x = (if x < 8192 then 0 else m x)" for x
    using page_init_fields[OF assms(1) refl, where p = m] by (simp_all add: BLCKSZ_def)
  moreover have "24 \<le> 8192 - MAXALIGN special" using assms(1) align_bounds(2)[of special] by simp
  ultimately show ?thesis using page_steps_kept[OF assms(2)] by (auto simp: kept_def BLCKSZ_def)
qed

definition add_to :: "bytes \<Rightarrow> uint8 list \<Rightarrow> bytes" where
  "add_to p item = snd (projr (PageAddItem p item 0 False False))"

definition demo_page :: bytes where
  "demo_page = add_to (add_to (add_to (PageInit (\<lambda>_. 0) 8192 16) [1, 2, 3]) [4]) [5, 6]"

lemma add_to:
  assumes "page_wf p" "\<not> PageHasFreeLinePointers p" "item \<noteq> []" "length item \<le> 8" "pd_lower p + 12 \<le> pd_upper p"
  shows "page_wf (add_to p item)" "lines (add_to p item) = lines p @ [Tuple LP_NORMAL item]" "pd_upper (add_to p item) = pd_upper p - 8"
    "pd_lower (add_to p item) = pd_lower p + 4" "\<not> PageHasFreeLinePointers (add_to p item)"
proof -
  have m: "MAXALIGN (length item) = 8" using assms(3,4) by (cases item) (auto simp: MAXALIGN_def)
  then have "MAXALIGN (length item) + 4 \<le> pd_upper p - pd_lower p" using assms(5) by simp
  then obtain p' where "PageAddItem p item 0 False False = Inr (length (lines p) + 1, p')" "page_wf p'" "lines p' = lines p @ [Tuple LP_NORMAL item]"
    "pd_upper p' = pd_upper p - 8" "pd_lower p' = pd_lower p + 4" "pd_flags p' = pd_flags p"
    using append_item[OF assms(1-3)] m by auto
  then show "page_wf (add_to p item)" "lines (add_to p item) = lines p @ [Tuple LP_NORMAL item]" "pd_upper (add_to p item) = pd_upper p - 8"
    "pd_lower (add_to p item) = pd_lower p + 4" "\<not> PageHasFreeLinePointers (add_to p item)"
    using assms(2) by (simp_all add: add_to_def PageHasFreeLinePointers_def)
qed

lemma demo_page:
  "page_wf demo_page" "lines demo_page = [Tuple LP_NORMAL [1, 2, 3], Tuple LP_NORMAL [4], Tuple LP_NORMAL [5, 6]]"
  "pd_upper demo_page = 8152" "pd_lower demo_page = 36" "\<not> PageHasFreeLinePointers demo_page"
proof -
  let ?q = "PageInit (\<lambda>_. 0) 8192 16"
  have q: "page_wf ?q" "\<not> PageHasFreeLinePointers ?q" "pd_lower ?q = 24" "pd_upper ?q = 8176" "lines ?q = []"
    using page_init_spec[of 16 "\<lambda>_. 0"] page_init_fields[of 16 ?q "\<lambda>_. 0"] by (simp_all add: PageHasFreeLinePointers_def MAXALIGN_def)
  note a = add_to[OF q(1,2), of "[1, 2, 3]", unfolded q, simplified]
  note b = add_to[OF a(1,5), of "[4]", unfolded a, simplified]
  note c = add_to[OF b(1,5), of "[5, 6]", unfolded b, simplified]
  show "page_wf demo_page" "lines demo_page = [Tuple LP_NORMAL [1, 2, 3], Tuple LP_NORMAL [4], Tuple LP_NORMAL [5, 6]]"
    "pd_upper demo_page = 8152" "pd_lower demo_page = 36" "\<not> PageHasFreeLinePointers demo_page"
    using c by (simp_all add: demo_page_def)
qed

lemma demo_steps: "page_step\<^sup>*\<^sup>* (PageInit (\<lambda>_. 0) BLCKSZ 16) demo_page"
proof -
  have step: "page_step p (add_to p item)" if i: "item \<noteq> []" "length item \<le> 8" "page_wf p" for p item
  proof -
    have l: "length item < 2 ^ 31 - 8" using i(2) by simp
    obtain n q where "PageAddItem p item 0 False False = Inr (n, q)"
      using add_item_spec[OF i(3,1) l, of 0 0] by (auto simp: PageAddItem_def)
    then show ?thesis using i(1) l by (auto simp: add_to_def PageAddItem_def intro!: page_step.add)
  qed
  have wf: "page_wf (add_to p item)" if "item \<noteq> []" "length item \<le> 8" "page_wf p" for p item
    using page_step_kept[OF step[OF that] that(3)] by (simp add: kept_def)
  define a where "a = PageInit (\<lambda>_. 0) 8192 16"
  have a: "page_wf a" using page_init_spec[of 16] by (simp add: a_def)
  define b where "b = add_to a [1, 2, 3]"
  have b: "page_step a b" "page_wf b" using step[OF _ _ a] wf[OF _ _ a] by (simp_all add: b_def)
  define c where "c = add_to b [4]"
  have c: "page_step b c" "page_wf c" using step[OF _ _ b(2)] wf[OF _ _ b(2)] by (simp_all add: c_def)
  have "page_step c (add_to c [5, 6])" using step[OF _ _ c(2)] by simp
  then have "page_step\<^sup>*\<^sup>* a (add_to c [5, 6])" using b(1) c(1) by (meson converse_rtranclp_into_rtranclp r_into_rtranclp)
  then have "page_step\<^sup>*\<^sup>* a demo_page" by (simp add: demo_page_def c_def b_def a_def)
  then show ?thesis by (simp add: a_def BLCKSZ_def)
qed

theorem page_stays_well_formed_witness:
  "page_wf demo_page \<and> pd_special demo_page = 8176 \<and> demo_page 8180 = 0"
  using page_stays_well_formed[OF _ demo_steps] by (simp add: BLCKSZ_def MAXALIGN_def)

text \<open>
  C34: adding an item to a well-formed page. Either it is refused and all lines stay as they are, or
  the page holds the bytes of the item under the offset returned and every other line as before. The
  caller's offset is used when it gives one; without one no line moves: the item goes to an unused line
  or behind the last.
\<close>

theorem add_item_places:
  assumes "page_wf p" "item \<noteq> []" "length item < 2 ^ 31 - 8"
  shows "\<exists>n q. PageAddItemExtended p item off flags = Inr (n, q) \<and> page_wf q \<and> n \<le> length (lines p) + 1 \<and>
    (if n = 0 then lines q = lines p
     else \<exists>grow. lines q = put_line grow (n - 1) (Tuple LP_NORMAL item) (lines p) \<and>
       (\<not> grow \<longrightarrow> n \<le> length (lines p) \<and> lines p ! (n - 1) = Unused) \<and>
       (if OffsetNumberIsValid off then n = off else grow \<longrightarrow> n = length (lines p) + 1))"
  using add_item_spec[OF assms, of off flags] by blast

theorem add_item_places_witness:
  "\<exists>n q. PageAddItemExtended demo_page [7, 8] 2 0 = Inr (n, q) \<and> page_wf q \<and> n \<le> 4"
  using add_item_places[OF demo_page(1), of "[7, 8]" 2 0] by (auto simp: demo_page(2))

text \<open>
  C35: \<open>PageRepairFragmentation\<close> keeps every line of a heap page, tuples with their bytes, but drops
  unused lines at the end; afterwards all free space lies between the two pointers and the hint tells
  exactly whether a line is unused. So an item for which the page has room in total, however scattered
  the room is, can be added after the repair.
\<close>

theorem repair_makes_room:
  assumes "page_wf p" "PageGetMaxOffsetNumber p \<le> MaxHeapTuplesPerPage"
  shows "\<exists>q. PageRepairFragmentation scratch p = Inr q \<and> page_wf q \<and> lines q = strip_unused (lines p) \<and>
    pd_upper q = pd_special p - sum_list (map line_size (lines p)) \<and>
    (PageHasFreeLinePointers q \<longleftrightarrow> Unused \<in> set (lines q)) \<and>
    (item \<noteq> [] \<and> length (filter (\<lambda>l. l \<noteq> Unused) (lines p)) < MaxHeapTuplesPerPage \<and>
     pd_lower p + sizeof_ItemIdData + sum_list (map line_size (lines p)) + MAXALIGN (length item) \<le> pd_special p \<longrightarrow>
     (\<exists>n r. PageAddItem q item 0 False True = Inr (n, r) \<and> n \<noteq> 0))"
proof -
  have few: "PageGetMaxOffsetNumber p \<le> 291" using assms(2) by simp
  obtain q where q: "PageRepairFragmentation scratch p = Inr q" "page_wf q" "lines q = strip_unused (lines p)"
    "pd_upper q = pd_special p - sum_list (map line_size (lines p))" "pd_lower q \<le> pd_lower p"
    "PageHasFreeLinePointers q \<longleftrightarrow> Unused \<in> set (lines q)"
    using repair_spec[OF assms(1) few, of scratch] by blast
  have "length (lines q) \<le> length (lines p)" unfolding q(3) strip_unused_def length_rev
    using length_dropWhile_le[of _ "rev (lines p)"] by simp
  then have l: "length (lines q) \<le> 291" using few by (simp only: lines_def length_map length_linps)
  have "\<exists>n r. PageAddItem q item 0 False True = Inr (n, r) \<and> n \<noteq> 0"
    if "item \<noteq> []" "length (filter (\<lambda>l. l \<noteq> Unused) (lines p)) < 291"
      "pd_lower p + 4 + sum_list (map line_size (lines p)) + MAXALIGN (length item) \<le> pd_special p"
  proof -
    have used: "length (lines q) < 291 \<or> Unused \<in> set (lines q)"
    proof (rule ccontr)
      assume no: "\<not> ?thesis"
      then have "filter (\<lambda>l. l \<noteq> Unused) (lines q) = lines q" by (intro filter_True) auto
      then show False using that(2) no strip_unused_used[of "lines p"] q(3) by simp
    qed
    have "MAXALIGN (length item) + 4 \<le> pd_upper q - pd_lower q" using that(3) q(4,5) by simp
    then have "MAXALIGN (length item) \<le> PageGetHeapFreeSpace q"
      using used l q(6) unfolding PageGetHeapFreeSpace_def Let_def free_linp_line[OF q(2)] by (auto simp: PageGetFreeSpace_def Let_def)
    then show ?thesis using heap_add_succeeds[OF q(2) _ that(1)] l by (simp add: lines_def) blast
  qed
  then show ?thesis using q by (auto simp: sizeof_ItemIdData_def)
qed

theorem repair_makes_room_witness:
  "\<exists>q. PageRepairFragmentation (\<lambda>_. 0) demo_page = Inr q \<and> lines q = lines demo_page \<and> (\<exists>n r. PageAddItem q [9] 0 False True = Inr (n, r) \<and> n \<noteq> 0)"
proof -
  have n: "PageGetMaxOffsetNumber demo_page = 3" by (simp add: max_offset_eq demo_page(4))
  have s: "8152 \<le> pd_special demo_page" using demo_page(1,3) by (simp add: page_wf_simps)
  have l: "strip_unused (lines demo_page) = lines demo_page" by (simp add: demo_page(2) strip_unused_def)
  show ?thesis using repair_makes_room[OF demo_page(1), of "\<lambda>_. 0" "[9]"] n s unfolding l
    by (auto simp: demo_page(2,4) MAXALIGN_def sizeof_ItemIdData_def)
qed

text \<open>
  C36: \<open>PageIndexMultiDelete\<close> on an index page, all of whose lines are tuples, removes exactly the lines
  with the given ascending numbers and keeps the others in order with their bytes; deleting the same
  lines one at a time with \<open>PageIndexTupleDelete\<close>, from the last, leaves the same lines.
\<close>

theorem multi_delete_equals_single:
  assumes "page_wf p" "\<forall>l \<in> set (lines p). is_tuple l" "PageGetMaxOffsetNumber p \<le> MaxIndexTuplesPerPage"
    and "sorted_wrt (<) ns" "\<forall>n \<in> set ns. 0 < n \<and> n \<le> length (lines p)"
  shows "\<exists>q r. PageIndexMultiDelete scratch p ns = Inr q \<and> delete_each p (rev ns) = Inr r \<and> page_wf q \<and> page_wf r \<and>
    lines q = drop_lines ns (lines p) \<and> lines r = lines q"
proof -
  have "PageGetMaxOffsetNumber p \<le> 408" using assms(3) by simp
  from multi_delete_spec[OF assms(1,2) this assms(4,5), of scratch] delete_each_spec[OF assms(1,2,4,5)] show ?thesis by auto
qed

theorem multi_delete_equals_single_witness:
  "\<exists>q r. PageIndexMultiDelete (\<lambda>_. 0) demo_page [1, 3] = Inr q \<and> delete_each demo_page [3, 1] = Inr r \<and>
     lines q = [Tuple LP_NORMAL [4]] \<and> lines r = [Tuple LP_NORMAL [4]]"
proof -
  have n: "PageGetMaxOffsetNumber demo_page \<le> MaxIndexTuplesPerPage" by (simp add: max_offset_eq demo_page(4))
  have d: "drop_lines [1, 3] (lines demo_page) = [Tuple LP_NORMAL [4]]" by (simp add: demo_page(2) drop_lines_def nths_Cons)
  show ?thesis using multi_delete_equals_single[OF demo_page(1) _ n, of "[1, 3]" "\<lambda>_. 0"] unfolding d by (auto simp: demo_page(2))
qed

text \<open>
  C37: \<open>PageIndexTupleOverwrite\<close> replaces the bytes of one tuple, with a longer or shorter one, and
  keeps every other line; it answers false and leaves the page alone exactly when the new tuple does
  not fit into the old space and the free space together.
\<close>

theorem overwrite_replaces:
  assumes "page_wf p" "i < length (lines p)" "lines p ! i = Tuple f old" "newtup \<noteq> []"
  shows "if MAXALIGN (length newtup) \<le> MAXALIGN (length old) + PageGetExactFreeSpace p
    then \<exists>q. PageIndexTupleOverwrite p (Suc i) newtup = Inr (True, q) \<and> page_wf q \<and>
      lines q = (lines p)[i := Tuple f newtup]
    else PageIndexTupleOverwrite p (Suc i) newtup = Inr (False, p)"
proof -
  have i: "i < PageGetMaxOffsetNumber p" using assms(2) by (simp add: lines_def)
  have s: "ItemIdHasStorage (get_linp p i)" using assms(3) i by (auto simp: lines_def line_of_def split: if_splits)
  have sz: "length old = ItemIdGetLength (get_linp p i)" "lp_flags (get_linp p i) = f"
    using assms(3) i by (auto simp: lines_def line_of_def load_bytes_def split: if_splits)
  have fs: "PageGetExactFreeSpace p = pd_upper p - pd_lower p" by (simp add: PageGetExactFreeSpace_def Let_def) linarith
  show ?thesis
  proof (cases "MAXALIGN (length newtup) \<le> MAXALIGN (ItemIdGetLength (get_linp p i)) + (pd_upper p - pd_lower p)")
    case True
    then show ?thesis using overwrite_spec[OF assms(1) i s assms(4) True] unfolding sz fs by auto
  next
    case False
    then have "PageIndexTupleOverwrite p (Suc i) newtup = Inr (False, p)"
      using wf_pointers(1)[OF assms(1)] wf_pointers(2)[OF assms(1) i s] i by (simp add: PageIndexTupleOverwrite_def Let_def)
    then show ?thesis using False unfolding sz fs by simp
  qed
qed

theorem overwrite_replaces_witness:
  "\<exists>q. PageIndexTupleOverwrite demo_page 2 [7, 7, 7, 7, 7, 7, 7, 7, 7] = Inr (True, q) \<and>
     lines q = [Tuple LP_NORMAL [1, 2, 3], Tuple LP_NORMAL [7, 7, 7, 7, 7, 7, 7, 7, 7], Tuple LP_NORMAL [5, 6]]"
proof -
  have "PageGetExactFreeSpace demo_page = 8116" by (simp add: PageGetExactFreeSpace_def demo_page(3,4))
  then show ?thesis
    using overwrite_replaces[OF demo_page(1), of 1 LP_NORMAL "[4]" "[7, 7, 7, 7, 7, 7, 7, 7, 7]"]
    by (auto simp: demo_page(2) MAXALIGN_def numeral_2_eq_2)
qed

text \<open>
  C38: a well-formed page with valid flags, stored with \<open>PageSetChecksumInplace\<close>, is verified when read
  back from its block, and its lines are the same; its checksum is never zero. Read back with another
  checksum, or from a block whose number differs in the low 16 bits only (but not in all of them), it
  is refused.
\<close>

theorem checksum_verifies:
  assumes "page_wf p" "pd_flags p AND NOT PD_VALID_FLAG_BITS = 0"
  shows "(let q = PageSetChecksumInplace True p blkno in
     PageIsVerifiedExtended True ignored q blkno flags = (True, False, False) \<and> page_wf q \<and> lines q = lines p \<and>
     pd_checksum q \<noteq> 0 \<and>
     (c \<noteq> pd_checksum q \<longrightarrow> \<not> fst (PageIsVerifiedExtended True False (set_checksum q c) blkno flags)) \<and>
     (drop_bit 16 (blkno XOR other) = 0 \<and> blkno \<noteq> other \<and> blkno XOR other \<noteq> 0xFFFF \<longrightarrow>
       \<not> fst (PageIsVerifiedExtended True False q other flags)))"
proof -
  define q where "q = set_checksum p (pg_checksum_page p blkno)"
  have h: "24 \<le> pd_lower p" "pd_lower p \<le> pd_upper p" "pd_upper p \<le> pd_special p" "pd_special p \<le> 8192" "pd_special p = MAXALIGN (pd_special p)"
    using assms(1) MAXALIGN_aligned by (auto simp: page_wf_simps)
  have q: "PageSetChecksumInplace True p blkno = q" using h by (simp add: PageSetChecksumInplace_def PageIsNew_def q_def)
  have nz: "\<not> all_zeroes r" if "pd_upper r = pd_upper p" for r
  proof
    assume "all_zeroes r"
    then have "get16 r 14 = 0" by (simp add: all_zeroes_def list_all_iff get16_def BLCKSZ_def)
    then show False using that h by (simp add: pd_upper_def)
  qed
  have refuse: "\<not> fst (PageIsVerifiedExtended True False (set_checksum p c) b flags)" if "c \<noteq> pg_checksum_page p b" for c b
    using that nz[of "set_checksum p c"] h by (auto simp: PageIsVerifiedExtended_def checksum_ignores_field PageIsNew_def Let_def)
  have "PageIsVerifiedExtended True ignored q blkno flags = (True, False, False)"
    using h assms(2) by (simp add: PageIsVerifiedExtended_def q_def checksum_ignores_field PageIsNew_def Let_def BLCKSZ_def)
  moreover have lp: "linps q = linps p" by (rule linps_cong) (simp_all add: q_def)
  then have "page_wf q" using assms(1) by (simp add: page_wf_def q_def)
  moreover have "line_of q lp = line_of p lp" if "lp \<in> set (linps p)" for lp
    using that assms(1) h by (intro line_of_cong) (auto simp: page_wf_simps layout_ok_def lp_ok_def q_def)
  then have "lines q = lines p" by (simp add: lines_def lp)
  moreover have "\<not> fst (PageIsVerifiedExtended True False (set_checksum q c) blkno flags)" if "c \<noteq> pd_checksum q"
    using refuse[of c blkno] that by (simp add: q_def set_checksum_twice)
  moreover have "\<not> fst (PageIsVerifiedExtended True False q other flags)"
    if "drop_bit 16 (blkno XOR other) = 0" "blkno \<noteq> other" "blkno XOR other \<noteq> 0xFFFF"
    using refuse[of "pg_checksum_page p blkno" other] block_number_mixed[OF that(1,2)] that(3) by (simp add: q_def)
  ultimately show ?thesis using checksum_nonzero[of p blkno] unfolding q Let_def by (simp add: q_def)
qed

theorem checksum_verifies_witness:
  "PageIsVerifiedExtended True False (PageSetChecksumInplace True (PageInit (\<lambda>_. 0) BLCKSZ 16) 5) 5 0 = (True, False, False) \<and>
   \<not> fst (PageIsVerifiedExtended True False (PageSetChecksumInplace True (PageInit (\<lambda>_. 0) BLCKSZ 16) 5) 7 0)"
proof -
  let ?p = "PageInit (\<lambda>_. 0) BLCKSZ 16"
  have "page_wf ?p" "pd_flags ?p AND NOT PD_VALID_FLAG_BITS = 0"
    using page_init_spec[of 16 "\<lambda>_. 0"] page_init_fields(4)[of 16 ?p "\<lambda>_. 0"] by (simp_all add: BLCKSZ_def)
  from checksum_verifies[OF this, of 5 False 0 0 7] show ?thesis by (simp add: Let_def)
qed

end
