(* ===== verification/Spec2Isabelle.thy ===== *)
theory Spec2Isabelle
  imports EpiClient EpiEngines VectorMath EpiExtension FreeSpace BitmapsetSpec VisibilitySpec PageProps
begin

text \<open>
  A verification development for EpiphanyDB: a database client library with five storage engines, an
  extension that exposes it to SQL, and the PostgreSQL 17 tree it is vendored with. All file names below
  are relative to \<open>src/\<close>; \<open>pg/\<close> abbreviates \<open>postgresql/src/backend/\<close>.

  \<^bold>\<open>The program.\<close> A client calls the API of \<open>include/epiphanydb.h\<close>, implemented by \<open>src/core/\<close>. The API
  keeps contexts, tables and transactions as heap objects whose lifetime the client controls. Behind it
  stand the engines of \<open>src/storage/\<close>, one dispatch table each. From SQL the same engines are reached
  through \<open>postgresql/contrib/epiphanydb\<close>. The rows of a heap table live in PostgreSQL: in slotted pages
  (\<open>pg/storage/page\<close>), found through the free space map (\<open>pg/storage/freespace\<close>), visible or not
  according to their transactions (\<open>pg/access/heap/heapam_visibility.c\<close>), whose fate the commit log tells
  (\<open>pg/access/transam\<close>). The planner's sets of integers (\<open>pg/nodes/bitmapset.c\<close>) are used throughout.

  \<^bold>\<open>How the C code is modelled.\<close> A \<open>struct\<close> is a record, an \<open>enum\<close> a datatype, an unsigned integer a word
  of its width where wrapping can happen and a number where the sources bound it. Statements that change
  memory are functions from a state to a state. What C leaves undefined is the value \<open>None\<close> (or the error
  \<open>Overrun\<close> for a page), and \<open>ereport(ERROR)\<close> is \<open>Inl\<close> of an error. Allocation failure, file system and
  catalog are arguments of the functions that meet them, so a theorem holds for all their behaviours.
  Loops are recursive functions with a termination proof; where an end is itself a claim they are partial
  functions into \<open>option\<close>, and that they return is proved. The locks of shared memory are not modelled as
  objects: an operation that runs under one exclusive lock is one step, and where the code gives the lock
  up, arbitrary changes by others are an argument.

  \<^bold>\<open>The theories\<close>, in the order of dependence:

  \<^item> \<open>Prelude\<close>: machine integers, the block size, shared lemmas. \<open>CMem\<close>: the C abstract machine (objects,
    \<open>malloc\<close>, \<open>free\<close>, loads, stores) with the locale that states the contract of the allocator.

  \<^item> \<open>EpiCore\<close> models \<open>include/epiphanydb.h\<close> and \<open>src/core/epiphanydb.c\<close>, function by function.
    \<open>EpiClient\<close> turns it into a step relation of a client. A client that keeps the API's rules never meets
    undefined behaviour and never leaks; \<open>epiphanydb_init\<close> is all or nothing and is undone by
    \<open>epiphanydb_cleanup\<close>; the flag \<open>is_active\<close> does not protect a finished transaction.

  \<^item> \<open>EpiEngines\<close> models \<open>src/storage/*_storage.c\<close>: the outcome of creating a table on every branch,
    and that initialising an engine leaks its context. \<open>VectorMath\<close> models the distance functions over IEEE
    binary32 numbers; \<open>EpiExtension\<close> the module, SQL functions and hooks of \<open>contrib/epiphanydb\<close>.

  \<^item> \<open>FsmPage\<close>, \<open>FsmSearch\<close>: the map page of \<open>pg/storage/freespace/fsmpage.c\<close>. On a sound page the search
    is the search for the first fitting slot from the hint on, and updates keep the page sound; on any page,
    with any interference, it ends. \<open>FreeSpace\<close>: the three-level map of \<open>freespace.c\<close>, and that its
    searches only return pages that were recorded to have enough room.

  \<^item> \<open>Bitmapset\<close>, \<open>BitmapsetQuery\<close>, \<open>BitmapsetSpec\<close>: the word arrays of \<open>pg/nodes/bitmapset.c\<close> refine
    finite sets of numbers, through a locale that their callers can use instead of the code.

  \<^item> \<open>Transam\<close>: transaction ids, and the status tests of \<open>transam.c\<close> and \<open>subtrans.c\<close>.
    \<open>HeapVisibility\<close>, \<open>VisibilityHints\<close>, \<open>VisibilitySpec\<close>: the visibility tests against a specification
    that mentions neither hint bits nor the order of the tests; that hint bits tell the truth; that what a
    snapshot sees is stable; and that vacuum removes only what no snapshot sees.

  \<^item> \<open>PageBytes\<close>, \<open>PageLayout\<close>, \<open>PageFields\<close>: the bytes of a page and every operation of \<open>bufpage.c\<close>, with
    the checksum of \<open>checksum_impl.h\<close>. \<open>PageSpec\<close> reads a page as the list of its lines; \<open>PageAdd\<close>,
    \<open>PageCompact\<close>, \<open>PageRepair\<close>, \<open>PageIndex\<close>, \<open>PageMulti\<close> show what each operation does to that list, and
    \<open>PageProps\<close> states it, with the invariant of pages under any sequence of operations.

  \<^item> This theory joins pages and map: a page the map offers takes the tuple it was searched for.

  \<^bold>\<open>Bounds.\<close> \<open>BLCKSZ\<close> is the default 8192, pages have at most 2048 line pointers on any page and 291 on a heap page, and
  lengths of C objects are below \<open>2 ^ 31\<close>, as the sources assume. There is no fuel: where the code restarts a
  loop because of others, what they do is given as a list, and the loop ends with it.

  \<^bold>\<open>Not modelled.\<close> The rest of the PostgreSQL tree (parser, planner, executor, WAL, buffer manager, lock
  manager, indexes, replication): it is not called by the code above except through the arguments named
  there. Locks and waiting inside the modelled modules, since each operation is one step. The message texts
  of errors, statistics counters and tracing, which nothing reads back. The SQL scripts, tests,
  documentation and build files, which are not program logic.
\<close>

section \<open>Heap pages and the free space map\<close>

text \<open>
  A heap is a function from block numbers to pages. Its pages are fit for the insertion of heap tuples,
  and its free space map promises no more room than the pages have.
\<close>

definition heap_pages :: "(nat \<Rightarrow> bytes) \<Rightarrow> bool" where
  "heap_pages heap \<longleftrightarrow> (\<forall>b. page_wf (heap b) \<and> PageGetMaxOffsetNumber (heap b) \<le> MaxHeapTuplesPerPage)"

definition map_honest :: "relation \<Rightarrow> (nat \<Rightarrow> bytes) \<Rightarrow> bool" where
  "map_honest rel heap \<longleftrightarrow> (\<forall>b v. GetRecordedFreeSpace rel b = Some v \<longrightarrow> v \<le> PageGetHeapFreeSpace (heap b))"

lemma heap_insert:
  assumes "page_wf p" "PageGetMaxOffsetNumber p \<le> MaxHeapTuplesPerPage" "item \<noteq> []" "MAXALIGN (length item) \<le> PageGetHeapFreeSpace p"
  shows "\<exists>n q. PageAddItem p item 0 False True = Inr (n, q) \<and> n \<noteq> 0 \<and> page_wf q \<and>
    PageGetMaxOffsetNumber q \<le> MaxHeapTuplesPerPage \<and> lines q ! (n - 1) = Tuple LP_NORMAL item"
proof -
  have few: "PageGetMaxOffsetNumber p \<le> 291" using assms(2) by simp
  have "PageGetHeapFreeSpace p \<le> pd_upper p" by (auto simp: PageGetHeapFreeSpace_def PageGetFreeSpace_def Let_def)
  moreover have "pd_upper p \<le> 8192" using assms(1) by (auto simp: page_wf_simps)
  ultimately have "length item < 2 ^ 31 - 8" using assms(4) align_bounds(1)[of "length item"] by simp
  note add = add_item_spec[OF assms(1,3) this, of 0 "0 OR PAI_IS_HEAP"]
  obtain n q where q: "PageAddItem p item 0 False True = Inr (n, q)" "n \<noteq> 0" "PageGetMaxOffsetNumber q \<le> 291"
    using heap_add_succeeds[OF assms(1) few assms(3,4)] by blast
  moreover from this have "page_wf q" "\<exists>grow. lines q = put_line grow (n - 1) (Tuple LP_NORMAL item) (lines p) \<and>
      (\<not> grow \<longrightarrow> n \<le> length (lines p)) \<and> n \<le> length (lines p) + 1"
    using add by (auto simp: PageAddItem_def)
  then have "lines q ! (n - 1) = Tuple LP_NORMAL item" using q(2) by (auto simp: put_line_def nth_append)
  ultimately show ?thesis using \<open>page_wf q\<close> by simp
qed

text \<open>
  C40: a search for room always gives the inserting backend a page that takes its tuple. When the map
  names a block and promises no more than the pages have, adding the item to that page succeeds, and
  recording the room that is left makes the map honest for the new heap; when it names none, a newly
  initialised page takes the item.
\<close>

theorem insert_where_map_says:
  assumes "fsm_rel rel" "heap_pages heap" "item \<noteq> []" "MAXALIGN (length item) \<le> MaxFSMRequestSize"
  shows "\<exists>r rel'. GetPageWithFreeSpace rel (MAXALIGN (length item)) = Some (Inr (r, rel')) \<and>
    (case r of
       None \<Rightarrow> \<exists>n q. PageAddItem (PageInit m BLCKSZ 0) item 0 False True = Inr (n, q) \<and> n \<noteq> 0 \<and>
         lines q ! (n - 1) = Tuple LP_NORMAL item
     | Some b \<Rightarrow> b < heap_nblocks rel \<and> (map_honest rel' heap \<longrightarrow>
         (\<exists>n q rel''. PageAddItem (heap b) item 0 False True = Inr (n, q) \<and> n \<noteq> 0 \<and> lines q ! (n - 1) = Tuple LP_NORMAL item \<and>
           RecordPageWithFreeSpace rel' b (PageGetHeapFreeSpace q) = Some rel'' \<and>
           fsm_rel rel'' \<and> heap_pages (heap(b := q)) \<and> map_honest rel'' (heap(b := q)))))"
proof -
  let ?need = "MAXALIGN (length item)"
  obtain c where c: "fsm_space_needed_to_cat ?need = Inr c" using needed_error[of ?need] assms(4) by metis
  obtain r rel' where s: "fsm_search rel c = Some (r, rel')" "room_found rel ?need (r, rel')" using search_room[OF assms(1) c] by fastforce
  then have g: "GetPageWithFreeSpace rel ?need = Some (Inr (r, rel'))" by (simp add: GetPageWithFreeSpace_def c)
  show ?thesis
  proof (cases r)
    case None
    have i: "page_wf (PageInit m 8192 0)" "PageGetHeapFreeSpace (PageInit m 8192 0) = 8164" "PageGetMaxOffsetNumber (PageInit m 8192 0) = 0"
      using page_init_spec[of 0 m] page_init_fields(1)[of 0 _ m] by (simp_all add: MAXALIGN_def max_offset_eq)
    have "?need \<le> 8164" using assms(4) by (simp add: fs_sizes)
    then show ?thesis using heap_insert[OF i(1) _ assms(3)] i g None by (auto simp: BLCKSZ_def)
  next
    case (Some b)
    then obtain v where v: "fsm_rel rel'" "b < heap_nblocks rel" "GetRecordedFreeSpace rel' b = Some v" "?need \<le> v"
      using s(2) by (auto simp: room_found_def)
    have "\<exists>n q rel''. PageAddItem (heap b) item 0 False True = Inr (n, q) \<and> n \<noteq> 0 \<and> lines q ! (n - 1) = Tuple LP_NORMAL item \<and>
        RecordPageWithFreeSpace rel' b (PageGetHeapFreeSpace q) = Some rel'' \<and> fsm_rel rel'' \<and>
        heap_pages (heap(b := q)) \<and> map_honest rel'' (heap(b := q))" if h: "map_honest rel' heap"
    proof -
      have "?need \<le> PageGetHeapFreeSpace (heap b)" using h v(3,4) by (fastforce simp: map_honest_def)
      then obtain n q where q: "PageAddItem (heap b) item 0 False True = Inr (n, q)" "n \<noteq> 0" "page_wf q"
        "PageGetMaxOffsetNumber q \<le> MaxHeapTuplesPerPage" "lines q ! (n - 1) = Tuple LP_NORMAL item"
        using heap_insert[of "heap b" item] assms(2,3) by (auto simp: heap_pages_def)
      obtain rel'' where r: "RecordPageWithFreeSpace rel' b (PageGetHeapFreeSpace q) = Some rel''" "fsm_rel rel''"
        using record_spec[OF v(1), of b "PageGetHeapFreeSpace q"] by blast
      have "map_honest rel'' (heap(b := q))"
        using record_spec[OF v(1), of b "PageGetHeapFreeSpace q"] r(1) h by (auto simp: map_honest_def split: if_splits)
      then show ?thesis using q r assms(2) by (auto simp: heap_pages_def)
    qed
    then show ?thesis using g Some v(2) by auto
  qed
qed

theorem insert_where_map_says_witness:
  "\<exists>r rel'. GetPageWithFreeSpace demo_rel (MAXALIGN (length [1 :: uint8, 2, 3])) = Some (Inr (r, rel')) \<and>
    (r = None \<longrightarrow> (\<exists>n q. PageAddItem (PageInit (\<lambda>_. 0) BLCKSZ 0) [1, 2, 3] 0 False True = Inr (n, q) \<and> n \<noteq> 0))"
proof -
  have h: "heap_pages (\<lambda>_. demo_page)" using demo_page(1,4) by (simp add: heap_pages_def max_offset_eq)
  have "MAXALIGN (length [1 :: uint8, 2, 3]) \<le> MaxFSMRequestSize" by (simp add: MAXALIGN_def fs_sizes)
  from insert_where_map_says[OF demo_rel_ok h _ this, of "\<lambda>_. 0"] show ?thesis by fastforce
qed

end
